(* ===== verification/Prelude.thy ===== *)
theory Prelude
  imports Main "HOL-Library.Word"
begin

text \<open>
  Shared vocabulary of the development: machine integer types, the exceptions a
  wshttp function can end with, results as sums, and the generic lemmas on lists,
  maps and results that the component theories use.
\<close>

unbundle bit_operations_syntax

section \<open>Machine integers\<close>

type_synonym byte = "8 word"
type_synonym u16 = "16 word"
type_synonym u32 = "32 word"
type_synonym u64 = "64 word"

text \<open>\<open>size_t\<close> is 64 bits wide on the platforms the build files name.\<close>

type_synonym size_t = "64 word"

section \<open>Lemma collections\<close>

named_theorems frame_simps \<open>fields that an operation leaves alone\<close>
named_theorems wf_intros \<open>preservation of well-formedness by one operation\<close>
named_theorems keeps_intros \<open>computations that keep an invariant of their state\<close>
named_theorems const_defs \<open>numeric constants of the libraries' public headers\<close>

section \<open>How a function can end badly\<close>

text \<open>
  The C++ exceptions the code throws, with the fixed part of the message, and the
  ways a step can leave defined behaviour: reading through a null or dangling
  pointer, indexing past the end, dividing by zero, failing an \<open>assert\<close>.
\<close>

datatype exn =
    runtime_error string
  | invalid_argument string
  | system_error int
  | bad_variant_access
  | bad_function_call
  | null_deref
  | use_after_free
  | out_of_bounds
  | div_by_zero
  | assert_failed

text \<open>
  A handler catches C++ exceptions; an access to memory the program does not own, a
  division by zero or a failed assertion is no exception and runs no handler.
\<close>

fun catchable :: "exn \<Rightarrow> bool" where
  "catchable null_deref = False"
| "catchable use_after_free = False"
| "catchable out_of_bounds = False"
| "catchable div_by_zero = False"
| "catchable assert_failed = False"
| "catchable _ = True"

type_synonym 'a result = "exn + 'a"

definition bind_result :: "'a result \<Rightarrow> ('a \<Rightarrow> 'b result) \<Rightarrow> 'b result" where
  "bind_result r f = (case r of Inl e \<Rightarrow> Inl e | Inr x \<Rightarrow> f x)"

lemma bind_result_simps [simp]:
  "bind_result (Inl e) f = Inl e"
  "bind_result (Inr x) f = f x"
  by (simp_all add: bind_result_def)

lemma bind_result_Inr_iff:
  "bind_result r f = Inr y \<longleftrightarrow> (\<exists>x. r = Inr x \<and> f x = Inr y)"
  by (cases r) simp_all

lemma bind_result_Inl_iff:
  "bind_result r f = Inl e \<longleftrightarrow> r = Inl e \<or> (\<exists>x. r = Inr x \<and> f x = Inl e)"
  by (cases r) auto

text \<open>\<open>guard ok e\<close> is the source's \<open>if (not ok) throw e;\<close>.\<close>

definition guard :: "bool \<Rightarrow> exn \<Rightarrow> unit result" where
  "guard ok e = (if ok then Inr () else Inl e)"

lemma guard_simps [simp]:
  "guard True e = Inr ()"
  "guard False e = Inl e"
  by (simp_all add: guard_def)

lemma guard_Inr_iff: "guard ok e = Inr u \<longleftrightarrow> ok"
  by (simp add: guard_def)

section \<open>Computations with a state\<close>

text \<open>
  A member function that may throw returns its result and the object it leaves
  behind; an exception keeps the fields assigned before it was thrown.
\<close>

type_synonym ('s, 'a) comp = "'s \<Rightarrow> 'a result \<times> 's"

definition bindc :: "('s, 'a) comp \<Rightarrow> ('a \<Rightarrow> ('s, 'b) comp) \<Rightarrow> ('s, 'b) comp" where
  "bindc m f s = (case m s of (Inl e, s') \<Rightarrow> (Inl e, s') | (Inr x, s') \<Rightarrow> f x s')"

definition thenc :: "('s, unit) comp \<Rightarrow> ('s, 'b) comp \<Rightarrow> ('s, 'b) comp" where
  "thenc m k = bindc m (\<lambda>_. k)"

definition returnc :: "'a \<Rightarrow> ('s, 'a) comp" where
  "returnc x s = (Inr x, s)"

definition throwc :: "exn \<Rightarrow> ('s, 'a) comp" where
  "throwc e s = (Inl e, s)"

definition guardc :: "bool \<Rightarrow> exn \<Rightarrow> ('s, unit) comp" where
  "guardc ok e s = (guard ok e, s)"

definition modifyc :: "('s \<Rightarrow> 's) \<Rightarrow> ('s, unit) comp" where
  "modifyc f s = (Inr (), f s)"

definition getc :: "('s, 's) comp" where
  "getc s = (Inr s, s)"

lemma bindc_ret [simp]: "m s = (Inr x, s') \<Longrightarrow> bindc m f s = f x s'"
  by (simp add: bindc_def)

lemma bindc_exn [simp]: "m s = (Inl e, s') \<Longrightarrow> bindc m f s = (Inl e, s')"
  by (simp add: bindc_def)

lemma comp_simps [simp]:
  "returnc x s = (Inr x, s)"
  "throwc e s = (Inl e, s)"
  "modifyc g s = (Inr (), g s)"
  "getc s = (Inr s, s)"
  "guardc True e s = (Inr (), s)"
  "guardc False e s = (Inl e, s)"
  by (simp_all add: returnc_def throwc_def modifyc_def getc_def guardc_def)

lemma guardc_cases: "guardc ok e s = (if ok then (Inr (), s) else (Inl e, s))"
  by (simp add: guardc_def)

text \<open>
  \<open>keeps I m\<close>: whatever \<open>m\<close> returns or throws, it leaves a state that satisfies \<open>I\<close>
  when it is started in one. The rules follow the shape of a computation.
\<close>

definition keeps :: "('s \<Rightarrow> bool) \<Rightarrow> ('s, 'a) comp \<Rightarrow> bool" where
  "keeps I m \<longleftrightarrow> (\<forall>s. I s \<longrightarrow> I (snd (m s)))"

lemma keepsI: "(\<And>s. I s \<Longrightarrow> I (snd (m s))) \<Longrightarrow> keeps I m"
  by (simp add: keeps_def)

lemma keepsD: "keeps I m \<Longrightarrow> I s \<Longrightarrow> m s = (r, s') \<Longrightarrow> I s'"
  by (metis keeps_def snd_conv)

lemma keeps_bind [keeps_intros]:
  assumes "keeps I m" and "\<And>x. keeps I (f x)"
  shows "keeps I (bindc m f)"
proof (rule keepsI)
  fix s assume "I s"
  obtain r s1 where m: "m s = (r, s1)" by fastforce
  then have "I s1" using keepsD [OF assms(1) \<open>I s\<close>] by blast
  then show "I (snd (bindc m f s))"
    using m assms(2) by (cases r) (auto simp: keeps_def)
qed

lemma keeps_then [keeps_intros]: "keeps I m \<Longrightarrow> keeps I k \<Longrightarrow> keeps I (thenc m k)"
  unfolding thenc_def by (rule keeps_bind)

lemma keeps_pure [keeps_intros]: "keeps I (returnc x)" "keeps I (throwc e)" "keeps I (guardc ok e)" "keeps I getc"
  by (simp_all add: keeps_def guardc_cases)

lemma keeps_if [keeps_intros]: "(b \<Longrightarrow> keeps I m) \<Longrightarrow> (\<not> b \<Longrightarrow> keeps I k) \<Longrightarrow> keeps I (if b then m else k)"
  by simp

lemma keeps_option [keeps_intros]:
  "keeps I a \<Longrightarrow> (\<And>y. keeps I (f y)) \<Longrightarrow> keeps I (case x of None \<Rightarrow> a | Some y \<Rightarrow> f y)"
  by (cases x) auto

section \<open>Integer division of the language\<close>

text \<open>C++ division truncates towards zero; the remainder has the sign of the dividend.\<close>

definition c_div :: "int \<Rightarrow> int \<Rightarrow> int" where
  "c_div a b = sgn a * sgn b * (\<bar>a\<bar> div \<bar>b\<bar>)"

definition c_mod :: "int \<Rightarrow> int \<Rightarrow> int" where
  "c_mod a b = a - b * c_div a b"

lemma c_div_nonneg [simp]: "0 \<le> a \<Longrightarrow> 0 < b \<Longrightarrow> c_div a b = a div b"
  by (cases "a = 0") (simp_all add: c_div_def)

lemma c_mod_nonneg [simp]: "0 \<le> a \<Longrightarrow> 0 < b \<Longrightarrow> c_mod a b = a mod b"
  by (simp add: c_mod_def minus_mult_div_eq_mod)

lemma c_div_mod: "b * c_div a b + c_mod a b = a"
  by (simp add: c_mod_def)

lemma c_mod_eq: "0 < b \<Longrightarrow> c_mod a b = sgn a * (\<bar>a\<bar> mod b)"
proof -
  assume b: "0 < b"
  have "a = sgn a * \<bar>a\<bar>" by (simp add: sgn_mult_abs)
  then have "c_mod a b = sgn a * \<bar>a\<bar> - b * (sgn a * (\<bar>a\<bar> div b))"
    using b by (simp add: c_mod_def c_div_def)
  also have "\<dots> = sgn a * (\<bar>a\<bar> mod b)"
    by (simp add: minus_mult_div_eq_mod [symmetric] algebra_simps)
  finally show ?thesis .
qed

lemma c_mod_bounds: "0 < b \<Longrightarrow> \<bar>c_mod a b\<bar> < b"
  by (simp add: c_mod_eq abs_mult abs_sgn_eq)

section \<open>Lists and maps\<close>

lemma dropWhile_not_head: "dropWhile P xs = y # ys \<Longrightarrow> \<not> P y"
  by (metis hd_dropWhile list.distinct(1) list.sel(1))

lemma map_upd_idem: "m k = Some v \<Longrightarrow> m(k \<mapsto> v) = m"
  by auto

lemma map_del_absent: "m k = None \<Longrightarrow> m(k := None) = m"
  by auto

lemma unat_of_nat_below: "m < n \<Longrightarrow> n < 2 ^ 64 \<Longrightarrow> unat (of_nat m :: size_t) = m"
  by (simp add: unat_of_nat)

text \<open>An index that wraps: \<open>n\<close> steps of size one come back to where they began.\<close>

lemma add_mod_cycle: "(i::nat) < n \<Longrightarrow> (i + n) mod n = i"
  by simp

end
