(* ===== verification/Encoding.thy ===== *)
theory Encoding
  imports Prelude
begin

text \<open>
  Byte order (\<open>include/wshttp/encoding.hpp\<close>). \<open>big_endian\<close>, the compile-time
  constant \<open>std::endian::native == std::endian::big\<close>, is the first argument of
  every function that branches on it, so each law below is proved for both kinds
  of platform.
\<close>

section \<open>Object representation\<close>

text \<open>
  The bytes of an integer, least significant first, and the integer with given
  bytes. \<open>mem_bytes\<close> and \<open>of_mem_bytes\<close> order them as the platform stores
  them: what \<open>memmove\<close> and \<open>memcpy\<close> read and write.
\<close>

fun le_bytes :: "nat \<Rightarrow> 'a::len word \<Rightarrow> byte list" where
  "le_bytes 0 w = []"
| "le_bytes (Suc n) w = ucast w # le_bytes n (drop_bit 8 w)"

fun of_le_bytes :: "byte list \<Rightarrow> 'a::len word" where
  "of_le_bytes [] = 0"
| "of_le_bytes (b # bs) = ucast b OR push_bit 8 (of_le_bytes bs)"

definition be_bytes :: "nat \<Rightarrow> 'a::len word \<Rightarrow> byte list" where
  "be_bytes n w = rev (le_bytes n w)"

definition mem_bytes :: "bool \<Rightarrow> nat \<Rightarrow> 'a::len word \<Rightarrow> byte list" where
  "mem_bytes big_endian n w = (if big_endian then be_bytes n w else le_bytes n w)"

definition of_mem_bytes :: "bool \<Rightarrow> byte list \<Rightarrow> 'a::len word" where
  "of_mem_bytes big_endian bs = of_le_bytes (if big_endian then rev bs else bs)"

section \<open>The swaps\<close>

text \<open>The compiler builtins behind the three macros reverse the order of the bytes.\<close>

definition bswap_16 :: "u16 \<Rightarrow> u16" where
  "bswap_16 x = of_le_bytes (rev (le_bytes 2 x))"

definition bswap_32 :: "u32 \<Rightarrow> u32" where
  "bswap_32 x = of_le_bytes (rev (le_bytes 4 x))"

definition bswap_64 :: "u64 \<Rightarrow> u64" where
  "bswap_64 x = of_le_bytes (rev (le_bytes 8 x))"

text \<open>
  \<open>byteswap_inplace<T>\<close>: the branch is chosen by \<open>sizeof(T)\<close>; a one-byte
  integer takes none of them and is left as it is.
\<close>

definition byteswap_inplace :: "'a::len word \<Rightarrow> 'a word" where
  "byteswap_inplace val =
     (if LENGTH('a) = 16 then ucast (bswap_16 (ucast val))
      else if LENGTH('a) = 32 then ucast (bswap_32 (ucast val))
      else if LENGTH('a) = 64 then ucast (bswap_64 (ucast val))
      else val)"

definition host_to_big_inplace :: "bool \<Rightarrow> 'a::len word \<Rightarrow> 'a word" where
  "host_to_big_inplace big_endian val = (if \<not> big_endian then byteswap_inplace val else val)"

definition big_to_host_inplace :: "bool \<Rightarrow> 'a::len word \<Rightarrow> 'a word" where
  "big_to_host_inplace big_endian val = (if \<not> big_endian then byteswap_inplace val else val)"

definition host_to_big :: "bool \<Rightarrow> 'a::len word \<Rightarrow> 'a word" where
  "host_to_big big_endian val = host_to_big_inplace big_endian val"

definition big_to_host :: "bool \<Rightarrow> 'a::len word \<Rightarrow> 'a word" where
  "big_to_host big_endian val = big_to_host_inplace big_endian val"

section \<open>Bytes and integers are in bijection\<close>

lemma length_le_bytes [simp]: "length (le_bytes n w) = n"
  by (induction n arbitrary: w) simp_all

lemma length_be_bytes [simp]: "length (be_bytes n w) = n"
  by (simp add: be_bytes_def)

lemma length_mem_bytes [simp]: "length (mem_bytes e n w) = n"
  by (simp add: mem_bytes_def)

lemma of_le_bytes_le_bytes_take:
  "of_le_bytes (le_bytes n w) = take_bit (8 * n) (w :: 'a::len word)"
proof (induction n arbitrary: w)
  case (Suc n)
  show ?case
    by (rule bit_word_eqI) (auto simp: Suc.IH bit_simps)
qed simp

lemma of_le_bytes_le_bytes:
  "8 * n = LENGTH('a) \<Longrightarrow> of_le_bytes (le_bytes n w) = (w :: 'a::len word)"
  by (simp add: of_le_bytes_le_bytes_take)

lemma bit_of_le_bytes:
  "bit (of_le_bytes bs :: 'a::len word) i \<Longrightarrow> i < 8 * length bs"
proof (induction bs arbitrary: i)
  case (Cons b bs)
  show ?case
  proof (cases "i < 8")
    case False
    with Cons.prems have "bit (of_le_bytes bs :: 'a word) (i - 8)"
      by (auto simp: bit_simps dest: bit_imp_le_length)
    then have "i - 8 < 8 * length bs" by (rule Cons.IH)
    then show ?thesis by simp
  qed simp
qed simp

lemma le_bytes_of_le_bytes:
  "8 * length bs \<le> LENGTH('a) \<Longrightarrow>
     le_bytes (length bs) (of_le_bytes bs :: 'a::len word) = bs"
proof (induction bs)
  case (Cons b bs)
  let ?r = "of_le_bytes bs :: 'a word"
  have room: "8 + n < LENGTH('a)" if "bit ?r n" for n
    using bit_of_le_bytes [OF that] Cons.prems by simp
  have high: "\<not> bit b (8 + n)" for n
    using bit_imp_le_length [of b "8 + n"] by auto
  have "drop_bit 8 (ucast b OR push_bit 8 ?r) = ?r"
    by (rule bit_word_eqI) (auto simp: bit_simps high dest: room)
  moreover have "ucast (ucast b OR push_bit 8 ?r) = b"
    using Cons.prems by (auto intro!: bit_word_eqI simp: bit_simps dest: bit_imp_le_length)
  ultimately show ?case using Cons by simp
qed simp

lemma of_mem_bytes_mem_bytes:
  "8 * n = LENGTH('a) \<Longrightarrow> of_mem_bytes e (mem_bytes e n w) = (w :: 'a::len word)"
  by (simp add: of_mem_bytes_def mem_bytes_def be_bytes_def of_le_bytes_le_bytes)

lemma mem_bytes_of_mem_bytes:
  assumes "8 * n = LENGTH('a)" and "length bs = n"
  shows "mem_bytes e n (of_mem_bytes e bs :: 'a::len word) = bs"
  using assms le_bytes_of_le_bytes [where 'a = 'a, of bs]
    le_bytes_of_le_bytes [where 'a = 'a, of "rev bs"]
  by (auto simp: of_mem_bytes_def mem_bytes_def be_bytes_def)

text \<open>A swap reverses the stored bytes, whatever the platform.\<close>

lemma le_bytes_bswap:
  assumes "8 * n = LENGTH('a)"
  shows "le_bytes n (of_le_bytes (rev (le_bytes n w)) :: 'a::len word) = rev (le_bytes n w)"
  using assms le_bytes_of_le_bytes [where 'a = 'a, of "rev (le_bytes n w)"] by simp

lemma le_bytes_bswap_16: "le_bytes 2 (bswap_16 x) = rev (le_bytes 2 x)"
  unfolding bswap_16_def by (rule le_bytes_bswap) simp

lemma le_bytes_bswap_32: "le_bytes 4 (bswap_32 x) = rev (le_bytes 4 x)"
  unfolding bswap_32_def by (rule le_bytes_bswap) simp

lemma le_bytes_bswap_64: "le_bytes 8 (bswap_64 x) = rev (le_bytes 8 x)"
  unfolding bswap_64_def by (rule le_bytes_bswap) simp

lemma bswap_involution [simp]:
  "bswap_16 (bswap_16 x) = x" "bswap_32 (bswap_32 y) = y" "bswap_64 (bswap_64 z) = z"
  by (simp_all add: bswap_16_def [of "bswap_16 x"] bswap_32_def [of "bswap_32 y"]
      bswap_64_def [of "bswap_64 z"] le_bytes_bswap_16 le_bytes_bswap_32 le_bytes_bswap_64
      of_le_bytes_le_bytes)

lemma byteswap_8: "byteswap_inplace (v :: byte) = v"
  by (simp add: byteswap_inplace_def)

lemma byteswap_16: "byteswap_inplace (v :: u16) = bswap_16 v"
  by (simp add: byteswap_inplace_def)

lemma byteswap_32: "byteswap_inplace (v :: u32) = bswap_32 v"
  by (simp add: byteswap_inplace_def)

lemma byteswap_64: "byteswap_inplace (v :: u64) = bswap_64 v"
  by (simp add: byteswap_inplace_def)

lemmas byteswap_widths = byteswap_8 byteswap_16 byteswap_32 byteswap_64
lemmas order_defs = host_to_big_def host_to_big_inplace_def big_to_host_def big_to_host_inplace_def

section \<open>The contract of a byte order conversion\<close>

text \<open>
  What the address code needs of the pair \<open>host_to_big\<close>, \<open>big_to_host\<close> at one
  width: they undo each other, and the converted integer has, in memory, the bytes
  of the value in network order.
\<close>

locale network_order =
  fixes to_net :: "'a::len word \<Rightarrow> 'a word"
    and from_net :: "'a word \<Rightarrow> 'a word"
    and stored :: "'a word \<Rightarrow> byte list"
    and network :: "'a word \<Rightarrow> byte list"
  assumes from_to: "from_net (to_net v) = v"
    and to_from: "to_net (from_net v) = v"
    and stored_to: "stored (to_net v) = network v"
begin

lemma to_net_inject: "to_net v = to_net w \<longleftrightarrow> v = w"
  by (metis from_to)

lemma from_net_inject: "from_net v = from_net w \<longleftrightarrow> v = w"
  by (metis to_from)

lemma network_from: "network (from_net v) = stored v"
  by (metis stored_to to_from)

lemma from_net_eq_iff: "from_net v = w \<longleftrightarrow> v = to_net w"
  by (metis from_to to_from)

end

lemma order_16:
  "big_to_host e (host_to_big e (v :: u16)) = v"
  "host_to_big e (big_to_host e (v :: u16)) = v"
  "mem_bytes e 2 (host_to_big e (v :: u16)) = be_bytes 2 v"
  by (simp_all add: order_defs byteswap_widths mem_bytes_def be_bytes_def le_bytes_bswap_16)

lemma order_32:
  "big_to_host e (host_to_big e (v :: u32)) = v"
  "host_to_big e (big_to_host e (v :: u32)) = v"
  "mem_bytes e 4 (host_to_big e (v :: u32)) = be_bytes 4 v"
  by (simp_all add: order_defs byteswap_widths mem_bytes_def be_bytes_def le_bytes_bswap_32)

lemma order_64:
  "big_to_host e (host_to_big e (v :: u64)) = v"
  "host_to_big e (big_to_host e (v :: u64)) = v"
  "mem_bytes e 8 (host_to_big e (v :: u64)) = be_bytes 8 v"
  by (simp_all add: order_defs byteswap_widths mem_bytes_def be_bytes_def le_bytes_bswap_64)

interpretation n16: network_order "host_to_big e :: u16 \<Rightarrow> u16" "big_to_host e"
  "mem_bytes e 2" "be_bytes 2" for e
  by unfold_locales (rule order_16)+

interpretation n32: network_order "host_to_big e :: u32 \<Rightarrow> u32" "big_to_host e"
  "mem_bytes e 4" "be_bytes 4" for e
  by unfold_locales (rule order_32)+

interpretation n64: network_order "host_to_big e :: u64 \<Rightarrow> u64" "big_to_host e"
  "mem_bytes e 8" "be_bytes 8" for e
  by unfold_locales (rule order_64)+

section \<open>Properties\<close>

text \<open>
  For 16, 32 and 64 bit integers, on little- and big-endian platforms alike,
  \<open>host_to_big\<close> stores the value's bytes most significant first (network order)
  and \<open>big_to_host\<close> undoes it.
\<close>

theorem network_order_roundtrip:
  "mem_bytes e 2 (host_to_big e (p :: u16)) = be_bytes 2 p \<and>
   mem_bytes e 4 (host_to_big e (a :: u32)) = be_bytes 4 a \<and>
   mem_bytes e 8 (host_to_big e (q :: u64)) = be_bytes 8 q \<and>
   big_to_host e (host_to_big e p) = p \<and>
   big_to_host e (host_to_big e a) = a \<and>
   big_to_host e (host_to_big e q) = q"
  using n16.stored_to n32.stored_to n64.stored_to n16.from_to n32.from_to n64.from_to
  by simp

end
