(* ===== verification/Spans.thy ===== *)
theory Spans
  imports Encoding
begin

text \<open>
  \<open>const_span\<close>, its comparisons, and the string literals
  \<open>""_sp\<close>, \<open>""_usp\<close>, \<open>""_bsp\<close> (\<open>include/wshttp/types.hpp\<close>). A span is
  modelled by the list of its elements, a C string literal by its characters
  with the terminating NUL that its array type \<open>const char (&)[N]\<close> includes.
\<close>

section \<open>Three-way comparison\<close>

datatype strong_ordering = ord_less | ord_equal | ord_greater

definition compare3 :: "'a::linorder \<Rightarrow> 'a \<Rightarrow> strong_ordering" where
  "compare3 x y = (if x < y then ord_less else if x = y then ord_equal else ord_greater)"

fun flip_ordering :: "strong_ordering \<Rightarrow> strong_ordering" where
  "flip_ordering ord_less = ord_greater"
| "flip_ordering ord_equal = ord_equal"
| "flip_ordering ord_greater = ord_less"

text \<open>The first ordering that is not \<open>equal\<close> decides, as in \<open>std::tie(a, b) <=> std::tie(c, d)\<close>.\<close>

fun then_compare :: "strong_ordering \<Rightarrow> strong_ordering \<Rightarrow> strong_ordering" where
  "then_compare ord_equal o2 = o2"
| "then_compare o1 o2 = o1"

lemma compare3_eq_iff [simp]: "compare3 x y = ord_equal \<longleftrightarrow> x = y"
  by (auto simp: compare3_def)

lemma compare3_less_iff [simp]: "compare3 x y = ord_less \<longleftrightarrow> x < y"
  by (auto simp: compare3_def)

lemma compare3_flip: "compare3 y x = flip_ordering (compare3 x y)"
  by (auto simp: compare3_def)

lemma then_compare_eq_iff [simp]:
  "then_compare a b = ord_equal \<longleftrightarrow> a = ord_equal \<and> b = ord_equal"
  by (cases a) auto

lemma then_compare_less_iff:
  "then_compare a b = ord_less \<longleftrightarrow> a = ord_less \<or> (a = ord_equal \<and> b = ord_less)"
  by (cases a) auto

lemma flip_then_compare:
  "flip_ordering (then_compare a b) = then_compare (flip_ordering a) (flip_ordering b)"
  by (cases a) auto

section \<open>Spans\<close>

definition span_eq :: "'a list \<Rightarrow> 'a list \<Rightarrow> bool" where
  "span_eq lhs rhs \<longleftrightarrow> length lhs = length rhs \<and> list_all2 (=) lhs rhs"

fun span_compare :: "'a::linorder list \<Rightarrow> 'a list \<Rightarrow> strong_ordering" where
  "span_compare [] [] = ord_equal"
| "span_compare [] (_ # _) = ord_less"
| "span_compare (_ # _) [] = ord_greater"
| "span_compare (x # xs) (y # ys) = then_compare (compare3 x y) (span_compare xs ys)"

text \<open>
  \<open>const_span::to_string\<close> builds a \<open>std::string\<close> from
  \<open>reinterpret_cast<const char*>(this->data(), this->size())\<close>: the comma makes the
  cast's operand the size, so the string is read from the address whose value is
  the number of elements. \<open>c_string_at\<close> is the memory of the process: the NUL
  terminated string at an address, if the address can be read.
\<close>

definition span_to_string :: "(u64 \<Rightarrow> string option) \<Rightarrow> 'a list \<Rightarrow> string result" where
  "span_to_string c_string_at s =
     (case c_string_at (of_nat (length s)) of
        None \<Rightarrow> Inl use_after_free
      | Some str \<Rightarrow> Inr str)"

lemma span_eq_iff [simp]: "span_eq xs ys \<longleftrightarrow> xs = ys"
  by (auto simp: span_eq_def list_all2_eq [symmetric])

lemma span_compare_eq_iff: "span_compare xs ys = ord_equal \<longleftrightarrow> xs = ys"
  by (induction xs ys rule: span_compare.induct) auto

lemma span_compare_flip: "span_compare ys xs = flip_ordering (span_compare xs ys)"
  by (induction xs ys rule: span_compare.induct)
    (auto simp: flip_then_compare compare3_flip [symmetric])

text \<open>It is the lexicographic order of the library.\<close>

lemma span_compare_lex:
  "span_compare xs ys =
     (if ord_class.lexordp xs ys then ord_less else if xs = ys then ord_equal else ord_greater)"
  by (induction xs ys rule: span_compare.induct) (auto simp: compare3_def)

section \<open>Literals\<close>

definition c_literal :: "string \<Rightarrow> string" where
  "c_literal s = s @ [CHR 0x00]"

definition byte_of_char :: "char \<Rightarrow> byte" where
  "byte_of_char c = of_nat (of_char c)"

definition char_of_byte :: "byte \<Rightarrow> char" where
  "char_of_byte b = char_of (unat b)"

text \<open>\<open>literal(const char (&s)[N])\<close> copies all \<open>N\<close> array elements.\<close>

definition literal_arr :: "(char \<Rightarrow> 'a) \<Rightarrow> string \<Rightarrow> 'a list" where
  "literal_arr cast s = map (\<lambda>i. cast (c_literal s ! i)) [0..<length (c_literal s)]"

definition literal_span :: "'a list \<Rightarrow> 'a list" where
  "literal_span arr = arr"

definition sp :: "string \<Rightarrow> char list" where
  "sp s = literal_span (literal_arr id s)"

definition usp :: "string \<Rightarrow> byte list" where
  "usp s = literal_span (literal_arr byte_of_char s)"

definition bsp :: "string \<Rightarrow> byte list" where
  "bsp s = literal_span (literal_arr byte_of_char s)"

text \<open>The bytes of a string without a terminator: what a peer sends on the wire.\<close>

definition bytes_of_string :: "string \<Rightarrow> byte list" where
  "bytes_of_string s = map byte_of_char s"

lemma literal_arr_eq: "literal_arr cast s = map cast s @ [cast (CHR 0x00)]"
proof -
  have "literal_arr cast s = map cast (map ((!) (c_literal s)) [0..<length (c_literal s)])"
    by (simp add: literal_arr_def)
  also have "\<dots> = map cast (c_literal s)"
    by (simp only: map_nth)
  finally show ?thesis by (simp add: c_literal_def)
qed

lemma usp_eq: "usp s = bytes_of_string s @ [0]"
  by (simp add: usp_def literal_span_def literal_arr_eq bytes_of_string_def byte_of_char_def)

lemma length_usp [simp]: "length (usp s) = length s + 1"
  by (simp add: usp_eq bytes_of_string_def)

lemma char_of_byte_of_char [simp]: "char_of_byte (byte_of_char c) = c"
  by (simp add: char_of_byte_def byte_of_char_def unat_of_nat)

lemma byte_of_char_inject [simp]: "byte_of_char c = byte_of_char d \<longleftrightarrow> c = d"
  by (metis char_of_byte_of_char)

lemma byte_of_char_of_byte [simp]: "byte_of_char (char_of_byte b) = b"
  using unsigned_less [of b, where 'a = nat]
  by (simp add: char_of_byte_def byte_of_char_def)

lemma bytes_of_string_inject [simp]: "bytes_of_string s = bytes_of_string t \<longleftrightarrow> s = t"
  by (simp add: bytes_of_string_def inj_map_eq_map inj_def)

section \<open>Properties\<close>

text \<open>
  \<open>operator<=>\<close> on spans is the lexicographic order of the elements, its
  \<open>equal\<close> is \<open>operator==\<close>, and exchanging the operands flips the answer.
\<close>

theorem span_compare_lexicographic:
  "span_compare xs ys =
     (if ord_class.lexordp xs ys then ord_less
      else if span_eq xs ys then ord_equal else ord_greater) \<and>
   span_compare ys xs = flip_ordering (span_compare xs ys)"
  using span_compare_lex [of xs ys] span_compare_flip [of ys xs] by simp

text \<open>
  A \<open>""_usp\<close> literal equals exactly one byte sequence: the text it spells
  followed by NUL. It is therefore different from the bytes of the text itself,
  which is what a peer sends and a library callback delivers.
\<close>

theorem usp_equals_only_with_nul:
  "(span_eq (usp s) name \<longleftrightarrow> name = bytes_of_string s @ [0]) \<and>
   \<not> span_eq (usp s) (bytes_of_string s)"
  by (auto simp: usp_eq)

end
