(* ===== verification/Utils.thy ===== *)
theory Utils
  imports Spans
begin

text \<open>
  The helpers of \<open>include/wshttp/utils.hpp\<close>, \<open>src/utils.cpp\<close> and the
  \<open>detail\<close> functions of \<open>src/internal.hpp\<close>. The fmt library's integer
  conversions are the fields of the parameter \<open>fmt_ops\<close>.
\<close>

section \<open>The formatting library\<close>

record fmt_ops =
  fmt_d :: "nat \<Rightarrow> string" \<comment> \<open>\<open>{}\<close>\<close>
  fmt_02x :: "nat \<Rightarrow> string" \<comment> \<open>\<open>{:02x}\<close>\<close>
  fmt_04x :: "nat \<Rightarrow> string" \<comment> \<open>\<open>{:04x}\<close>\<close>
  fmt_hash_x :: "nat \<Rightarrow> string" \<comment> \<open>\<open>{:#x}\<close>\<close>

section \<open>Constants of the DNS library's public header\<close>

definition EVDNS_TYPE_A :: int where [const_defs]: "EVDNS_TYPE_A = 1"
definition EVDNS_TYPE_CNAME :: int where [const_defs]: "EVDNS_TYPE_CNAME = 5"
definition EVDNS_TYPE_SOA :: int where [const_defs]: "EVDNS_TYPE_SOA = 6"
definition EVDNS_TYPE_PTR :: int where [const_defs]: "EVDNS_TYPE_PTR = 12"
definition EVDNS_TYPE_AAAA :: int where [const_defs]: "EVDNS_TYPE_AAAA = 28"
definition EVDNS_CLASS_INET :: int where [const_defs]: "EVDNS_CLASS_INET = 1"

section \<open>Helpers\<close>

definition localhost :: string where
  "localhost = ''127.0.0.1''"

definition inverse_golden_ratio :: size_t where
  "inverse_golden_ratio = 0x9e3779b97f4a7c15"

definition translate_req_type :: "int \<Rightarrow> string" where
  "translate_req_type t =
     (if t = EVDNS_TYPE_A then ''IPV4(A)-REQUEST''
      else if t = EVDNS_TYPE_CNAME then ''CNAME-REQUEST''
      else if t = EVDNS_TYPE_PTR then ''PTR-REQUEST''
      else if t = EVDNS_TYPE_AAAA then ''IPV6(AAAA)-REQUEST''
      else if t = EVDNS_TYPE_SOA then ''SOA-REQUEST''
      else ''UNKNOWN-REQUEST'')"

definition translate_dns_req_class :: "int \<Rightarrow> string" where
  "translate_dns_req_class t =
     (if t = EVDNS_CLASS_INET then ''CLASS-INET'' else ''CLASS-UNKNOWN'')"

definition localhost_ip :: "fmt_ops \<Rightarrow> u16 \<Rightarrow> string" where
  "localhost_ip fmt port = localhost @ '':'' @ fmt_d fmt (unat port)"

text \<open>For an unsigned type the maximum is all ones.\<close>

definition increment_will_overflow :: "'a::len word \<Rightarrow> bool" where
  "increment_will_overflow val \<longleftrightarrow> (- 1 :: 'a word) = val"

text \<open>
  \<open>parse_addr\<close> wraps \<open>inet_pton\<close>, whose answer (the return value and the bytes
  written, or the value of \<open>errno\<close>) is a parameter.
\<close>

datatype pton_answer = pton_ok "byte list" | pton_invalid | pton_error int

definition parse_addr :: "(string \<Rightarrow> pton_answer) \<Rightarrow> string \<Rightarrow> byte list result" where
  "parse_addr inet_pton from =
     (case inet_pton from of
        pton_invalid \<Rightarrow> Inl (invalid_argument ''Unable to parse IP address!'')
      | pton_error errno \<Rightarrow> Inl (system_error errno)
      | pton_ok bytes \<Rightarrow> Inr bytes)"

lemma increment_will_overflow_iff:
  "increment_will_overflow (v :: 'a::len word) \<longleftrightarrow> v + 1 = 0"
  unfolding increment_will_overflow_def by (metis add.commute add_eq_0_iff)

lemma unat_increment:
  "\<not> increment_will_overflow (v :: 'a::len word) \<Longrightarrow> unat (v + 1) = Suc (unat v)"
  by (metis increment_will_overflow_iff unatSuc add.commute)

end
