(* ===== verification/Parser.thy ===== *)
theory Parser
  imports Utils
begin

text \<open>
  URLs: the struct \<open>uri\<close> (\<open>include/wshttp/address.hpp\<close>, \<open>src/address.cpp\<close>) and
  the process-wide \<open>url_parser\<close> (\<open>src/internal.hpp\<close>, \<open>src/parser.cpp\<close>) around
  the ada library. The library's calls are the fields of the parameter \<open>ada_api\<close>.
\<close>

section \<open>The library\<close>

record 'u ada_api =
  ada_parse :: "string \<Rightarrow> 'u option"
  ada_set_protocol :: "'u \<Rightarrow> string \<Rightarrow> 'u \<times> bool"
  ada_validate :: "'u \<Rightarrow> bool"
  get_protocol :: "'u \<Rightarrow> string"
  get_username :: "'u \<Rightarrow> string"
  get_host :: "'u \<Rightarrow> string"
  get_port :: "'u \<Rightarrow> string"
  get_pathname :: "'u \<Rightarrow> string"
  get_search :: "'u \<Rightarrow> string"
  get_hash :: "'u \<Rightarrow> string"
  get_href :: "'u \<Rightarrow> string"

section \<open>\<open>uri\<close>\<close>

definition URI_FIELDS :: nat where "URI_FIELDS = 8"
definition HTTPS_PORT :: u16 where "HTTPS_PORT = 443"
definition HTTPS_SCHEME :: string where "HTTPS_SCHEME = ''https:''"
definition https_proto :: string where "https_proto = ''https''"

record uri =
  uri_fields :: "string list" \<comment> \<open>\<open>std::array<std::string, URI_FIELDS>\<close>\<close>

datatype uri_field = F_scheme | F_userinfo | F_host | F_port | F_pathname | F_query | F_fragment | F_href

fun field_index :: "uri_field \<Rightarrow> nat" where
  "field_index F_scheme = 0"
| "field_index F_userinfo = 1"
| "field_index F_host = 2"
| "field_index F_port = 3"
| "field_index F_pathname = 4"
| "field_index F_query = 5"
| "field_index F_fragment = 6"
| "field_index F_href = 7"

definition uri_default :: uri where
  "uri_default = \<lparr>uri_fields = replicate URI_FIELDS []\<rparr>"

definition uri_make ::
  "string \<Rightarrow> string \<Rightarrow> string \<Rightarrow> string \<Rightarrow> string \<Rightarrow> string \<Rightarrow> string \<Rightarrow> string \<Rightarrow> uri" where
  "uri_make s u h p pn q f hr = \<lparr>uri_fields = [s, u, h, p, pn, q, f, hr]\<rparr>"

definition uri_get :: "uri_field \<Rightarrow> uri \<Rightarrow> string" where
  "uri_get f u = uri_fields u ! field_index f"

abbreviation uri_scheme :: "uri \<Rightarrow> string" where "uri_scheme \<equiv> uri_get F_scheme"
abbreviation uri_host :: "uri \<Rightarrow> string" where "uri_host \<equiv> uri_get F_host"
abbreviation uri_path :: "uri \<Rightarrow> string" where "uri_path \<equiv> uri_get F_pathname"
abbreviation uri_href :: "uri \<Rightarrow> string" where "uri_href \<equiv> uri_get F_href"

text \<open>
  \<open>empty()\<close> asks the array, and \<open>std::array<T, N>::empty()\<close> is \<open>N == 0\<close>
  whatever the elements hold.
\<close>

definition uri_empty :: "uri \<Rightarrow> bool" where
  "uri_empty u \<longleftrightarrow> URI_FIELDS = 0"

definition uri_bool :: "uri \<Rightarrow> bool" where
  "uri_bool u \<longleftrightarrow> \<not> uri_empty u"

definition uri_eq :: "uri \<Rightarrow> uri \<Rightarrow> bool" where
  "uri_eq u v \<longleftrightarrow> list_all2 span_eq (uri_fields u) (uri_fields v)"

definition hash_uri :: "(string \<Rightarrow> size_t) \<Rightarrow> uri \<Rightarrow> size_t" where
  "hash_uri h u = h (uri_href u)"

section \<open>\<open>url_parser\<close>\<close>

text \<open>
  \<open>_data\<close> and \<open>_res\<close> are unique pointers; what \<open>_res\<close> points to is itself
  either a parsed url or an error.
\<close>

record 'u url_parser =
  parser_data :: "string option"
  parser_res :: "'u option option"

definition parser_new :: "'u url_parser" where
  "parser_new = \<lparr>parser_data = None, parser_res = None\<rparr>"

definition parser_make :: "'u url_parser option \<Rightarrow> 'u url_parser" where
  "parser_make p = (case p of None \<Rightarrow> parser_new | Some q \<Rightarrow> q)"

definition parser_reset :: "'u url_parser \<Rightarrow> 'u url_parser" where
  "parser_reset p = p\<lparr>parser_data := None, parser_res := None\<rparr>"

text \<open>Access without a check: a null \<open>_res\<close>, or the value of a failed parse.\<close>

definition parser_url :: "'u url_parser \<Rightarrow> 'u result" where
  "parser_url p = (case parser_res p of Some (Some u) \<Rightarrow> Inr u | _ \<Rightarrow> Inl null_deref)"

definition parser_parse :: "'u ada_api \<Rightarrow> 'u url_parser \<Rightarrow> bool \<times> 'u url_parser" where
  "parser_parse ada p =
     (case parser_data p of
        None \<Rightarrow> (False, p)
      | Some input \<Rightarrow>
          (let p1 = p\<lparr>parser_res := Some (ada_parse ada input)\<rparr> in
           case ada_parse ada input of
             None \<Rightarrow> (False, p1)
           | Some u \<Rightarrow>
               (let (u', ok) = ada_set_protocol ada u https_proto;
                    p2 = p1\<lparr>parser_res := Some (Some u')\<rparr> in
                if \<not> ok then (False, p2)
                else if ada_validate ada u' then (True, p2)
                else (False, p2))))"

definition parser_read :: "'u ada_api \<Rightarrow> 'u url_parser \<Rightarrow> string \<Rightarrow> bool \<times> 'u url_parser" where
  "parser_read ada p input =
     (let p1 = p\<lparr>parser_data := None\<rparr>;
          p2 = p1\<lparr>parser_data := Some input\<rparr>;
          (ok, p3) = parser_parse ada p2
      in if ok then (True, p3) else (False, parser_reset p3))"

definition parser_extract :: "'u ada_api \<Rightarrow> 'u url_parser \<Rightarrow> uri result" where
  "parser_extract ada p =
     bind_result (parser_url p) (\<lambda>u.
       Inr (uri_make (get_protocol ada u) (get_username ada u) (get_host ada u) (get_port ada u)
              (get_pathname ada u) (get_search ada u) (get_hash ada u) (get_href ada u)))"

definition href_str :: "'u ada_api \<Rightarrow> 'u url_parser \<Rightarrow> string result" where
  "href_str ada p =
     (if parser_res p \<noteq> None then bind_result (parser_url p) (\<lambda>u. Inr (get_href ada u))
      else Inr [])"

definition uri_parse :: "'u ada_api \<Rightarrow> string \<Rightarrow> ('u url_parser, uri) comp" where
  "uri_parse ada url p =
     (let (ok, p') = parser_read ada p url in
      if ok then (parser_extract ada p', p') else (Inr uri_default, p'))"

section \<open>Lemmas\<close>

text \<open>What a url parses to, as a function of the library alone.\<close>

definition accepted_url :: "'u ada_api \<Rightarrow> string \<Rightarrow> 'u option" where
  "accepted_url ada url =
     (case ada_parse ada url of
        None \<Rightarrow> None
      | Some u \<Rightarrow>
          (case ada_set_protocol ada u https_proto of
             (u', ok) \<Rightarrow> if ok \<and> ada_validate ada u' then Some u' else None))"

text \<open>The parser is fresh, or it holds a text and what that text parses to.\<close>

definition parser_ok :: "'u ada_api \<Rightarrow> 'u url_parser \<Rightarrow> bool" where
  "parser_ok ada p \<longleftrightarrow>
     p = parser_new \<or>
     (\<exists>input u. p = \<lparr>parser_data = Some input, parser_res = Some (Some u)\<rparr> \<and> accepted_url ada input = Some u)"

lemma parser_read_eq:
  "parser_read ada p url =
     (case accepted_url ada url of
        None \<Rightarrow> (False, parser_new)
      | Some u \<Rightarrow> (True, \<lparr>parser_data = Some url, parser_res = Some (Some u)\<rparr>))"
  by (auto simp: parser_read_def parser_parse_def parser_reset_def parser_new_def
      accepted_url_def Let_def split: option.splits prod.splits if_splits)

lemma accepted_url_validate: "accepted_url ada url = Some u \<Longrightarrow> ada_validate ada u"
  by (auto simp: accepted_url_def split: option.splits prod.splits if_splits)

lemma parser_read_ok [wf_intros]: "parser_ok ada (snd (parser_read ada p url))"
  by (auto simp: parser_read_eq parser_ok_def split: option.split)

lemma uri_parse_eq:
  "uri_parse ada url p =
     (case accepted_url ada url of
        None \<Rightarrow> (Inr uri_default, parser_new)
      | Some u \<Rightarrow>
          (Inr (uri_make (get_protocol ada u) (get_username ada u) (get_host ada u) (get_port ada u)
              (get_pathname ada u) (get_search ada u) (get_hash ada u) (get_href ada u)),
           \<lparr>parser_data = Some url, parser_res = Some (Some u)\<rparr>))"
  by (simp add: uri_parse_def parser_read_eq parser_extract_def parser_url_def split: option.split)

lemma uri_bool_True [simp]: "uri_bool u"
  by (simp add: uri_bool_def uri_empty_def URI_FIELDS_def)

lemma uri_get_make [simp]:
  "uri_get F_scheme (uri_make s u h p pn q f hr) = s"
  "uri_get F_userinfo (uri_make s u h p pn q f hr) = u"
  "uri_get F_host (uri_make s u h p pn q f hr) = h"
  "uri_get F_port (uri_make s u h p pn q f hr) = p"
  "uri_get F_pathname (uri_make s u h p pn q f hr) = pn"
  "uri_get F_query (uri_make s u h p pn q f hr) = q"
  "uri_get F_fragment (uri_make s u h p pn q f hr) = f"
  "uri_get F_href (uri_make s u h p pn q f hr) = hr"
  by (simp_all add: uri_get_def uri_make_def)

lemma uri_get_default [simp]: "uri_get f uri_default = []"
  by (cases f) (simp_all add: uri_get_def uri_default_def URI_FIELDS_def)

section \<open>Properties\<close>

text \<open>
  C36. Parsing a url leaves nothing of earlier urls behind: whatever state the shared
  parser is in, \<open>uri::parse\<close> returns without an exception, and its result and the
  state it leaves are a function of the new url alone. The parser afterwards is reset when
  the url is rejected; otherwise it holds the text of this url and the url that ada makes
  of that text, with the protocol set and validated.
\<close>

theorem uri_parse_history_free:
  "uri_parse ada url p = uri_parse ada url q \<and>
   (\<exists>u. fst (uri_parse ada url p) = Inr u) \<and>
   parser_ok ada (snd (uri_parse ada url p)) \<and>
   parser_ok ada (snd (parser_read ada p url)) \<and>
   parser_data (snd (uri_parse ada url p)) = (if accepted_url ada url = None then None else Some url) \<and>
   parser_res (snd (uri_parse ada url p)) = map_option Some (accepted_url ada url)"
  using parser_read_ok [of ada p url]
  by (auto simp: uri_parse_eq parser_read_eq parser_new_def split: option.splits)

text \<open>
  A rejected url is not told apart from an accepted one: \<open>uri::parse\<close> then
  returns the default \<open>uri\<close>, every field of which is the empty string, and that
  \<open>uri\<close> still converts to \<open>true\<close> and is not \<open>empty()\<close>, as every \<open>uri\<close> does.
\<close>

theorem rejected_url_looks_valid:
  assumes "accepted_url ada url = None"
  shows "fst (uri_parse ada url p) = Inr uri_default \<and> uri_get f uri_default = [] \<and>
         uri_bool uri_default \<and> \<not> uri_empty uri_default"
  using assms uri_bool_True [of uri_default] by (simp add: uri_parse_eq uri_bool_def del: uri_bool_True)

text \<open>
  An instance of the library for witnesses: a url is its scheme and the rest, split
  at the first colon.
\<close>

definition toy_ada :: "(string \<times> string) ada_api" where
  "toy_ada =
     \<lparr>ada_parse = (\<lambda>s. if CHR '':'' \<in> set s
         then Some (takeWhile (\<lambda>c. c \<noteq> CHR '':'') s, tl (dropWhile (\<lambda>c. c \<noteq> CHR '':'') s))
         else None),
      ada_set_protocol = (\<lambda>u s. ((s, snd u), True)),
      ada_validate = (\<lambda>_. True),
      get_protocol = (\<lambda>u. fst u @ '':''),
      get_username = (\<lambda>_. []),
      get_host = (\<lambda>u. takeWhile (\<lambda>c. c \<noteq> CHR ''/'') (drop 2 (snd u))),
      get_port = (\<lambda>_. []),
      get_pathname = (\<lambda>u. dropWhile (\<lambda>c. c \<noteq> CHR ''/'') (drop 2 (snd u))),
      get_search = (\<lambda>_. []), get_hash = (\<lambda>_. []),
      get_href = (\<lambda>u. fst u @ '':'' @ snd u)\<rparr>"

theorem rejected_url_looks_valid_witness:
  "fst (uri_parse toy_ada ''nonsense'' parser_new) = Inr uri_default \<and>
   uri_get F_host uri_default = [] \<and> uri_bool uri_default \<and> \<not> uri_empty uri_default"
  by (rule rejected_url_looks_valid) (simp add: accepted_url_def toy_ada_def)

text \<open>
  Where \<open>set_protocol\<close> succeeds only by making the url's scheme \<open>https:\<close>,
  every url that is accepted has the scheme \<open>HTTPS_SCHEME\<close>, whatever scheme the
  input named.
\<close>

theorem accepted_url_is_https:
  assumes "\<And>u s u'. ada_set_protocol ada u s = (u', True) \<Longrightarrow> get_protocol ada u' = s @ '':''"
    and "accepted_url ada url = Some u"
  shows "\<exists>v. fst (uri_parse ada url p) = Inr v \<and> uri_scheme v = HTTPS_SCHEME"
  using assms
  by (auto simp: uri_parse_eq accepted_url_def https_proto_def HTTPS_SCHEME_def
      split: option.splits prod.splits if_splits)

theorem accepted_url_is_https_witness:
  "\<exists>v. fst (uri_parse toy_ada ''http://a.b'' parser_new) = Inr v \<and> uri_scheme v = HTTPS_SCHEME"
  by (rule accepted_url_is_https [where u = "(''https'', ''//a.b'')"])
    (auto simp: toy_ada_def accepted_url_def https_proto_def)

end
