(* ===== verification/Request.thy ===== *)
theory Request
  imports Spans
begin

text \<open>
  Header lists and settings handed to nghttp2 (\<open>include/wshttp/request.hpp\<close>,
  \<open>src/request.cpp\<close>). An \<open>nghttp2_nv\<close> holds pointers into the caller's
  memory; it is modelled by the bytes they point to.
\<close>

section \<open>Names, codes and flags\<close>

datatype FIELD = H_method | H_scheme | H_authority | H_path | H_status
datatype CODE = code_200 | code_404

definition NGHTTP2_NV_FLAG_NONE :: byte where [const_defs]: "NGHTTP2_NV_FLAG_NONE = 0"
definition NGHTTP2_NV_FLAG_NO_COPY_NAME :: byte where [const_defs]: "NGHTTP2_NV_FLAG_NO_COPY_NAME = 2"
definition NGHTTP2_NV_FLAG_NO_COPY_VALUE :: byte where [const_defs]: "NGHTTP2_NV_FLAG_NO_COPY_VALUE = 4"

definition fields_method :: "byte list" where "fields_method = usp '':method''"
definition fields_scheme :: "byte list" where "fields_scheme = usp '':scheme''"
definition fields_authority :: "byte list" where "fields_authority = usp '':authority''"
definition fields_path :: "byte list" where "fields_path = usp '':path''"
definition fields_status :: "byte list" where "fields_status = usp '':status''"

definition HTTP_200 :: "byte list" where "HTTP_200 = usp ''200''"
definition HTTP_404 :: "byte list" where "HTTP_404 = usp ''404''"

fun field_span :: "FIELD \<Rightarrow> byte list" where
  "field_span H_method = fields_method"
| "field_span H_scheme = fields_scheme"
| "field_span H_authority = fields_authority"
| "field_span H_path = fields_path"
| "field_span H_status = fields_status"

fun code_span :: "CODE \<Rightarrow> byte list" where
  "code_span code_200 = HTTP_200"
| "code_span code_404 = HTTP_404"

lemmas field_defs = fields_method_def fields_scheme_def fields_authority_def fields_path_def
  fields_status_def

section \<open>Name/value pairs\<close>

record nghttp2_nv =
  nv_name :: "byte list"
  nv_value :: "byte list"
  nv_flags :: byte

definition make_pair :: "byte list \<Rightarrow> byte list \<Rightarrow> byte \<Rightarrow> nghttp2_nv" where
  "make_pair name val flags =
     \<lparr>nv_name = name, nv_value = val,
      nv_flags = flags OR NGHTTP2_NV_FLAG_NO_COPY_NAME OR NGHTTP2_NV_FLAG_NO_COPY_VALUE\<rparr>"

definition make_header :: "FIELD \<Rightarrow> byte list \<Rightarrow> byte \<Rightarrow> nghttp2_nv" where
  "make_header f v flags =
     \<lparr>nv_name = field_span f, nv_value = v,
      nv_flags = flags OR NGHTTP2_NV_FLAG_NO_COPY_NAME OR NGHTTP2_NV_FLAG_NO_COPY_VALUE\<rparr>"

section \<open>\<open>headers\<close>\<close>

record headers =
  hdrs :: "nghttp2_nv list"
  hdr_index :: size_t

definition headers_empty :: headers where
  "headers_empty = \<lparr>hdrs = [], hdr_index = 0\<rparr>"

definition add_field :: "FIELD \<Rightarrow> byte list \<Rightarrow> byte \<Rightarrow> headers \<Rightarrow> headers" where
  "add_field f val flags h = h\<lparr>hdrs := hdrs h @ [make_header f val flags]\<rparr>"

definition add_pair :: "byte list \<Rightarrow> byte list \<Rightarrow> byte \<Rightarrow> headers \<Rightarrow> headers" where
  "add_pair name val flags h = h\<lparr>hdrs := hdrs h @ [make_pair name val flags]\<rparr>"

text \<open>
  The two constructors. The one that takes a name builds the pair and drops it: the
  statement's value is not stored.
\<close>

definition headers_of_pair :: "byte list \<Rightarrow> byte list \<Rightarrow> byte \<Rightarrow> headers" where
  "headers_of_pair name val flags = (let _ = make_pair name val flags in headers_empty)"

definition headers_of_field :: "FIELD \<Rightarrow> byte list \<Rightarrow> byte \<Rightarrow> headers" where
  "headers_of_field f val flags = add_field f val flags headers_empty"

definition make_status :: "CODE \<Rightarrow> headers" where
  "make_status s = headers_of_pair fields_status (code_span s) NGHTTP2_NV_FLAG_NONE"

definition headers_size :: "headers \<Rightarrow> size_t" where
  "headers_size h = of_nat (length (hdrs h))"

definition headers_end :: "headers \<Rightarrow> bool" where
  "headers_end h \<longleftrightarrow> hdr_index h = headers_size h - 1"

definition headers_at :: "headers \<Rightarrow> size_t \<Rightarrow> (byte list \<times> byte list) result" where
  "headers_at h i =
     (if unat i < length (hdrs h)
      then Inr (nv_name (hdrs h ! unat i), nv_value (hdrs h ! unat i))
      else Inl assert_failed)"

definition headers_current :: "headers \<Rightarrow> (byte list \<times> byte list) result" where
  "headers_current h =
     (if unat (hdr_index h) < length (hdrs h)
      then Inr (nv_name (hdrs h ! unat (hdr_index h)), nv_value (hdrs h ! unat (hdr_index h)))
      else Inl out_of_bounds)"

definition headers_next :: "(headers, byte list \<times> byte list) comp" where
  "headers_next h =
     (let h1 = h\<lparr>hdr_index := hdr_index h + 1\<rparr> in
      if headers_size h1 = 0 then (Inl div_by_zero, h1)
      else (let h2 = h1\<lparr>hdr_index := hdr_index h1 mod headers_size h1\<rparr> in (headers_current h2, h2)))"

section \<open>\<open>settings\<close>\<close>

record settings_entry =
  settings_id :: u32
  settings_value :: u32

record settings =
  setting_list :: "settings_entry list"

definition settings_empty :: settings where
  "settings_empty = \<lparr>setting_list = []\<rparr>"

definition make_setting :: "u32 \<Rightarrow> u32 \<Rightarrow> settings_entry" where
  "make_setting i v = \<lparr>settings_id = i, settings_value = v\<rparr>"

definition add_setting :: "u32 \<Rightarrow> u32 \<Rightarrow> settings \<Rightarrow> settings" where
  "add_setting i v s = s\<lparr>setting_list := setting_list s @ [make_setting i v]\<rparr>"

section \<open>Walking a header list\<close>

text \<open>A list the size of which fits \<open>size_t\<close> and whose index points into it.\<close>

definition wf_headers :: "headers \<Rightarrow> bool" where
  "wf_headers h \<longleftrightarrow> length (hdrs h) < 2 ^ 64 \<and> unat (hdr_index h) < length (hdrs h)"

lemma unat_headers_size: "wf_headers h \<Longrightarrow> unat (headers_size h) = length (hdrs h)"
  by (simp add: wf_headers_def headers_size_def unat_of_nat)

lemma headers_next_index:
  assumes "wf_headers h"
  shows "headers_next h =
    (let h' = h\<lparr>hdr_index := of_nat ((unat (hdr_index h) + 1) mod length (hdrs h))\<rparr>
     in (headers_current h', h'))"
proof -
  have n: "unat (headers_size h) = length (hdrs h)" by (rule unat_headers_size [OF assms])
  have lt: "unat (hdr_index h) + 1 < 2 ^ 64" and pos: "0 < length (hdrs h)"
    using assms by (auto simp: wf_headers_def)
  then have "unat (hdr_index h + 1) = unat (hdr_index h) + 1"
    by (simp add: unat_word_ariths)
  then have "unat ((hdr_index h + 1) mod headers_size h) = (unat (hdr_index h) + 1) mod length (hdrs h)"
    by (simp add: unat_mod_distrib n)
  then have "(hdr_index h + 1) mod headers_size h = of_nat ((unat (hdr_index h) + 1) mod length (hdrs h))"
    by (metis of_nat_unat ucast_id)
  moreover have "headers_size h \<noteq> 0" using n pos by auto
  ultimately show ?thesis
    by (simp add: headers_next_def Let_def) (simp add: headers_size_def)
qed

fun headers_nexts :: "nat \<Rightarrow> headers \<Rightarrow> headers" where
  "headers_nexts 0 h = h"
| "headers_nexts (Suc k) h = headers_nexts k (snd (headers_next h))"

lemma headers_next_step:
  assumes "wf_headers h"
  shows "hdrs (snd (headers_next h)) = hdrs h \<and>
    unat (hdr_index (snd (headers_next h))) = (unat (hdr_index h) + 1) mod length (hdrs h)"
proof -
  have "0 < length (hdrs h)" "length (hdrs h) < 2 ^ 64"
    using assms by (auto simp: wf_headers_def)
  then have "unat (of_nat ((unat (hdr_index h) + 1) mod length (hdrs h)) :: size_t)
      = (unat (hdr_index h) + 1) mod length (hdrs h)"
    by (intro unat_of_nat_below [where n = "length (hdrs h)"]) simp_all
  then show ?thesis
    using assms by (simp add: headers_next_index Let_def)
qed

lemma wf_headers_next [wf_intros]:
  "wf_headers h \<Longrightarrow> wf_headers (snd (headers_next h))"
  using headers_next_step [of h] by (auto simp: wf_headers_def intro!: mod_less_divisor)

lemma headers_nexts_index:
  assumes "wf_headers h"
  shows "wf_headers (headers_nexts k h) \<and> hdrs (headers_nexts k h) = hdrs h \<and>
    unat (hdr_index (headers_nexts k h)) = (unat (hdr_index h) + k) mod length (hdrs h)"
  using assms
proof (induction k arbitrary: h)
  case 0
  then show ?case by (simp add: wf_headers_def)
next
  case (Suc k)
  then show ?case
    using headers_next_step [OF Suc.prems] wf_headers_next [OF Suc.prems]
    by (simp add: mod_simps ac_simps)
qed

section \<open>Properties\<close>

text \<open>
  \<open>next()\<close> walks a header list round and round: on a list with a valid index it
  never fails, after \<open>k\<close> calls the list is unchanged, the index is still valid and
  \<open>current()\<close> is entry \<open>index + k\<close> modulo the size; \<open>size()\<close> calls come back to the
  start. The 64-bit increment and remainder never wrap the wrong way.
\<close>

theorem headers_walk:
  assumes "wf_headers h"
  shows "wf_headers (headers_nexts k h) \<and> hdrs (headers_nexts k h) = hdrs h \<and>
         headers_current (headers_nexts k h) =
           (let e = hdrs h ! ((unat (hdr_index h) + k) mod length (hdrs h))
            in Inr (nv_name e, nv_value e)) \<and>
         headers_nexts (length (hdrs h)) h = h"
proof -
  have "headers_nexts (length (hdrs h)) h = h"
    using headers_nexts_index [OF assms, of "length (hdrs h)"] assms
    by (auto simp: wf_headers_def word_unat_eq_iff intro!: headers.equality)
  moreover have "0 < length (hdrs h)" using assms by (auto simp: wf_headers_def)
  ultimately show ?thesis
    using headers_nexts_index [OF assms, of k]
    by (simp add: headers_current_def Let_def)
qed

theorem headers_walk_witness:
  "let h = add_pair [1] [2] 0 (headers_of_field H_status HTTP_200 0) in
   wf_headers (headers_nexts 3 h) \<and> hdrs (headers_nexts 3 h) = hdrs h \<and>
   headers_current (headers_nexts 3 h) =
     (let e = hdrs h ! ((unat (hdr_index h) + 3) mod length (hdrs h))
      in Inr (nv_name e, nv_value e)) \<and>
   headers_nexts (length (hdrs h)) h = h"
  unfolding Let_def [of "add_pair [1] [2] 0 (headers_of_field H_status HTTP_200 0)"]
  by (rule headers_walk)
    (simp add: wf_headers_def add_pair_def headers_of_field_def add_field_def headers_empty_def)

text \<open>
  The status headers of a response are lost: \<open>make_status\<close> returns an empty list
  for both codes, so there is nothing to submit, \<open>current()\<close> reads past the end and
  \<open>next()\<close> divides by zero, while the constructor that takes a \<open>FIELD\<close> keeps its
  entry. The name that one sends has the literal's NUL in it.
\<close>

theorem make_status_drops_status:
  "hdrs (make_status c) = [] \<and> headers_size (make_status c) = 0 \<and>
   headers_current (make_status c) = Inl out_of_bounds \<and>
   fst (headers_next (make_status c)) = Inl div_by_zero \<and>
   map nv_name (hdrs (headers_of_field H_status (code_span c) flags)) = [bytes_of_string '':status'' @ [0]]"
  by (simp add: make_status_def headers_of_pair_def headers_empty_def headers_size_def
      headers_current_def headers_next_def headers_of_field_def add_field_def make_header_def
      fields_status_def usp_eq)

end
