(* ===== verification/Ticker.thy ===== *)
theory Ticker
  imports Prelude
begin

text \<open>
  Repeating and one-shot events: \<open>ev_watcher\<close>, the three event callbacks and
  \<open>loop_time_to_timeval\<close> (\<open>include/wshttp/loop.hpp\<close>, \<open>src/loop.cpp\<close>).
  libevent is outside the model: its return values are arguments, and the calls made
  to it are recorded, in order, in the ghost field \<open>w_calls\<close>. What a task does is
  the parameter \<open>run\<close>, which may throw.
\<close>

section \<open>Time\<close>

record timeval =
  tv_sec :: int
  tv_usec :: int

text \<open>\<open>t / 1s\<close> and \<open>(t % 1s) / 1us\<close> on a count of microseconds.\<close>

definition loop_time_to_timeval :: "int \<Rightarrow> timeval" where
  "loop_time_to_timeval t = \<lparr>tv_sec = c_div t 1000000, tv_usec = c_div (c_mod t 1000000) 1\<rparr>"

section \<open>The watcher\<close>

text \<open>
  The stored function is the caller's task, or the lambda around it that re-adds the
  event after the task returns.
\<close>

datatype 't task_fn = plain 't | rearming 't

datatype ev_call = Ev_new int | Ev_add timeval | Ev_del | Ev_free

record 't ev_watcher =
  is_running :: bool
  w_interval :: timeval
  w_f :: "'t task_fn option"
  w_calls :: "ev_call list"

definition watcher_new :: "'t ev_watcher" where
  "watcher_new =
     \<lparr>is_running = False, w_interval = \<lparr>tv_sec = 0, tv_usec = 0\<rparr>, w_f = None, w_calls = []\<rparr>"

definition log_call :: "ev_call \<Rightarrow> 't ev_watcher \<Rightarrow> 't ev_watcher" where
  "log_call c w = w\<lparr>w_calls := w_calls w @ [c]\<rparr>"

definition watcher_start :: "int \<Rightarrow> 't ev_watcher \<Rightarrow> bool \<times> 't ev_watcher" where
  "watcher_start add_rc w =
     (if is_running w then (False, w)
      else (let w1 = log_call (Ev_add (w_interval w)) w in
            if add_rc \<noteq> 0 then (False, w1) else (True, w1\<lparr>is_running := True\<rparr>)))"

definition watcher_stop :: "int \<Rightarrow> 't ev_watcher \<Rightarrow> bool \<times> 't ev_watcher" where
  "watcher_stop del_rc w =
     (if \<not> is_running w then (False, w)
      else (let w1 = log_call Ev_del w in
            if del_rc \<noteq> 0 then (False, w1) else (True, w1\<lparr>is_running := False\<rparr>)))"

definition rearm :: "'t ev_watcher \<Rightarrow> 't ev_watcher" where
  "rearm w = log_call (Ev_add (w_interval w)) (log_call Ev_del w)"

text \<open>Calling \<open>f\<close>: a null function throws, an exception skips the re-arming.\<close>

definition watcher_f ::
  "('t \<Rightarrow> 's \<Rightarrow> exn option \<times> 's) \<Rightarrow> 't ev_watcher \<Rightarrow> 's \<Rightarrow> exn option \<times> 't ev_watcher \<times> 's" where
  "watcher_f run w s =
     (case w_f w of
        None \<Rightarrow> (Some bad_function_call, w, s)
      | Some (plain t) \<Rightarrow> (let (e, s') = run t s in (e, w, s'))
      | Some (rearming t) \<Rightarrow>
          (let (e, s') = run t s in if e = None then (None, rearm w, s') else (e, w, s')))"

definition watcher_fire ::
  "('t \<Rightarrow> 's \<Rightarrow> exn option \<times> 's) \<Rightarrow> 't ev_watcher \<Rightarrow> 's \<Rightarrow> exn option \<times> 't ev_watcher \<times> 's" where
  "watcher_fire run w s =
     (let (e, w', s') = watcher_f run w s in
      if e = None then (None, rearm w', s') else (e, w', s'))"

text \<open>
  The callbacks. \<open>exec_iterative\<close> and \<open>exec_oneshot\<close> are defined and not installed
  anywhere; \<open>init_event\<close> installs its own lambda, \<open>event_lambda\<close>. All three catch
  what the task throws.
\<close>

definition exec_iterative ::
  "('t \<Rightarrow> 's \<Rightarrow> exn option \<times> 's) \<Rightarrow> 't ev_watcher \<Rightarrow> 's \<Rightarrow> 't ev_watcher \<times> 's" where
  "exec_iterative run w s =
     (if w_f w = None then (w, s)
      else if \<not> is_running w then (w, s)
      else snd (watcher_fire run w s))"

definition exec_oneshot ::
  "('t \<Rightarrow> 's \<Rightarrow> exn option \<times> 's) \<Rightarrow> 't ev_watcher \<Rightarrow> 's \<Rightarrow> 't ev_watcher \<times> 's" where
  "exec_oneshot run w s = (if w_f w = None then (w, s) else snd (watcher_f run w s))"

definition event_lambda ::
  "('t \<Rightarrow> 's \<Rightarrow> exn option \<times> 's) \<Rightarrow> 't ev_watcher \<Rightarrow> 's \<Rightarrow> 't ev_watcher \<times> 's" where
  "event_lambda run w s = (if w_f w = None then (w, s) else snd (watcher_f run w s))"

text \<open>The event is created with flags 0: neither persistent nor tied to a descriptor.\<close>

definition init_event ::
  "int \<Rightarrow> int \<Rightarrow> 't \<Rightarrow> bool \<Rightarrow> bool \<Rightarrow> bool \<Rightarrow> 't ev_watcher \<Rightarrow> 't ev_watcher" where
  "init_event add_rc t task one_off start_immediately fixed_interval w =
     (let w1 = w\<lparr>w_f := Some (if one_off \<or> \<not> fixed_interval then plain task else rearming task)\<rparr>;
          w2 = w1\<lparr>w_interval := loop_time_to_timeval t\<rparr>;
          w3 = log_call (Ev_new 0) w2
      in if one_off \<or> start_immediately then snd (watcher_start add_rc w3) else w3)"

definition watcher_destroy :: "'t ev_watcher \<Rightarrow> 't ev_watcher" where
  "watcher_destroy w = (log_call Ev_free w)\<lparr>w_f := None\<rparr>"

text \<open>
  The last step of \<open>_call_every\<close>: \<open>init_event(loop(), interval, f, start_immediately,
  fixed_interval)\<close>. The fourth and fifth parameters of \<open>init_event\<close> are \<open>one_off\<close>
  and \<open>start_immediately\<close>; the sixth is left at its default.
\<close>

definition call_every_init ::
  "int \<Rightarrow> int \<Rightarrow> 't \<Rightarrow> bool \<Rightarrow> bool \<Rightarrow> 't ev_watcher \<Rightarrow> 't ev_watcher" where
  "call_every_init add_rc interval f start_immediately fixed_interval w =
     init_event add_rc interval f start_immediately fixed_interval False w"

section \<open>Lemmas\<close>

lemma log_call_fields [simp]:
  "is_running (log_call c w) = is_running w"
  "w_interval (log_call c w) = w_interval w"
  "w_f (log_call c w) = w_f w"
  "w_calls (log_call c w) = w_calls w @ [c]"
  by (simp_all add: log_call_def)

lemma watcher_start_frame [frame_simps]:
  "w_f (snd (watcher_start rc w)) = w_f w" "w_interval (snd (watcher_start rc w)) = w_interval w"
  by (simp_all add: watcher_start_def Let_def)

lemma watcher_stop_frame [frame_simps]:
  "w_f (snd (watcher_stop rc w)) = w_f w" "w_interval (snd (watcher_stop rc w)) = w_interval w"
  by (simp_all add: watcher_stop_def Let_def)

lemma watcher_stop_running: "is_running (snd (watcher_stop rc w)) = (is_running w \<and> rc \<noteq> 0)"
  by (simp add: watcher_stop_def Let_def)

section \<open>Properties\<close>

text \<open>
  The conversion to \<open>timeval\<close> is exact for every signed interval: seconds and
  microseconds add up to the interval, the microseconds stay below a second in
  magnitude, and they have the interval's sign, so a non-negative interval gives a
  normalised value.
\<close>

theorem timeval_exact:
  "tv_sec (loop_time_to_timeval t) * 1000000 + tv_usec (loop_time_to_timeval t) = t \<and>
   \<bar>tv_usec (loop_time_to_timeval t)\<bar> < 1000000 \<and>
   tv_usec (loop_time_to_timeval t) = sgn t * (\<bar>t\<bar> mod 1000000)"
proof -
  have one: "c_div x 1 = x" for x by (simp add: c_div_def sgn_mult_abs)
  have "\<bar>c_mod t 1000000\<bar> < 1000000" by (rule c_mod_bounds) simp
  moreover have "c_div t 1000000 * 1000000 + c_mod t 1000000 = t"
    using c_div_mod [of 1000000 t] by simp
  moreover have "c_mod t 1000000 = sgn t * (\<bar>t\<bar> mod 1000000)" by (rule c_mod_eq) simp
  ultimately show ?thesis by (simp add: loop_time_to_timeval_def one)
qed

text \<open>
  \<open>start\<close> and \<open>stop\<close> keep their documented contract: \<open>start\<close> answers true
  exactly when the watcher was stopped and libevent accepted the event, and then it
  runs; \<open>stop\<close> answers true exactly when it was running and libevent removed the
  event, and then it does not; a false answer leaves the running flag as it was, and
  libevent is not called at all when the flag already has the wanted value.
\<close>

theorem start_stop_contract:
  "fst (watcher_start rc w) = (\<not> is_running w \<and> rc = 0) \<and>
   is_running (snd (watcher_start rc w)) = (is_running w \<or> rc = 0) \<and>
   fst (watcher_stop rc w) = (is_running w \<and> rc = 0) \<and>
   is_running (snd (watcher_stop rc w)) = (is_running w \<and> rc \<noteq> 0) \<and>
   w_calls (snd (watcher_start rc w)) = w_calls w @ (if is_running w then [] else [Ev_add (w_interval w)]) \<and>
   w_calls (snd (watcher_stop rc w)) = w_calls w @ (if is_running w then [Ev_del] else [])"
  by (simp add: watcher_start_def watcher_stop_def Let_def)

text \<open>
  A ticker made by \<open>call_every\<close> is never re-armed by the code. Whatever the two
  flags, the event is created without \<open>EV_PERSIST\<close>, the task is stored bare, and when
  the event fires no further \<open>event_add\<close> is made while the watcher goes on claiming
  to run. The flags arrive one position early: asking only for \<open>wait\<close> starts the
  event at once, as if \<open>start_immediately\<close> had been asked for.
\<close>

theorem call_every_not_repeated:
  "let w = call_every_init rc interval f start_immediately wait watcher_new;
       (w', s') = event_lambda run w s
   in w_f w = Some (plain f) \<and> Ev_new 0 \<in> set (w_calls w) \<and>
      w_calls w' = w_calls w \<and> is_running w' = is_running w \<and>
      is_running w = ((start_immediately \<or> wait) \<and> rc = 0) \<and>
      (Ev_add (loop_time_to_timeval interval) \<in> set (w_calls w)) = (start_immediately \<or> wait)"
  by (simp add: call_every_init_def init_event_def watcher_start_def watcher_new_def
      event_lambda_def watcher_f_def Let_def split: prod.split)

end
