(* ===== verification/Loop.thy ===== *)
theory Loop
  imports Ticker
begin

text \<open>
  The event loop (\<open>include/wshttp/loop.hpp\<close>, \<open>src/loop.cpp\<close>): its job queue, the
  thread it belongs to, and the tickers registered with it. A job or task of type
  \<open>'j\<close> is the code of a closure; what running it does is the parameter \<open>run\<close>, which
  works on the whole state of the program: the record \<open>event_loop\<close> and whatever the
  client's record extends it with.
\<close>

section \<open>State\<close>

type_synonym tid = nat        \<comment> \<open>\<open>std::thread::id\<close>\<close>
type_synonym caller_id = u16
type_synonym wid = nat        \<comment> \<open>the object a \<open>weak_ptr<ev_watcher>\<close> refers to\<close>

record 'j event_loop =
  loop_running :: bool
  loop_thread_id :: tid
  loop_thread :: bool \<comment> \<open>\<open>std::optional<std::thread>\<close> holds a thread\<close>
  loop_joinable :: bool
  job_queue :: "'j list"
  waker_active :: bool
  tickers :: "caller_id \<rightharpoonup> wid list"
  watchers :: "wid \<rightharpoonup> 'j ev_watcher" \<comment> \<open>the watchers that are still owned\<close>

definition loop_id :: caller_id where "loop_id = 0"

type_synonym ('j, 'z) job_runner = "'j \<Rightarrow> ('j, 'z) event_loop_scheme \<Rightarrow> exn option \<times> ('j, 'z) event_loop_scheme"

section \<open>Calling into the loop\<close>

definition in_event_loop :: "tid \<Rightarrow> ('j, 'z) event_loop_scheme \<Rightarrow> bool" where
  "in_event_loop this_thread s \<longleftrightarrow> this_thread = loop_thread_id s"

definition call_soon :: "'j \<Rightarrow> ('j, 'z) event_loop_scheme \<Rightarrow> ('j, 'z) event_loop_scheme" where
  "call_soon f s = s\<lparr>job_queue := job_queue s @ [f], waker_active := True\<rparr>"

definition loop_call :: "('j, 'z) job_runner \<Rightarrow> tid \<Rightarrow> 'j \<Rightarrow> ('j, 'z) event_loop_scheme \<Rightarrow>
    exn option \<times> ('j, 'z) event_loop_scheme" where
  "loop_call run this_thread f s =
     (if in_event_loop this_thread s then run f s else (None, call_soon f s))"

text \<open>
  \<open>call_get\<close>: on the loop's thread the call itself; from another thread the job is
  queued and the caller waits. (What happens while it waits is the theory
  \<open>Loop_Threads\<close>.)
\<close>

datatype 'a waiting = returned "'a result" | blocked

definition call_get :: "tid \<Rightarrow> (('j, 'z) event_loop_scheme, 'a) comp \<Rightarrow> 'j \<Rightarrow>
    ('j, 'z) event_loop_scheme \<Rightarrow> 'a waiting \<times> ('j, 'z) event_loop_scheme" where
  "call_get this_thread f promise_job s =
     (if in_event_loop this_thread s then (let (r, s') = f s in (returned r, s'))
      else (blocked, call_soon promise_job s))"

text \<open>
  \<open>process_job_queue\<close>: the queue is swapped out under the lock, then the jobs run in
  order. A job that throws ends the call; the jobs behind it were already taken out.
\<close>

fun run_jobs :: "('j, 'z) job_runner \<Rightarrow> 'j list \<Rightarrow> ('j, 'z) event_loop_scheme \<Rightarrow>
    exn option \<times> ('j, 'z) event_loop_scheme" where
  "run_jobs run [] s = (None, s)"
| "run_jobs run (job # jobs) s =
     (case run job s of
        (Some e, s') \<Rightarrow> (Some e, s')
      | (None, s') \<Rightarrow> run_jobs run jobs s')"

definition process_job_queue :: "('j, 'z) job_runner \<Rightarrow> tid \<Rightarrow> ('j, 'z) event_loop_scheme \<Rightarrow>
    exn option \<times> ('j, 'z) event_loop_scheme" where
  "process_job_queue run this_thread s =
     (if \<not> in_event_loop this_thread s then (Some assert_failed, s)
      else (let swapped_queue = job_queue s in run_jobs run swapped_queue (s\<lparr>job_queue := []\<rparr>)))"

section \<open>Delayed calls\<close>

text \<open>
  The job \<open>call_later\<close> queues from another thread: times are in nanoseconds, the
  delay in microseconds. \<open>None\<close> runs the hook now, \<open>Some d\<close> arms a one-shot of \<open>d\<close>
  microseconds.
\<close>

definition later_target :: "int \<Rightarrow> int \<Rightarrow> int" where
  "later_target called_at delay = called_at + delay * 1000"

definition later_decision :: "int \<Rightarrow> int \<Rightarrow> int option" where
  "later_decision target_time now =
     (if target_time \<le> now then None else Some (c_div (target_time - now) 1000))"

section \<open>Tickers\<close>

text \<open>A \<open>weak_ptr\<close> has expired when nothing owns its watcher any more.\<close>

definition expired :: "('j, 'z) event_loop_scheme \<Rightarrow> wid \<Rightarrow> bool" where
  "expired s w \<longleftrightarrow> watchers s w = None"

fun erase_expired :: "(wid \<Rightarrow> bool) \<Rightarrow> wid list \<Rightarrow> wid list" where
  "erase_expired ex [] = []"
| "erase_expired ex (w # ws) = (if ex w then erase_expired ex ws else w # erase_expired ex ws)"

definition clear_old_tickers :: "('j, 'z) event_loop_scheme \<Rightarrow> ('j, 'z) event_loop_scheme" where
  "clear_old_tickers s =
     s\<lparr>tickers := (\<lambda>i. map_option (erase_expired (expired s)) (tickers s i))\<rparr>"

text \<open>\<open>fresh\<close> is the address of the new watcher; \<open>tickers[_id]\<close> creates an empty list.\<close>

definition make_handler :: "wid \<Rightarrow> caller_id \<Rightarrow> ('j, 'z) event_loop_scheme \<Rightarrow> ('j, 'z) event_loop_scheme" where
  "make_handler fresh i s =
     (let s1 = clear_old_tickers s;
          s2 = s1\<lparr>watchers := (watchers s1)(fresh \<mapsto> watcher_new)\<rparr>;
          old = (case tickers s2 i of None \<Rightarrow> [] | Some ws \<Rightarrow> ws)
      in s2\<lparr>tickers := (tickers s2)(i \<mapsto> old @ [fresh])\<rparr>)"

definition call_every_from ::
  "wid \<Rightarrow> int \<Rightarrow> int \<Rightarrow> 'j \<Rightarrow> caller_id \<Rightarrow> bool \<Rightarrow> bool \<Rightarrow>
     ('j, 'z) event_loop_scheme \<Rightarrow> ('j, 'z) event_loop_scheme" where
  "call_every_from fresh add_rc interval f i start_immediately fixed_interval s =
     (let s1 = make_handler fresh i s in
      s1\<lparr>watchers := (watchers s1)(fresh \<mapsto>
           call_every_init add_rc interval f start_immediately fixed_interval watcher_new)\<rparr>)"

definition call_every ::
  "wid \<Rightarrow> int \<Rightarrow> int \<Rightarrow> 'j \<Rightarrow> bool \<Rightarrow> bool \<Rightarrow>
     ('j, 'z) event_loop_scheme \<Rightarrow> ('j, 'z) event_loop_scheme" where
  "call_every fresh add_rc interval f start_immediately wait s =
     call_every_from fresh add_rc interval f loop_id start_immediately wait s"

text \<open>The one-shot's lambda owns the handler: its task is the hook followed by the release.\<close>

definition add_oneshot_event ::
  "wid \<Rightarrow> int \<Rightarrow> int \<Rightarrow> 'j \<Rightarrow> ('j, 'z) event_loop_scheme \<Rightarrow> ('j, 'z) event_loop_scheme" where
  "add_oneshot_event fresh add_rc delay hook_and_release s =
     (let s1 = make_handler fresh loop_id s in
      s1\<lparr>watchers := (watchers s1)(fresh \<mapsto>
           init_event add_rc delay hook_and_release True True False watcher_new)\<rparr>)"

text \<open>
  \<open>call_later\<close>: \<open>called_at\<close> is the clock when the caller reads it, \<open>later\<close> the closure
  that holds the target time, \<open>run_later\<close> what that closure does when the clock reads
  \<open>now\<close>.
\<close>

definition call_later :: "tid \<Rightarrow> wid \<Rightarrow> int \<Rightarrow> int \<Rightarrow> int \<Rightarrow> 'j \<Rightarrow> (int \<Rightarrow> 'j) \<Rightarrow>
    ('j, 'z) event_loop_scheme \<Rightarrow> ('j, 'z) event_loop_scheme" where
  "call_later this_thread fresh add_rc called_at delay hook_and_release later s =
     (if in_event_loop this_thread s then add_oneshot_event fresh add_rc delay hook_and_release s
      else call_soon (later (later_target called_at delay)) s)"

definition run_later :: "('j, 'z) job_runner \<Rightarrow> wid \<Rightarrow> int \<Rightarrow> int \<Rightarrow> 'j \<Rightarrow> 'j \<Rightarrow> int \<Rightarrow>
    ('j, 'z) event_loop_scheme \<Rightarrow> exn option \<times> ('j, 'z) event_loop_scheme" where
  "run_later run fresh add_rc now hook hook_and_release target_time s =
     (case later_decision target_time now of
        None \<Rightarrow> run hook s
      | Some us \<Rightarrow> (None, add_oneshot_event fresh add_rc us hook_and_release s))"

definition stop_watcher :: "int \<Rightarrow> 'j ev_watcher \<Rightarrow> 'j ev_watcher" where
  "stop_watcher del_rc w = snd (watcher_stop del_rc (w\<lparr>w_f := None\<rparr>))"

fun stop_all :: "(wid \<Rightarrow> int) \<Rightarrow> wid list \<Rightarrow> ('j, 'z) event_loop_scheme \<Rightarrow> ('j, 'z) event_loop_scheme" where
  "stop_all del_rc [] s = s"
| "stop_all del_rc (w # ws) s =
     (case watchers s w of
        None \<Rightarrow> stop_all del_rc ws s
      | Some tick \<Rightarrow>
          stop_all del_rc ws (s\<lparr>watchers := (watchers s)(w \<mapsto> stop_watcher (del_rc w) tick)\<rparr>))"

definition stop_tickers :: "(wid \<Rightarrow> int) \<Rightarrow> caller_id \<Rightarrow> ('j, 'z) event_loop_scheme \<Rightarrow> ('j, 'z) event_loop_scheme" where
  "stop_tickers del_rc i s =
     (case tickers s i of None \<Rightarrow> s | Some ws \<Rightarrow> stop_all del_rc ws s)"

text \<open>The last owner of a watcher lets go of it.\<close>

definition drop_watcher :: "wid \<Rightarrow> ('j, 'z) event_loop_scheme \<Rightarrow> ('j, 'z) event_loop_scheme" where
  "drop_watcher w s = s\<lparr>watchers := (watchers s)(w := None)\<rparr>"

section \<open>Construction and shutdown\<close>

definition event_loop_new :: "tid \<Rightarrow> 'j event_loop" where
  "event_loop_new t =
     \<lparr>loop_running = True, loop_thread_id = t, loop_thread = True, loop_joinable = True, job_queue = [],
      waker_active = False, tickers = Map.empty, watchers = Map.empty\<rparr>"

datatype stop_kind = loopbreak | loopexit

definition EDEADLK :: int where [const_defs]: "EDEADLK = 35"

text \<open>
  The results: which libevent call is made to end the loop, and whether the thread was
  joined. A thread that joins itself gets \<open>std::system_error\<close>.
\<close>

definition stop_thread :: "tid \<Rightarrow> bool \<Rightarrow> ('j, 'z) event_loop_scheme \<Rightarrow>
    stop_kind option \<times> bool result \<times> ('j, 'z) event_loop_scheme" where
  "stop_thread this_thread immediate s =
     (let how = (if loop_thread s then Some (if immediate then loopbreak else loopexit) else None);
          join = (loop_thread s \<and> loop_joinable s)
      in if \<not> join then (how, Inr False, s)
         else if in_event_loop this_thread s then (how, Inl (system_error EDEADLK), s)
         else (how, Inr True, s\<lparr>loop_joinable := False\<rparr>))"

text \<open>\<open>~event_loop\<close> visits every list of the map, in the order \<open>ids\<close> the map iterates in.\<close>

definition event_loop_destroy :: "tid \<Rightarrow> (wid \<Rightarrow> int) \<Rightarrow> caller_id list \<Rightarrow> ('j, 'z) event_loop_scheme \<Rightarrow>
    exn option \<times> ('j, 'z) event_loop_scheme" where
  "event_loop_destroy this_thread del_rc ids s =
     (case stop_thread this_thread True s of
        (_, Inl x, s') \<Rightarrow> (Some x, s')
      | (_, Inr _, s') \<Rightarrow> (None, fold (stop_tickers del_rc) ids s'))"

section \<open>The abstract queue\<close>

text \<open>
  What clients may rely on: one first-in first-out queue, from which a step takes the
  oldest job and runs it with the rest still queued.
\<close>

fun fifo_step :: "('j, 'z) job_runner \<Rightarrow> ('j, 'z) event_loop_scheme \<Rightarrow>
    exn option \<times> ('j, 'z) event_loop_scheme" where
  "fifo_step run s =
     (case job_queue s of [] \<Rightarrow> (None, s) | j # js \<Rightarrow> run j (s\<lparr>job_queue := js\<rparr>))"

fun fifo_steps :: "('j, 'z) job_runner \<Rightarrow> nat \<Rightarrow> ('j, 'z) event_loop_scheme \<Rightarrow>
    exn option \<times> ('j, 'z) event_loop_scheme" where
  "fifo_steps run 0 s = (None, s)"
| "fifo_steps run (Suc n) s =
     (case fifo_step run s of
        (Some e, s') \<Rightarrow> (Some e, s')
      | (None, s') \<Rightarrow> fifo_steps run n s')"

definition with_prefix :: "'j list \<Rightarrow> ('j, 'z) event_loop_scheme \<Rightarrow> ('j, 'z) event_loop_scheme" where
  "with_prefix q s = s\<lparr>job_queue := q @ job_queue s\<rparr>"

lemma with_prefix_simps [simp]:
  "job_queue (with_prefix q s) = q @ job_queue s"
  "with_prefix [] s = s"
  "with_prefix q (with_prefix r s) = with_prefix (q @ r) s"
  by (simp_all add: with_prefix_def)

lemma with_prefix_call_soon: "call_soon j (with_prefix q s) = with_prefix q (call_soon j s)"
  by (simp add: call_soon_def with_prefix_def)

lemma with_prefix_fold: "fold call_soon js (with_prefix q s) = with_prefix q (fold call_soon js s)"
  by (induction js arbitrary: s) (simp_all add: with_prefix_call_soon)

lemma fold_call_soon:
  "fold call_soon js s = s\<lparr>job_queue := job_queue s @ js, waker_active := waker_active s \<or> js \<noteq> []\<rparr>"
  by (induction js arbitrary: s) (simp_all add: call_soon_def)

text \<open>
  The contract a client's jobs must keep: a job does not look at what is queued
  before the jobs it adds itself, and takes nothing out.
\<close>

locale queued_jobs =
  fixes run :: "('j, 'z) job_runner"
  assumes prefix_blind: "run j (with_prefix q s) = apsnd (with_prefix q) (run j s)"
begin

lemma run_prefix_fst: "fst (run j (with_prefix q s)) = fst (run j s)"
  by (simp add: prefix_blind)

lemma run_prefix_snd: "snd (run j (with_prefix q s)) = with_prefix q (snd (run j s))"
  by (simp add: prefix_blind)

lemma run_appends: "\<exists>new. job_queue (snd (run j s)) = job_queue s @ new"
proof -
  define s0 where "s0 = s\<lparr>job_queue := []\<rparr>"
  have s: "s = with_prefix (job_queue s) s0" by (simp add: s0_def with_prefix_def)
  have "job_queue (snd (run j s)) = job_queue s @ job_queue (snd (run j s0))"
    by (subst s, subst run_prefix_snd) simp
  then show ?thesis by blast
qed

lemma run_jobs_appends: "\<exists>new. job_queue (snd (run_jobs run js s)) = job_queue s @ new"
proof (induction js arbitrary: s)
  case (Cons j js)
  obtain e s' where r: "run j s = (e, s')" by fastforce
  with run_appends [of j s] obtain n1 where n1: "job_queue s' = job_queue s @ n1" by auto
  obtain n2 where "job_queue (snd (run_jobs run js s')) = job_queue s' @ n2"
    using Cons.IH by blast
  then show ?case using r n1 by (cases e) auto
qed simp

text \<open>Running a batch beside the queue is running it from the front of the queue.\<close>

lemma run_jobs_fifo:
  assumes "fst (run_jobs run js s) = None"
  shows "fifo_steps run (length js) (with_prefix js s) = run_jobs run js s"
  using assms
proof (induction js arbitrary: s)
  case Nil
  then show ?case by simp
next
  case (Cons j js)
  obtain e s' where r: "run j s = (e, s')" by fastforce
  with Cons.prems have e: "e = None" by (cases e) auto
  have "fifo_step run (with_prefix (j # js) s) = run j (with_prefix js s)"
    by (simp add: with_prefix_def)
  also have "\<dots> = (None, with_prefix js s')" by (simp add: prefix_blind r e)
  finally show ?case using Cons.IH [of s'] Cons.prems r e by simp
qed

theorem process_is_fifo:
  assumes "in_event_loop t s" and "fst (process_job_queue run t s) = None"
  shows "process_job_queue run t s = fifo_steps run (length (job_queue s)) s"
proof -
  define s0 where "s0 = s\<lparr>job_queue := []\<rparr>"
  have s: "with_prefix (job_queue s) s0 = s" by (simp add: s0_def with_prefix_def)
  have p: "process_job_queue run t s = run_jobs run (job_queue s) s0"
    using assms(1) by (simp add: process_job_queue_def s0_def)
  then show ?thesis using run_jobs_fifo [of "job_queue s" s0] assms(2) s by simp
qed

end

section \<open>Lemmas on tickers\<close>

lemma erase_expired_eq: "erase_expired ex ws = filter (\<lambda>w. \<not> ex w) ws"
  by (induction ws) auto

lemma stop_watcher_f [simp]: "w_f (stop_watcher rc w) = None"
  by (simp add: stop_watcher_def frame_simps)

lemma stop_watcher_running: "is_running (stop_watcher rc w) = (is_running w \<and> rc \<noteq> 0)"
  by (simp add: stop_watcher_def watcher_stop_running)

lemma stop_all_other: "w \<notin> set ws \<Longrightarrow> watchers (stop_all rc ws s) w = watchers s w"
  by (induction ws arbitrary: s) (auto split: option.split)

lemma stop_all_none [simp]: "watchers (stop_all rc ws s) w = None \<longleftrightarrow> watchers s w = None"
  by (induction ws arbitrary: s) (auto split: option.split)

lemma stop_all_cleared:
  "w \<in> set ws \<or> (\<forall>x. watchers s w = Some x \<longrightarrow> w_f x = None) \<Longrightarrow>
     watchers (stop_all rc ws s) w = Some x \<Longrightarrow> w_f x = None"
proof (induction ws arbitrary: s)
  case (Cons v vs)
  show ?case
  proof (cases "watchers s v")
    case None
    then show ?thesis
      using Cons.IH [of s] Cons.prems stop_all_none [of rc vs s w] by (cases "w = v") auto
  next
    case (Some t)
    then show ?thesis
      using Cons.IH [of "s\<lparr>watchers := (watchers s)(v \<mapsto> stop_watcher (rc v) t)\<rparr>"] Cons.prems
      by (cases "w = v") auto
  qed
qed auto

lemma stop_all_frame [frame_simps]:
  "tickers (stop_all rc ws s) = tickers s" "job_queue (stop_all rc ws s) = job_queue s"
  "loop_thread_id (stop_all rc ws s) = loop_thread_id s"
  by (induction ws arbitrary: s) (auto split: option.split)

lemma stop_all_distinct:
  "distinct ws \<Longrightarrow> watchers (stop_all rc ws s) =
     (\<lambda>w. if w \<in> set ws then map_option (stop_watcher (rc w)) (watchers s w) else watchers s w)"
proof (induction ws arbitrary: s)
  case (Cons v vs)
  show ?case
  proof (cases "watchers s v")
    case None
    then show ?thesis using Cons by (auto simp: fun_eq_iff)
  next
    case (Some t)
    then show ?thesis
      using Cons.IH [of "s\<lparr>watchers := (watchers s)(v \<mapsto> stop_watcher (rc v) t)\<rparr>"] Cons.prems
      by (auto simp: fun_eq_iff)
  qed
qed (simp add: fun_eq_iff)

text \<open>Every watcher is listed once, under one caller.\<close>

definition wf_tickers :: "('j, 'z) event_loop_scheme \<Rightarrow> bool" where
  "wf_tickers s \<longleftrightarrow>
     (\<forall>i ws. tickers s i = Some ws \<longrightarrow> distinct ws) \<and>
     (\<forall>i j ws vs. i \<noteq> j \<longrightarrow> tickers s i = Some ws \<longrightarrow> tickers s j = Some vs \<longrightarrow> set ws \<inter> set vs = {})"

definition listed :: "('j, 'z) event_loop_scheme \<Rightarrow> wid \<Rightarrow> bool" where
  "listed s w \<longleftrightarrow> (\<exists>i ws. tickers s i = Some ws \<and> w \<in> set ws)"

lemma make_handler_tickers:
  "tickers (make_handler fresh i s) =
     (\<lambda>k. if k = i then Some (filter (\<lambda>w. \<not> expired s w) (case tickers s i of None \<Rightarrow> [] | Some ws \<Rightarrow> ws) @ [fresh])
          else map_option (filter (\<lambda>w. \<not> expired s w)) (tickers s k))"
proof -
  have eq: "erase_expired (expired s) = filter (\<lambda>w. \<not> expired s w)"
    by (rule ext) (rule erase_expired_eq)
  show ?thesis
    unfolding make_handler_def clear_old_tickers_def Let_def eq
    by (auto simp: fun_eq_iff split: option.split)
qed

lemma make_handler_watchers:
  "watchers (make_handler fresh i s) = (watchers s)(fresh \<mapsto> watcher_new)"
  by (simp add: make_handler_def clear_old_tickers_def Let_def)

lemma wf_make_handler [wf_intros]:
  "wf_tickers s \<Longrightarrow> \<not> listed s fresh \<Longrightarrow> wf_tickers (make_handler fresh i s)"
  unfolding wf_tickers_def listed_def make_handler_tickers
  by (fastforce split: option.splits if_splits)

lemma later_decision_exact:
  assumes "now < target"
  shows "\<exists>us. later_decision target now = Some us \<and> 0 \<le> us \<and>
              now + us * 1000 \<le> target \<and> target < now + us * 1000 + 1000"
proof -
  define d where "d = target - now"
  have d: "0 \<le> d" using assms by (simp add: d_def)
  have "d div 1000 * 1000 + d mod 1000 = d" by simp
  moreover have "0 \<le> d mod 1000" "d mod 1000 < 1000" by simp_all
  ultimately have "d div 1000 * 1000 \<le> d" "d < d div 1000 * 1000 + 1000" by linarith+
  moreover have "later_decision target now = Some (d div 1000)"
    using assms d by (simp add: later_decision_def d_def)
  moreover have "0 \<le> d div 1000" using d by simp
  ultimately show ?thesis by (auto simp: d_def)
qed

lemma oneshot_watcher:
  "\<exists>w. watchers (add_oneshot_event fresh add_rc us f s) fresh = Some w \<and> w_f w = Some (plain f) \<and>
       w_calls w = [Ev_new 0, Ev_add (loop_time_to_timeval us)]"
  by (simp add: add_oneshot_event_def init_event_def watcher_start_def watcher_new_def log_call_def Let_def)

section \<open>Properties\<close>

text \<open>
  A hook queued with \<open>call_later\<close> from another thread runs at once, in its job, when
  its time has come. Otherwise a one-shot is started for a non-negative number of whole
  microseconds that is never beyond the target time and less than one microsecond short
  of it: the hook can fire early, by less than a microsecond, and is not deferred past
  its time.
\<close>

theorem call_later_delay:
  assumes "\<not> in_event_loop t s" and "target = later_target called_at delay"
  shows "job_queue (call_later t fresh add_rc called_at delay hook_rel later s) = job_queue s @ [later target] \<and>
         (if target \<le> now
          then run_later run fresh add_rc now hook hook_rel target s' = run hook s'
          else \<exists>us w. run_later run fresh add_rc now hook hook_rel target s' =
                        (None, add_oneshot_event fresh add_rc us hook_rel s') \<and>
                 watchers (add_oneshot_event fresh add_rc us hook_rel s') fresh = Some w \<and>
                 w_f w = Some (plain hook_rel) \<and> w_calls w = [Ev_new 0, Ev_add (loop_time_to_timeval us)] \<and>
                 0 \<le> us \<and> now + us * 1000 \<le> target \<and> target < now + us * 1000 + 1000)"
proof -
  have q: "job_queue (call_later t fresh add_rc called_at delay hook_rel later s) = job_queue s @ [later target]"
    using assms by (simp add: call_later_def call_soon_def)
  show ?thesis
  proof (cases "target \<le> now")
    case True
    then show ?thesis using q by (simp add: run_later_def later_decision_def)
  next
    case False
    then obtain us where us: "later_decision target now = Some us" "0 \<le> us"
        "now + us * 1000 \<le> target" "target < now + us * 1000 + 1000"
      using later_decision_exact [of now target] by auto
    obtain w where "watchers (add_oneshot_event fresh add_rc us hook_rel s') fresh = Some w"
        "w_f w = Some (plain hook_rel)" "w_calls w = [Ev_new 0, Ev_add (loop_time_to_timeval us)]"
      using oneshot_watcher [of fresh add_rc us hook_rel s'] by auto
    then show ?thesis using q us False by (auto simp: run_later_def)
  qed
qed

theorem call_later_delay_witness:
  "job_queue (call_later 5 7 0 100 5 () (\<lambda>_. ()) (event_loop_new 2)) = [()]"
proof -
  have "\<not> in_event_loop 5 (event_loop_new 2 :: unit event_loop)"
    by (simp add: in_event_loop_def event_loop_new_def)
  then show ?thesis
    using call_later_delay [OF _ refl, THEN conjunct1,
        of 5 "event_loop_new 2 :: unit event_loop" 7 0 100 5 "()" "\<lambda>_. ()"]
    by (simp add: event_loop_new_def)
qed

text \<open>
  Registering a ticker drops exactly the expired entries, of every caller, keeps
  the others in order, appends the new watcher to its caller's list and touches no
  other watcher; no watcher is ever listed twice or under two callers.
\<close>

theorem make_handler_registers:
  assumes "wf_tickers s" and "\<not> listed s fresh"
  shows "tickers (make_handler fresh i s) i =
           Some (filter (\<lambda>w. \<not> expired s w) (case tickers s i of None \<Rightarrow> [] | Some ws \<Rightarrow> ws) @ [fresh]) \<and>
         (\<forall>k. k \<noteq> i \<longrightarrow> tickers (make_handler fresh i s) k =
           map_option (filter (\<lambda>w. \<not> expired s w)) (tickers s k)) \<and>
         watchers (make_handler fresh i s) = (watchers s)(fresh \<mapsto> watcher_new) \<and>
         wf_tickers (make_handler fresh i s)"
  using wf_make_handler [OF assms] by (simp add: make_handler_tickers make_handler_watchers)

theorem make_handler_registers_witness:
  "let s = make_handler 7 3 (event_loop_new 1 :: unit event_loop) in
   tickers (make_handler 8 3 s) 3 =
     Some (filter (\<lambda>w. \<not> expired s w) (case tickers s 3 of None \<Rightarrow> [] | Some ws \<Rightarrow> ws) @ [8])"
proof -
  let ?s0 = "event_loop_new 1 :: unit event_loop"
  have "wf_tickers ?s0" "\<not> listed ?s0 7"
    by (simp_all add: wf_tickers_def listed_def event_loop_new_def)
  then have "wf_tickers (make_handler 7 3 ?s0)" by (rule wf_make_handler)
  moreover have "\<not> listed (make_handler 7 3 ?s0) 8"
    by (simp add: listed_def make_handler_tickers) (simp add: event_loop_new_def)
  ultimately show ?thesis
    using make_handler_registers [of "make_handler 7 3 ?s0" 8 3] by (simp add: Let_def)
qed

text \<open>
  \<open>stop_tickers\<close> works on one caller: each watcher in that caller's list that is
  still owned loses its function and is stopped, unless libevent refuses; every other
  watcher, every list and the job queue stay as they were.
\<close>

theorem stop_tickers_exact:
  assumes "wf_tickers s" and "tickers s i = Some ws"
  shows "watchers (stop_tickers rc i s) =
           (\<lambda>w. if w \<in> set ws then map_option (stop_watcher (rc w)) (watchers s w) else watchers s w) \<and>
         tickers (stop_tickers rc i s) = tickers s \<and>
         job_queue (stop_tickers rc i s) = job_queue s \<and>
         wf_tickers (stop_tickers rc i s) \<and>
         w_f (stop_watcher (rc w) t) = None \<and>
         is_running (stop_watcher (rc w) t) = (is_running t \<and> rc w \<noteq> 0)"
proof -
  have "distinct ws" using assms by (simp add: wf_tickers_def)
  then show ?thesis
    using assms
    by (simp add: stop_tickers_def stop_all_distinct stop_watcher_running frame_simps)
      (simp add: wf_tickers_def frame_simps)
qed

theorem stop_tickers_exact_witness:
  "let s = call_every_from 7 0 500 () 3 True False (event_loop_new 2) in
   watchers (stop_tickers (\<lambda>_. 0) 3 s) =
     (\<lambda>w. if w \<in> set [7] then map_option (stop_watcher 0) (watchers s w) else watchers s w)"
proof -
  let ?s = "call_every_from 7 0 500 () 3 True False (event_loop_new 2)"
  have t: "tickers ?s = [3 \<mapsto> [7]]"
    by (simp add: call_every_from_def make_handler_tickers Let_def fun_eq_iff event_loop_new_def)
  then have "wf_tickers ?s" by (simp add: wf_tickers_def)
  then show ?thesis
    using stop_tickers_exact [of ?s 3 "[7]" "\<lambda>_. 0", THEN conjunct1] t
    by (simp only: Let_def) simp
qed

end
