(* ===== verification/Stream.thy ===== *)
theory Stream
  imports Parser Request Loop
begin

text \<open>
  Streams (\<open>include/wshttp/stream.hpp\<close>, \<open>src/stream.cpp\<close>): the reply to one
  request, from the path that was asked for to the data that nghttp2 reads from a file
  descriptor, with the descriptors the process holds open on the way. The results of
  the system calls and of nghttp2 are the parameter \<open>stream_lib\<close>.
\<close>

section \<open>Constants of the libraries\<close>

definition NGHTTP2_ERR_WOULDBLOCK :: int where [const_defs]: "NGHTTP2_ERR_WOULDBLOCK = - 504"
definition NGHTTP2_ERR_TEMPORAL_CALLBACK_FAILURE :: int where
  [const_defs]: "NGHTTP2_ERR_TEMPORAL_CALLBACK_FAILURE = - 521"
definition NGHTTP2_ERR_FATAL :: int where [const_defs]: "NGHTTP2_ERR_FATAL = - 900"
definition NGHTTP2_ERR_CALLBACK_FAILURE :: int where [const_defs]: "NGHTTP2_ERR_CALLBACK_FAILURE = - 902"
definition NGHTTP2_DATA_FLAG_EOF :: u32 where [const_defs]: "NGHTTP2_DATA_FLAG_EOF = 1"
definition NGHTTP2_INTERNAL_ERROR :: u32 where [const_defs]: "NGHTTP2_INTERNAL_ERROR = 2"
definition EINTR :: int where [const_defs]: "EINTR = 4"

section \<open>The surroundings of a stream\<close>

text \<open>What the program asks of nghttp2, in the order it asks.\<close>

datatype lib_call =
    Submit_response int headers int     \<comment> \<open>stream, headers, descriptor of the data source\<close>
  | Submit_rst_stream int u32
  | Submit_settings "settings_entry list"
  | Terminate_session
  | Session_mem_recv "byte list"
  | Session_send

record ('j, 'u) io_env = "'j event_loop" +
  url_state :: "'u url_parser"          \<comment> \<open>the global \<open>parser\<close>\<close>
  open_fds :: "int set"
  lib_calls :: "lib_call list"

record stream_lib =
  sys_open :: "string \<Rightarrow> int"
  sys_pipe :: "(int \<times> int) option"
  sys_write :: "byte list \<Rightarrow> int"
  submit_response2 :: "headers \<Rightarrow> int"
  submit_rst_stream :: int

datatype IO = INBOUND | OUTBOUND

record stream =
  stream_dir :: IO
  stream_id :: int
  stream_fd :: int
  stream_pipes :: "int \<times> int"
  stream_req :: uri

type_synonym ('j, 'u, 'z) stream_op =
  "stream \<Rightarrow> ('j, 'u, 'z) io_env_scheme \<Rightarrow> int \<times> stream \<times> ('j, 'u, 'z) io_env_scheme"

definition fd_open :: "int \<Rightarrow> ('j, 'u, 'z) io_env_scheme \<Rightarrow> ('j, 'u, 'z) io_env_scheme" where
  "fd_open fd e = e\<lparr>open_fds := insert fd (open_fds e)\<rparr>"

definition fd_close :: "int \<Rightarrow> ('j, 'u, 'z) io_env_scheme \<Rightarrow> ('j, 'u, 'z) io_env_scheme" where
  "fd_close fd e = e\<lparr>open_fds := open_fds e - {fd}\<rparr>"

definition note_call :: "lib_call \<Rightarrow> ('j, 'u, 'z) io_env_scheme \<Rightarrow> ('j, 'u, 'z) io_env_scheme" where
  "note_call c e = e\<lparr>lib_calls := lib_calls e @ [c]\<rparr>"

section \<open>Reading the data source\<close>

text \<open>
  \<open>rd k\<close> is what the \<open>k\<close>-th \<open>read\<close> returns and the \<open>errno\<close> it leaves. The loop
  of \<open>file_read_callback\<close> may not end, when every read is interrupted; its value is
  then None. The result has the number of reads made.
\<close>

partial_function (option) read_loop ::
  "(nat \<Rightarrow> int \<times> int) \<Rightarrow> nat \<Rightarrow> int \<Rightarrow> int \<Rightarrow> (int \<times> nat) option" where
  "read_loop rd k ret errno =
     (if ret = - 1 \<and> errno = EINTR
      then read_loop rd (Suc k) (fst (rd k)) (snd (rd k))
      else Some (ret, k))"

definition file_read_callback ::
  "(nat \<Rightarrow> int \<times> int) \<Rightarrow> int \<Rightarrow> u32 \<Rightarrow> (int \<times> u32 \<times> nat) option" where
  "file_read_callback rd errno data_flags =
     (case read_loop rd 0 (- 1) errno of
        None \<Rightarrow> None
      | Some (ret, n) \<Rightarrow>
          Some (if ret = - 1 then (NGHTTP2_ERR_TEMPORAL_CALLBACK_FAILURE, data_flags, n)
                else if ret = 0
                then (uint NGHTTP2_DATA_FLAG_EOF, data_flags OR NGHTTP2_DATA_FLAG_EOF, n)
                else (ret, data_flags, n)))"

section \<open>\<open>stream\<close>\<close>

definition stream_new :: "IO \<Rightarrow> int \<Rightarrow> stream" where
  "stream_new d i =
     \<lparr>stream_dir = d, stream_id = i, stream_fd = - 1, stream_pipes = (0, 0), stream_req = uri_default\<rparr>"

definition recv_data :: "byte list \<Rightarrow> ('j, 'u, 'z) stream_op" where
  "recv_data data s e = (0, s, e)"

text \<open>\<open>uri::parse\<close> on a span makes a string of its bytes; the parser is the global one.\<close>

definition recv_path_header :: "'u ada_api \<Rightarrow> byte list \<Rightarrow> stream \<Rightarrow> ('j, 'u, 'z) io_env_scheme \<Rightarrow>
    int result \<times> stream \<times> ('j, 'u, 'z) io_env_scheme" where
  "recv_path_header ada path s e =
     (case uri_parse ada (map char_of_byte path) (url_state e) of
        (Inl x, p) \<Rightarrow> (Inl x, s, e\<lparr>url_state := p\<rparr>)
      | (Inr u, p) \<Rightarrow>
          (Inr (if uri_bool u then 0 else NGHTTP2_ERR_CALLBACK_FAILURE),
           s\<lparr>stream_req := u\<rparr>, e\<lparr>url_state := p\<rparr>))"

definition recv_header :: "headers \<Rightarrow> ('j, 'u, 'z) stream_op" where
  "recv_header hdr s e = (0, s, e)"

definition send_response :: "stream_lib \<Rightarrow> headers \<Rightarrow> ('j, 'u, 'z) stream_op" where
  "send_response lib hs s e =
     (let e1 = note_call (Submit_response (stream_id s) hs (stream_fd s)) e in
      if submit_response2 lib hs \<noteq> 0 then (NGHTTP2_ERR_FATAL, s, e1) else (0, s, e1))"

text \<open>
  \<open>errors::HTML\<close> is an array of two \<open>const char*\<close>; \<open>sizeof\<close> and the address given
  to \<open>write\<close> are those of the array: what is written is the first 15 bytes of the two
  pointers \<open>p0\<close>, \<open>p1\<close>.
\<close>

definition HTML_object :: "bool \<Rightarrow> u64 \<Rightarrow> u64 \<Rightarrow> byte list" where
  "HTML_object be p0 p1 = mem_bytes be 8 p0 @ mem_bytes be 8 p1"

definition errlen :: nat where "errlen = 16 - 1"

definition error_body :: "bool \<Rightarrow> u64 \<times> u64 \<Rightarrow> byte list" where
  "error_body be html = take errlen (HTML_object be (fst html) (snd html))"

definition send_error :: "bool \<Rightarrow> u64 \<times> u64 \<Rightarrow> stream_lib \<Rightarrow> ('j, 'u, 'z) stream_op" where
  "send_error be html lib s e =
     (case sys_pipe lib of
        None \<Rightarrow>
          (let e1 = note_call (Submit_rst_stream (stream_id s) NGHTTP2_INTERNAL_ERROR) e in
           if submit_rst_stream lib \<noteq> 0 then (NGHTTP2_ERR_FATAL, s, e1) else (0, s, e1))
      | Some (p0, p1) \<Rightarrow>
          (let s1 = s\<lparr>stream_pipes := (p0, p1)\<rparr>;
               e1 = fd_open p1 (fd_open p0 e);
               len = sys_write lib (error_body be html);
               e2 = fd_close p1 e1
           in if len \<noteq> int errlen then (NGHTTP2_ERR_FATAL, s1, fd_close p0 e2)
              else (let s2 = s1\<lparr>stream_fd := p0\<rparr>;
                        (rv, s3, e3) = send_response lib (make_status code_404) s2 e2
                    in (rv, s3, if rv \<noteq> 0 then fd_close p0 e3 else e3))))"

text \<open>\<open>open(path.data())\<close> reads up to the first NUL; the view ends where its string does.\<close>

definition c_str :: "string \<Rightarrow> string" where
  "c_str s = takeWhile (\<lambda>c. c \<noteq> CHR 0x00) s"

definition recv_frame :: "bool \<Rightarrow> u64 \<times> u64 \<Rightarrow> stream_lib \<Rightarrow> ('j, 'u, 'z) stream_op" where
  "recv_frame be html lib s e =
     (if \<not> uri_bool (stream_req s) then (NGHTTP2_ERR_CALLBACK_FAILURE, s, e)
      else
        (let path = dropWhile (\<lambda>c. c = CHR ''/'') (uri_path (stream_req s));
             rv = sys_open lib (c_str path)
         in if rv = - 1 then send_error be html lib s e
            else (let e1 = fd_open rv e;
                      s1 = s\<lparr>stream_fd := rv\<rparr>;
                      (rv', s2, e2) = send_response lib (make_status code_200) s1 e1
                  in (rv', s2, if rv' \<noteq> 0 then fd_close (stream_fd s2) e2 else e2))))"

text \<open>\<open>deleters::stream_d\<close>; the stream itself is not deleted.\<close>

definition stream_d :: "stream \<Rightarrow> ('j, 'u, 'z) io_env_scheme \<Rightarrow> ('j, 'u, 'z) io_env_scheme" where
  "stream_d s e = (if stream_fd s = - 1 then fd_close (stream_fd s) e else e)"

section \<open>Specification of the reply\<close>

text \<open>
  The outcome of a complete request, from the answers of the system: a reply whose
  data comes from a descriptor, a reset, or nothing.
\<close>

datatype outcome =
    Replied CODE int
  | Reset
  | Failed

definition reply_spec :: "bool \<Rightarrow> u64 \<times> u64 \<Rightarrow> stream_lib \<Rightarrow> string \<Rightarrow> outcome" where
  "reply_spec be html lib file =
     (if sys_open lib file \<noteq> - 1
      then (if submit_response2 lib (make_status code_200) = 0
            then Replied code_200 (sys_open lib file) else Failed)
      else case sys_pipe lib of
        None \<Rightarrow> (if submit_rst_stream lib = 0 then Reset else Failed)
      | Some (p0, p1) \<Rightarrow>
          (if sys_write lib (error_body be html) = int errlen \<and>
              submit_response2 lib (make_status code_404) = 0
           then Replied code_404 p0 else Failed))"

definition fresh_fds :: "stream_lib \<Rightarrow> int set \<Rightarrow> bool" where
  "fresh_fds lib F \<longleftrightarrow>
     (\<forall>f. sys_open lib f = - 1 \<or> sys_open lib f \<notin> F) \<and>
     (case sys_pipe lib of None \<Rightarrow> True | Some (p0, p1) \<Rightarrow> p0 \<notin> F \<and> p1 \<notin> F \<and> p0 \<noteq> p1)"

definition requested_file :: "stream \<Rightarrow> string" where
  "requested_file s = c_str (dropWhile (\<lambda>c. c = CHR ''/'') (uri_path (stream_req s)))"

section \<open>Lemmas\<close>

lemma env_ops_simps [simp]:
  "open_fds (fd_open fd e) = insert fd (open_fds e)"
  "open_fds (fd_close fd e) = open_fds e - {fd}"
  "open_fds (note_call c e) = open_fds e"
  "lib_calls (fd_open fd e) = lib_calls e"
  "lib_calls (fd_close fd e) = lib_calls e"
  "lib_calls (note_call c e) = lib_calls e @ [c]"
  "url_state (fd_open fd e) = url_state e"
  "url_state (fd_close fd e) = url_state e"
  "url_state (note_call c e) = url_state e"
  by (simp_all add: fd_open_def fd_close_def note_call_def)

lemma env_ops_loop [frame_simps]:
  "job_queue (fd_open fd e) = job_queue e" "job_queue (fd_close fd e) = job_queue e"
  "job_queue (note_call c e) = job_queue e"
  "loop_thread_id (fd_open fd e) = loop_thread_id e" "loop_thread_id (fd_close fd e) = loop_thread_id e"
  "loop_thread_id (note_call c e) = loop_thread_id e"
  by (simp_all add: fd_open_def fd_close_def note_call_def)

lemma send_response_eq:
  "send_response lib hs s e =
     (if submit_response2 lib hs = 0 then 0 else NGHTTP2_ERR_FATAL, s,
      note_call (Submit_response (stream_id s) hs (stream_fd s)) e)"
  by (simp add: send_response_def Let_def)

lemma fatal_nonzero [simp]:
  "NGHTTP2_ERR_FATAL \<noteq> 0" "NGHTTP2_ERR_CALLBACK_FAILURE \<noteq> 0"
  "NGHTTP2_ERR_TEMPORAL_CALLBACK_FAILURE \<noteq> 0" "NGHTTP2_ERR_WOULDBLOCK \<noteq> 0"
  by (simp_all add: const_defs)

lemma recv_frame_eq:
  "recv_frame be html lib s e =
     (let file = requested_file s in
      if sys_open lib file \<noteq> - 1
      then (let s1 = s\<lparr>stream_fd := sys_open lib file\<rparr>;
                ok = (submit_response2 lib (make_status code_200) = 0);
                e1 = note_call (Submit_response (stream_id s) (make_status code_200) (sys_open lib file))
                       (fd_open (sys_open lib file) e)
            in (if ok then 0 else NGHTTP2_ERR_FATAL, s1,
                if ok then e1 else fd_close (sys_open lib file) e1))
      else send_error be html lib s e)"
  by (simp add: recv_frame_def requested_file_def send_response_eq Let_def)

lemma send_error_eq:
  "send_error be html lib s e =
     (case sys_pipe lib of
        None \<Rightarrow> (if submit_rst_stream lib = 0 then 0 else NGHTTP2_ERR_FATAL, s,
                 note_call (Submit_rst_stream (stream_id s) NGHTTP2_INTERNAL_ERROR) e)
      | Some (p0, p1) \<Rightarrow>
          (let s1 = s\<lparr>stream_pipes := (p0, p1)\<rparr>;
               e2 = fd_close p1 (fd_open p1 (fd_open p0 e))
           in if sys_write lib (error_body be html) \<noteq> int errlen
              then (NGHTTP2_ERR_FATAL, s1, fd_close p0 e2)
              else (let ok = (submit_response2 lib (make_status code_404) = 0);
                        e3 = note_call (Submit_response (stream_id s) (make_status code_404) p0) e2
                    in (if ok then 0 else NGHTTP2_ERR_FATAL, s1\<lparr>stream_fd := p0\<rparr>,
                        if ok then e3 else fd_close p0 e3))))"
  by (simp add: send_error_def send_response_eq Let_def split: option.split)

lemma stream_d_fds: "- 1 \<notin> open_fds e \<Longrightarrow> open_fds (stream_d s e) = open_fds e"
  by (simp add: stream_d_def)

lemma read_loop_done: "ret \<noteq> - 1 \<or> errno \<noteq> EINTR \<Longrightarrow> read_loop rd k ret errno = Some (ret, k)"
  by (subst read_loop.simps) auto

lemma read_loop_interrupted:
  "read_loop rd k (- 1) EINTR = read_loop rd (Suc k) (fst (rd k)) (snd (rd k))"
  by (subst read_loop.simps) simp

lemma read_loop_after:
  assumes "\<And>i. i < n \<Longrightarrow> rd (k + i) = (- 1, EINTR)" and "rd (k + n) = (r, x)" and "r \<noteq> - 1 \<or> x \<noteq> EINTR"
  shows "read_loop rd k (- 1) EINTR = Some (r, Suc (k + n))"
  using assms
proof (induction n arbitrary: k)
  case 0
  then show ?case by (simp add: read_loop_interrupted read_loop_done)
next
  case (Suc n)
  have "rd k = (- 1, EINTR)" using Suc.prems(1) [of 0] by simp
  moreover have "read_loop rd (Suc k) (- 1) EINTR = Some (r, Suc (Suc k + n))"
    using Suc.prems(2,3) by (intro Suc.IH) (auto simp: Suc.prems(1) [of "Suc _", simplified])
  ultimately show ?case by (subst read_loop_interrupted) simp
qed

section \<open>Properties\<close>

text \<open>
  C34. \<open>file_read_callback\<close> reads nothing unless \<open>errno\<close> happens to be \<open>EINTR\<close>
  when it is called: it then reports a failure without a single \<open>read\<close>. With a stale
  \<open>EINTR\<close> it retries exactly the interrupted reads and passes on the first other
  outcome: a failure, a number of bytes, or, at the end of the file, the value 1 of
  the EOF flag as if one byte had been read.
\<close>

theorem file_read_callback_result:
  assumes "\<And>i. i < n \<Longrightarrow> rd i = (- 1, EINTR)" and "rd n = (r, x)" and "r \<noteq> - 1 \<or> x \<noteq> EINTR"
  shows "file_read_callback rd errno flags =
     Some (if errno \<noteq> EINTR then (NGHTTP2_ERR_TEMPORAL_CALLBACK_FAILURE, flags, 0)
           else if r = - 1 then (NGHTTP2_ERR_TEMPORAL_CALLBACK_FAILURE, flags, Suc n)
           else if r = 0 then (1, flags OR NGHTTP2_DATA_FLAG_EOF, Suc n)
           else (r, flags, Suc n))"
proof (cases "errno = EINTR")
  case True
  have "read_loop rd 0 (- 1) EINTR = Some (r, Suc (0 + n))"
    using assms by (intro read_loop_after) simp_all
  then show ?thesis using True by (simp add: file_read_callback_def NGHTTP2_DATA_FLAG_EOF_def)
next
  case False
  then show ?thesis by (simp add: file_read_callback_def read_loop_done)
qed

theorem file_read_callback_result_witness:
  "file_read_callback (\<lambda>k. if k < 2 then (- 1, EINTR) else (512, 0)) 0 0 =
     Some (NGHTTP2_ERR_TEMPORAL_CALLBACK_FAILURE, 0, 0) \<and>
   file_read_callback (\<lambda>k. if k < 2 then (- 1, EINTR) else (512, 0)) EINTR 0 = Some (512, 0, 3)"
proof -
  let ?rd = "\<lambda>k::nat. if k < 2 then (- 1, EINTR) else (512::int, 0::int)"
  have r: "file_read_callback ?rd e 0 =
     Some (if e \<noteq> EINTR then (NGHTTP2_ERR_TEMPORAL_CALLBACK_FAILURE, 0, 0) else (512, 0, Suc 2))" for e
    using file_read_callback_result [of 2 ?rd 512 0 e 0] by simp
  show ?thesis using r [of 0] r [of EINTR] by (simp add: EINTR_def)
qed

text \<open>The loop is the search for the first read that was not interrupted.\<close>

lemma read_loop_diverges:
  assumes "read_loop rd k ret errno = Some y"
  shows "(ret = - 1 \<and> errno = EINTR) \<longrightarrow> (\<exists>i. rd i \<noteq> (- 1, EINTR))"
proof (induction rule: read_loop.raw_induct [OF _ assms])
  case (1 loop rd k ret errno y)
  show ?case
  proof (intro impI)
    assume stuck: "ret = - 1 \<and> errno = EINTR"
    have "loop rd (Suc k) (fst (rd k)) (snd (rd k)) = Some y" using 1(2) stuck by simp
    from 1(1) [OF this] show "\<exists>i. rd i \<noteq> (- 1, EINTR)"
      by (cases "rd k = (- 1, EINTR)") auto
  qed
qed

lemma first_uninterrupted:
  assumes "(rd k :: int \<times> int) \<noteq> (- 1, EINTR)"
  shows "\<exists>n. n \<le> (k::nat) \<and> (\<forall>i < n. rd i = (- 1, EINTR)) \<and> rd n \<noteq> (- 1, EINTR)"
proof -
  let ?n = "LEAST i. rd i \<noteq> (- 1, EINTR)"
  have "?n \<le> k" using assms by (rule Least_le)
  moreover have "\<forall>i < ?n. rd i = (- 1, EINTR)" using not_less_Least by blast
  moreover have "rd ?n \<noteq> (- 1, EINTR)" using assms by (rule LeastI)
  ultimately show ?thesis by blast
qed

text \<open>
  C35. When \<open>file_read_callback\<close> returns: exactly when it does not find a stale \<open>EINTR\<close>
  or some \<open>read\<close> is not interrupted, and then within one \<open>read\<close> more than the position
  of any such \<open>read\<close>. Only a \<open>read\<close> that is interrupted for ever keeps it in its loop.
\<close>

theorem file_read_callback_returns:
  "(\<exists>y. file_read_callback rd errno flags = Some y) =
     (errno \<noteq> EINTR \<or> (\<exists>k. rd k \<noteq> (- 1, EINTR))) \<and>
   (\<forall>k. rd k \<noteq> (- 1, EINTR) \<longrightarrow>
      (\<exists>ret fl n. file_read_callback rd errno flags = Some (ret, fl, n) \<and> n \<le> Suc k))"
proof (cases "errno = EINTR")
  case False
  then have "file_read_callback rd errno flags =
      Some (NGHTTP2_ERR_TEMPORAL_CALLBACK_FAILURE, flags, 0)"
    by (simp add: file_read_callback_def read_loop_done)
  then show ?thesis using False by auto
next
  case True
  have loops: "file_read_callback rd errno flags = None" if "\<And>i. rd i = (- 1, EINTR)"
  proof (cases "read_loop rd 0 (- 1) EINTR")
    case None
    then show ?thesis using True by (simp add: file_read_callback_def)
  next
    case (Some y)
    then show ?thesis using read_loop_diverges [OF Some] that by simp
  qed
  have ends: "\<exists>ret fl n. file_read_callback rd errno flags = Some (ret, fl, n) \<and> n \<le> Suc k"
    if late: "rd k \<noteq> (- 1, EINTR)" for k
  proof -
    obtain n where n: "n \<le> k" "\<forall>i < n. rd i = (- 1, EINTR)" "rd n \<noteq> (- 1, EINTR)"
      using first_uninterrupted [of rd, OF late] by blast
    obtain r x where rn: "rd n = (r, x)" by (cases "rd n")
    then have "r \<noteq> - 1 \<or> x \<noteq> EINTR" using n(3) by auto
    with n(2) rn have "read_loop rd 0 (- 1) EINTR = Some (r, Suc (0 + n))"
      by (intro read_loop_after) simp_all
    then show ?thesis using True n(1) by (simp add: file_read_callback_def)
  qed
  have "(\<exists>y. file_read_callback rd errno flags = Some y) = (\<exists>k. rd k \<noteq> (- 1, EINTR))"
    using loops ends by fastforce
  with ends True show ?thesis by blast
qed

theorem file_read_callback_returns_witness:
  "\<exists>ret fl n. file_read_callback (\<lambda>k. if k < 5 then (- 1, EINTR) else (0, 0)) EINTR 0 =
     Some (ret, fl, n) \<and> n \<le> 8"
  using file_read_callback_returns [of "\<lambda>k. if k < 5 then (- 1, EINTR) else (0, 0)" EINTR 0]
  by (elim conjE allE [of _ 7]) (simp add: EINTR_def)

text \<open>
  A complete request has three outcomes: the file it names is opened and submitted, or the
  error page is, or the stream is reset; each makes one call to nghttp2 and returns 0. In
  every other case the callback fails with \<open>NGHTTP2_ERR_FATAL\<close>. The headers submitted are
  those of \<open>make_status\<close>, which are the same empty list for either code.
\<close>

theorem recv_frame_outcome:
  "case reply_spec be html lib (requested_file s) of
     Replied c fd \<Rightarrow>
       (\<exists>s' e'. recv_frame be html lib s e = (0, s', e') \<and> stream_fd s' = fd \<and>
          lib_calls e' = lib_calls e @ [Submit_response (stream_id s) (make_status c) fd])
   | Reset \<Rightarrow>
       (\<exists>e'. recv_frame be html lib s e = (0, s, e') \<and>
          lib_calls e' = lib_calls e @ [Submit_rst_stream (stream_id s) NGHTTP2_INTERNAL_ERROR])
   | Failed \<Rightarrow> fst (recv_frame be html lib s e) = NGHTTP2_ERR_FATAL"
  by (simp add: reply_spec_def recv_frame_eq send_error_eq Let_def split: option.split)

text \<open>
  Descriptors: when the system hands out new ones, the only descriptor a request
  leaves open is the one nghttp2 was told to read from; every failure closes what it
  opened. Releasing the stream does not close that one either (the deleter closes
  only the descriptor -1), so it stays open for good.
\<close>

theorem recv_frame_descriptors:
  assumes "fresh_fds lib (open_fds e)" and "recv_frame be html lib s e = (rv, s', e')"
    and "- 1 \<notin> open_fds e'"
  shows "open_fds e' = (case reply_spec be html lib (requested_file s) of
           Replied c fd \<Rightarrow> insert fd (open_fds e) | _ \<Rightarrow> open_fds e) \<and>
         open_fds (stream_d s' e') = open_fds e'"
proof
  show "open_fds (stream_d s' e') = open_fds e'" by (rule stream_d_fds [OF assms(3)])
  show "open_fds e' = (case reply_spec be html lib (requested_file s) of
           Replied c fd \<Rightarrow> insert fd (open_fds e) | _ \<Rightarrow> open_fds e)"
    using assms(1,2)
    by (auto simp: reply_spec_def recv_frame_eq send_error_eq fresh_fds_def Let_def
        split: option.splits if_splits)
qed

definition toy_lib :: stream_lib where
  "toy_lib = \<lparr>sys_open = (\<lambda>f. if f = ''index.html'' then 7 else - 1), sys_pipe = Some (8, 9),
     sys_write = (\<lambda>bs. int (length bs)), submit_response2 = (\<lambda>_. 0), submit_rst_stream = 0\<rparr>"

definition toy_env :: "('j, string \<times> string) io_env" where
  "toy_env = event_loop.extend (event_loop_new 1)
     (io_env.fields parser_new {0, 1, 2} [])"

theorem recv_frame_descriptors_witness:
  "open_fds (snd (snd (recv_frame False (0, 0) toy_lib (stream_new INBOUND 1) (toy_env :: (unit, string \<times> string) io_env)))) = {8, 0, 1, 2} \<and>
   open_fds (stream_d (fst (snd (recv_frame False (0, 0) toy_lib (stream_new INBOUND 1) (toy_env :: (unit, string \<times> string) io_env))))
     (snd (snd (recv_frame False (0, 0) toy_lib (stream_new INBOUND 1) (toy_env :: (unit, string \<times> string) io_env))))) = {8, 0, 1, 2}"
proof -
  let ?s = "stream_new INBOUND 1" and ?h = "(0, 0) :: u64 \<times> u64"
  have f: "requested_file ?s = []"
    by (simp add: requested_file_def stream_new_def c_str_def)
  have l: "length (error_body False ?h) = 15"
    by (simp add: error_body_def HTML_object_def mem_bytes_def errlen_def)
  have spec: "reply_spec False ?h toy_lib (requested_file ?s) = Replied code_404 8"
    unfolding f using l by (simp add: reply_spec_def toy_lib_def errlen_def)
  have fresh: "fresh_fds toy_lib (open_fds (toy_env :: (unit, string \<times> string) io_env))"
    by (simp add: fresh_fds_def toy_lib_def toy_env_def event_loop.defs io_env.defs)
  obtain rv s' e' where r: "recv_frame False ?h toy_lib ?s (toy_env :: (unit, string \<times> string) io_env) = (rv, s', e')"
    by (metis surj_pair)
  have "- 1 \<notin> open_fds e'"
    using r f l
    by (simp add: recv_frame_eq send_error_eq toy_lib_def errlen_def Let_def)
      (auto simp: toy_env_def event_loop.defs io_env.defs)
  then show ?thesis
    using recv_frame_descriptors [OF fresh r] spec r
    by (simp add: toy_env_def event_loop.defs io_env.defs)
qed

text \<open>
  A path the url parser refuses is taken for a good one: the header callback
  returns 0, and the file that will be opened for the request is the empty name, as
  for a request that had no path at all.
\<close>

theorem rejected_path_opens_nothing:
  assumes "accepted_url ada (map char_of_byte path) = None"
  shows "\<exists>s' e'. recv_path_header ada path s e = (Inr 0, s', e') \<and>
           requested_file s' = [] \<and> requested_file (stream_new d i) = [] \<and>
           s' = s\<lparr>stream_req := uri_default\<rparr> \<and> e' = e\<lparr>url_state := parser_new\<rparr>"
  using assms
  by (simp add: recv_path_header_def uri_parse_eq requested_file_def c_str_def stream_new_def)

theorem rejected_path_opens_nothing_witness:
  "\<exists>s' e'. recv_path_header toy_ada (bytes_of_string ''/index.html'') (stream_new INBOUND 1) (toy_env :: (unit, string \<times> string) io_env) =
             (Inr 0, s', e') \<and> requested_file s' = []"
proof -
  have "accepted_url toy_ada (map char_of_byte (bytes_of_string ''/index.html'')) = None"
    by (simp add: accepted_url_def toy_ada_def bytes_of_string_def)
  from rejected_path_opens_nothing [OF this, of "stream_new INBOUND 1" "toy_env :: (unit, string \<times> string) io_env" INBOUND 1]
  show ?thesis by blast
qed

text \<open>
  C19. A peer is not told whether the file was found: the reply that was meant to say 200 and
  the reply that was meant to say 404 are submitted with the same list of headers, which is
  empty; only the descriptor that the body is read from differs, that of the file or the
  read end of the pipe with the error page.
\<close>

theorem found_and_missing_look_alike:
  assumes "sys_open lib (requested_file s) \<noteq> - 1"
    and "sys_open lib' (requested_file s) = - 1" and "sys_pipe lib' = Some (p0, p1)"
    and "sys_write lib' (error_body be html) = int errlen"
  shows "\<exists>hs. hdrs hs = [] \<and>
    lib_calls (snd (snd (recv_frame be html lib s e))) =
      lib_calls e @ [Submit_response (stream_id s) hs (sys_open lib (requested_file s))] \<and>
    lib_calls (snd (snd (recv_frame be html lib' s e))) =
      lib_calls e @ [Submit_response (stream_id s) hs p0]"
proof -
  have "make_status c = headers_empty" for c by (simp add: make_status_def headers_of_pair_def)
  then show ?thesis using assms
    by (intro exI [of _ headers_empty]) (simp add: recv_frame_eq send_error_eq headers_empty_def Let_def)
qed

theorem found_and_missing_look_alike_witness:
  "\<exists>hs. hdrs hs = [] \<and>
    lib_calls (snd (snd (recv_frame False (0, 0) (toy_lib\<lparr>sys_open := (\<lambda>_. 8)\<rparr>) (stream_new INBOUND 1)
        (toy_env :: (unit, string \<times> string) io_env)))) = [Submit_response 1 hs 8] \<and>
    lib_calls (snd (snd (recv_frame False (0, 0) toy_lib (stream_new INBOUND 1)
        (toy_env :: (unit, string \<times> string) io_env)))) = [Submit_response 1 hs 8]"
proof -
  let ?s = "stream_new INBOUND 1" and ?h = "(0, 0) :: u64 \<times> u64"
  have f: "requested_file ?s = []"
    by (simp add: requested_file_def stream_new_def c_str_def)
  have l: "length (error_body False ?h) = 15"
    by (simp add: error_body_def HTML_object_def mem_bytes_def errlen_def)
  have "sys_open (toy_lib\<lparr>sys_open := (\<lambda>_. 8)\<rparr>) (requested_file ?s) \<noteq> - 1"
    "sys_open toy_lib (requested_file ?s) = - 1" "sys_pipe toy_lib = Some (8, 9)"
    "sys_write toy_lib (error_body False ?h) = int errlen"
    using l by (simp_all add: toy_lib_def f errlen_def)
  from found_and_missing_look_alike [OF this, of "toy_env :: (unit, string \<times> string) io_env"]
  show ?thesis by (simp add: toy_lib_def toy_env_def event_loop.defs io_env.defs stream_new_def)
qed

text \<open>
  The body of the 404 answer is not the page: it is 15 bytes long and begins with
  the address of the page's first line, which a peer reads off it; the text of the
  page does not enter.
\<close>

theorem error_body_discloses_address:
  "length (error_body be (p0, p1)) = 15 \<and>
   of_mem_bytes be (take 8 (error_body be (p0, p1))) = p0 \<and>
   drop 8 (error_body be (p0, p1)) = take 7 (mem_bytes be 8 p1)"
  by (simp add: error_body_def HTML_object_def errlen_def of_mem_bytes_mem_bytes)

end
