(* ===== verification/Address.thy ===== *)
theory Address
  imports Utils
begin

text \<open>
  Addresses (\<open>include/wshttp/address.hpp\<close>, \<open>src/address.cpp\<close>): IPv4 and IPv6
  addresses kept in host order, their conversions from and to the socket structures,
  the variant \<open>ip_address\<close> with its cached \<open>_is_v4\<close>, comparison, hashing and
  \<open>path\<close>. \<open>inet_pton\<close>, \<open>inet_ntop\<close> and \<open>std::hash\<close> of the built-in types
  are parameters. Memory is a list of bytes in address order.
\<close>

section \<open>IPv4\<close>

datatype ipv4 = ipv4 (v4_addr: u32)

record in_addr =
  s_addr :: u32 \<comment> \<open>the integer stored in the structure, in network order\<close>

definition ipv4_octets :: "byte \<Rightarrow> byte \<Rightarrow> byte \<Rightarrow> byte \<Rightarrow> ipv4" where
  "ipv4_octets a b c d =
     ipv4 (push_bit 24 (ucast a) OR push_bit 16 (ucast b) OR push_bit 8 (ucast c) OR ucast d)"

definition ipv4_of_in_addr :: "bool \<Rightarrow> in_addr \<Rightarrow> ipv4" where
  "ipv4_of_in_addr be a = ipv4 (big_to_host_inplace be (of_mem_bytes be (mem_bytes be 4 (s_addr a))))"

definition ipv4_of_string :: "(string \<Rightarrow> pton_answer) \<Rightarrow> bool \<Rightarrow> string \<Rightarrow> ipv4 result" where
  "ipv4_of_string inet_pton be str =
     bind_result (parse_addr inet_pton str)
       (\<lambda>bytes. Inr (ipv4 (big_to_host_inplace be (of_mem_bytes be bytes))))"

definition to_in4 :: "bool \<Rightarrow> ipv4 \<Rightarrow> in_addr" where
  "to_in4 be a = \<lparr>s_addr = host_to_big be (v4_addr a)\<rparr>"

definition ipv4_anyaddr :: ipv4 where
  "ipv4_anyaddr = ipv4_octets 0 0 0 0"

definition ipv4_is_anyaddr :: "ipv4 \<Rightarrow> bool" where
  "ipv4_is_anyaddr a \<longleftrightarrow> a = ipv4_anyaddr"

definition ipv4_to_string :: "(byte list \<Rightarrow> string) \<Rightarrow> bool \<Rightarrow> ipv4 \<Rightarrow> string" where
  "ipv4_to_string inet_ntop be a = inet_ntop (mem_bytes be 4 (host_to_big be (v4_addr a)))"

text \<open>\<open>operator==(const in_addr&)\<close> compares the two integers as they are.\<close>

definition ipv4_eq_in_addr :: "ipv4 \<Rightarrow> in_addr \<Rightarrow> bool" where
  "ipv4_eq_in_addr a i \<longleftrightarrow> compare3 (v4_addr a) (s_addr i) = ord_equal"

section \<open>IPv6\<close>

datatype ipv6 = ipv6 (v6_addr: "u16 list") \<comment> \<open>\<open>std::array<uint16_t, 8>\<close>\<close>

definition wf_ipv6 :: "ipv6 \<Rightarrow> bool" where
  "wf_ipv6 a \<longleftrightarrow> length (v6_addr a) = 8"

definition ipv6_groups ::
  "u16 \<Rightarrow> u16 \<Rightarrow> u16 \<Rightarrow> u16 \<Rightarrow> u16 \<Rightarrow> u16 \<Rightarrow> u16 \<Rightarrow> u16 \<Rightarrow> ipv6" where
  "ipv6_groups a b c d e f g h = ipv6 [a, b, c, d, e, f, g, h]"

text \<open>Copying 16 bytes into, and out of, an array of eight 16-bit integers.\<close>

definition load_groups :: "bool \<Rightarrow> byte list \<Rightarrow> u16 list" where
  "load_groups be bytes = map (\<lambda>i. of_mem_bytes be (take 2 (drop (2 * i) bytes))) [0..<8]"

definition store_groups :: "bool \<Rightarrow> u16 list \<Rightarrow> byte list" where
  "store_groups be gs = concat (map (mem_bytes be 2) gs)"

definition ipv6_of_in6 :: "bool \<Rightarrow> byte list \<Rightarrow> ipv6" where
  "ipv6_of_in6 be s6_addr = ipv6 (map (big_to_host_inplace be) (load_groups be s6_addr))"

definition ipv6_of_string :: "(string \<Rightarrow> pton_answer) \<Rightarrow> bool \<Rightarrow> string \<Rightarrow> ipv6 result" where
  "ipv6_of_string inet_pton be str =
     bind_result (parse_addr inet_pton str)
       (\<lambda>bytes. Inr (ipv6 (map (big_to_host_inplace be) (load_groups be bytes))))"

text \<open>
  \<open>to_in6\<close> copies the groups and then converts the first eight elements of
  \<open>s6_addr\<close>, an array of single bytes.
\<close>

definition to_in6 :: "bool \<Rightarrow> ipv6 \<Rightarrow> byte list" where
  "to_in6 be a =
     (let ret = store_groups be (v6_addr a) in
      foldl (\<lambda>r i. r[i := big_to_host_inplace be (r ! i)]) ret [0..<8])"

definition ipv6_anyaddr :: ipv6 where
  "ipv6_anyaddr = ipv6_groups 0 0 0 0 0 0 0 0"

definition ipv6_is_anyaddr :: "ipv6 \<Rightarrow> bool" where
  "ipv6_is_anyaddr a \<longleftrightarrow> a = ipv6_anyaddr"

definition ipv6_to_string :: "(byte list \<Rightarrow> string) \<Rightarrow> bool \<Rightarrow> ipv6 \<Rightarrow> string" where
  "ipv6_to_string inet_ntop be a =
     inet_ntop (store_groups be (map (host_to_big_inplace be) (v6_addr a)))"

section \<open>Order\<close>

instantiation ipv4 :: linorder
begin

definition less_eq_ipv4 :: "ipv4 \<Rightarrow> ipv4 \<Rightarrow> bool" where
  "less_eq_ipv4 a b \<longleftrightarrow> v4_addr a \<le> v4_addr b"

definition less_ipv4 :: "ipv4 \<Rightarrow> ipv4 \<Rightarrow> bool" where
  "less_ipv4 a b \<longleftrightarrow> v4_addr a < v4_addr b"

instance
  by standard (auto simp: less_eq_ipv4_def less_ipv4_def intro: ipv4.expand)

end

definition ipv6_compare :: "ipv6 \<Rightarrow> ipv6 \<Rightarrow> strong_ordering" where
  "ipv6_compare a b = span_compare (v6_addr a) (v6_addr b)"

definition ipv4_compare :: "ipv4 \<Rightarrow> ipv4 \<Rightarrow> strong_ordering" where
  "ipv4_compare a b = compare3 (v4_addr a) (v4_addr b)"

section \<open>\<open>ip_address\<close>\<close>

datatype ip_v = V4 ipv4 | V6 ipv6

fun ip_index :: "ip_v \<Rightarrow> nat" where
  "ip_index (V4 _) = 0"
| "ip_index (V6 _) = 1"

fun ip_v_compare :: "ip_v \<Rightarrow> ip_v \<Rightarrow> strong_ordering" where
  "ip_v_compare (V4 a) (V4 b) = ipv4_compare a b"
| "ip_v_compare (V6 a) (V6 b) = ipv6_compare a b"
| "ip_v_compare a b = compare3 (ip_index a) (ip_index b)"

record ip_address =
  ip :: ip_v
  ip_port :: u16
  is_v4 :: bool

datatype sockaddr =
    sockaddr_in in_addr u16        \<comment> \<open>\<open>sin_addr\<close>, \<open>sin_port\<close>\<close>
  | sockaddr_in6 "byte list" u16   \<comment> \<open>\<open>sin6_addr\<close>, \<open>sin6_port\<close>\<close>
  | sockaddr_other int             \<comment> \<open>any other \<open>sa_family\<close>\<close>

definition ip_address_of_port :: "u16 \<Rightarrow> ip_address" where
  "ip_address_of_port p = (let v = V4 (ipv4 0) in \<lparr>ip = v, ip_port = p, is_v4 = (ip_index v = 0)\<rparr>)"

definition ip_address_of :: "ip_v \<Rightarrow> u16 \<Rightarrow> ip_address" where
  "ip_address_of v p = \<lparr>ip = v, ip_port = p, is_v4 = (ip_index v = 0)\<rparr>"

text \<open>
  The \<open>sockaddr\<close> constructor assigns \<open>_ip\<close> in its body; \<open>_is_v4\<close> was
  initialised before it, from the index of the default constructed variant.
\<close>

definition ip_address_of_sockaddr :: "bool \<Rightarrow> sockaddr \<Rightarrow> ip_address result" where
  "ip_address_of_sockaddr be sa =
     (let v0 = V4 (ipv4 0); v4flag = (ip_index v0 = 0) in
      case sa of
        sockaddr_in sin_addr sin_port \<Rightarrow>
          Inr \<lparr>ip = V4 (ipv4_of_in_addr be sin_addr),
               ip_port = big_to_host_inplace be sin_port, is_v4 = v4flag\<rparr>
      | sockaddr_in6 sin6_addr sin6_port \<Rightarrow>
          Inr \<lparr>ip = V6 (ipv6_of_in6 be sin6_addr),
               ip_port = big_to_host_inplace be sin6_port, is_v4 = v4flag\<rparr>
      | sockaddr_other _ \<Rightarrow>
          Inl (runtime_error ''Failed to understand incoming address sa_family''))"

definition copy_internals :: "ip_address \<Rightarrow> ip_address" where
  "copy_internals a = \<lparr>ip = ip a, ip_port = ip_port a, is_v4 = is_v4 a\<rparr>"

definition get_ipv4 :: "ip_address \<Rightarrow> ipv4 result" where
  "get_ipv4 a = (case ip a of V4 v \<Rightarrow> Inr v | V6 _ \<Rightarrow> Inl bad_variant_access)"

definition get_ipv6 :: "ip_address \<Rightarrow> ipv6 result" where
  "get_ipv6 a = (case ip a of V6 v \<Rightarrow> Inr v | V4 _ \<Rightarrow> Inl bad_variant_access)"

definition ip_is_anyaddr :: "ip_address \<Rightarrow> bool result" where
  "ip_is_anyaddr a =
     bind_result
       (if is_v4 a then bind_result (get_ipv4 a) (\<lambda>v. Inr (ipv4_is_anyaddr v))
        else bind_result (get_ipv6 a) (\<lambda>v. Inr (ipv6_is_anyaddr v)))
       (\<lambda>any. Inr (any \<and> ip_port a = 0))"

record net_api =
  ntop4 :: "byte list \<Rightarrow> string"
  ntop6 :: "byte list \<Rightarrow> string"
  net_fmt :: fmt_ops

definition ip_to_string :: "net_api \<Rightarrow> bool \<Rightarrow> ip_address \<Rightarrow> string result" where
  "ip_to_string net be a =
     bind_result
       (if is_v4 a then bind_result (get_ipv4 a) (\<lambda>v. Inr (ipv4_to_string (ntop4 net) be v))
        else bind_result (get_ipv6 a) (\<lambda>v. Inr (ipv6_to_string (ntop6 net) be v)))
       (\<lambda>s. Inr (s @ '':'' @ fmt_d (net_fmt net) (unat (ip_port a))))"

definition ip_compare :: "ip_address \<Rightarrow> ip_address \<Rightarrow> strong_ordering" where
  "ip_compare a b = then_compare (ip_v_compare (ip a) (ip b)) (compare3 (ip_port a) (ip_port b))"

definition ip_eq :: "ip_address \<Rightarrow> ip_address \<Rightarrow> bool" where
  "ip_eq a b \<longleftrightarrow> ip_compare a b = ord_equal"

definition ip_to_in_addr :: "bool \<Rightarrow> ip_address \<Rightarrow> in_addr result" where
  "ip_to_in_addr be a = bind_result (get_ipv4 a) (\<lambda>v. Inr (to_in4 be v))"

definition ip_to_in6_addr :: "bool \<Rightarrow> ip_address \<Rightarrow> byte list result" where
  "ip_to_in6_addr be a = bind_result (get_ipv6 a) (\<lambda>v. Inr (to_in6 be v))"

section \<open>Hashing\<close>

record std_hash =
  hash_u16 :: "u16 \<Rightarrow> size_t"
  hash_u32 :: "u32 \<Rightarrow> size_t"
  hash_variant :: "nat \<Rightarrow> size_t \<Rightarrow> size_t"

definition hash_ipv4 :: "std_hash \<Rightarrow> ipv4 \<Rightarrow> size_t" where
  "hash_ipv4 h a = hash_u32 h (v4_addr a)"

definition hash_ipv6 :: "std_hash \<Rightarrow> ipv6 \<Rightarrow> size_t" where
  "hash_ipv6 hs a =
     foldl (\<lambda>h v. h XOR (hash_u16 hs v + inverse_golden_ratio + push_bit 7 h + drop_bit 3 h))
       0 (v6_addr a)"

definition hash_ip_address :: "std_hash \<Rightarrow> ip_address \<Rightarrow> size_t" where
  "hash_ip_address h a =
     hash_variant h (ip_index (ip a))
       (case ip a of V4 v \<Rightarrow> hash_ipv4 h v | V6 v \<Rightarrow> hash_ipv6 h v)"

section \<open>\<open>path\<close>\<close>

record conn_path =
  path_local :: ip_address
  path_remote :: ip_address

definition path_to_string :: "net_api \<Rightarrow> bool \<Rightarrow> conn_path \<Rightarrow> string result" where
  "path_to_string net be p =
     bind_result (ip_to_string net be (path_local p)) (\<lambda>l.
     bind_result (ip_to_string net be (path_remote p)) (\<lambda>r.
       Inr (''[local='' @ l @ '', remote='' @ r @ '']'')))"

section \<open>Wire and text conversions\<close>

lemma mem_bytes_inj: "8 * n = LENGTH('a) \<Longrightarrow> mem_bytes e n (v :: 'a::len word) = mem_bytes e n w \<longleftrightarrow> v = w"
  by (metis of_mem_bytes_mem_bytes)

lemma ipv4_of_in_addr_eq: "ipv4_of_in_addr be i = ipv4 (big_to_host be (s_addr i))"
  by (simp add: ipv4_of_in_addr_def big_to_host_def of_mem_bytes_mem_bytes)

lemma octet_word: "v4_addr (ipv4_octets a b c d) = of_le_bytes [d, c, b, a]"
  by (simp only: ipv4_octets_def ipv4.sel of_le_bytes.simps push_bit_or push_bit_push_bit
      push_bit_of_0 or.right_neutral) (simp add: ac_simps)

lemma octet_bytes: "be_bytes 4 (v4_addr (ipv4_octets a b c d)) = [a, b, c, d]"
proof -
  have "le_bytes (length [d, c, b, a]) (of_le_bytes [d, c, b, a] :: u32) = [d, c, b, a]"
    by (rule le_bytes_of_le_bytes) simp
  then show ?thesis by (simp add: be_bytes_def octet_word eval_nat_numeral)
qed

lemma length_load_groups [simp]: "length (load_groups be bs) = 8"
  by (simp add: load_groups_def)

lemma store_load_groups:
  assumes "length bs = 16"
  shows "store_groups be (load_groups be bs) = bs"
proof -
  have "mem_bytes be 2 (of_mem_bytes be (take 2 (drop (2 * i) bs)) :: u16) = take 2 (drop (2 * i) bs)"
    if "i < 8" for i
    using that assms by (intro mem_bytes_of_mem_bytes) simp_all
  then have "store_groups be (load_groups be bs) =
      concat (map (\<lambda>i. take 2 (drop (2 * i) bs)) [0..<8])"
    unfolding store_groups_def load_groups_def map_map
    by (intro arg_cong [where f = concat] map_cong) auto
  also have "concat (map (\<lambda>i. take 2 (drop (2 * i) bs)) [0..<n]) = take (2 * n) bs" for n
    by (induction n) (simp_all add: take_add [symmetric] algebra_simps)
  finally show ?thesis using assms by simp
qed

lemma store_groups_Cons: "store_groups be (g # gs) = mem_bytes be 2 g @ store_groups be gs"
  by (simp add: store_groups_def)

lemma length_store_groups [simp]: "length (store_groups be gs) = 2 * length gs"
  by (induction gs) (simp_all add: store_groups_def)

lemma nth_pair:
  "drop (2 * i) (store_groups be gs) = store_groups be (drop i gs)"
proof (induction i arbitrary: gs)
  case (Suc i)
  then show ?case by (cases gs) (simp_all add: store_groups_def)
qed simp

lemma load_store_groups:
  assumes "length gs = 8"
  shows "load_groups be (store_groups be gs) = gs"
proof (rule nth_equalityI)
  fix i assume "i < length (load_groups be (store_groups be gs))"
  then have i: "i < 8" by simp
  then have "drop i gs = gs ! i # drop (Suc i) gs"
    using assms by (simp add: Cons_nth_drop_Suc)
  then have "take 2 (drop (2 * i) (store_groups be gs)) = mem_bytes be 2 (gs ! i)"
    by (simp add: nth_pair store_groups_Cons)
  then show "load_groups be (store_groups be gs) ! i = gs ! i"
    using i by (simp add: load_groups_def of_mem_bytes_mem_bytes)
qed (simp add: assms)

lemma map_order_inverse:
  "map (host_to_big_inplace be) (map (big_to_host_inplace be) (gs :: u16 list)) = gs"
  "map (big_to_host_inplace be) (map (host_to_big_inplace be) (gs :: u16 list)) = gs"
  using n16.to_from [of be] n16.from_to [of be]
  by (simp_all add: host_to_big_def big_to_host_def map_idI)

lemma to_in6_eq: "to_in6 be a = store_groups be (v6_addr a)"
proof -
  have id: "big_to_host_inplace be (b :: byte) = b" for b
    by (simp add: order_defs byteswap_8)
  have "foldl (\<lambda>r i. r[i := big_to_host_inplace be (r ! i)]) xs is = (xs :: byte list)" for xs "is"
    by (induction "is" arbitrary: xs) (simp_all add: id)
  then show ?thesis by (simp add: to_in6_def)
qed

text \<open>Exchange the two bytes of every group.\<close>

fun swap_pairs :: "'a list \<Rightarrow> 'a list" where
  "swap_pairs (a # b # xs) = b # a # swap_pairs xs"
| "swap_pairs xs = xs"

lemma swapped_pair: "mem_bytes be 2 (big_to_host_inplace be (g :: u16)) =
    (if be then mem_bytes be 2 g else rev (mem_bytes be 2 g))"
  by (simp add: order_defs byteswap_16 mem_bytes_def le_bytes_bswap_16)

lemma le_pair: "mem_bytes False 2 (g :: u16) = [ucast g, ucast (drop_bit 8 g)]"
  by (simp add: mem_bytes_def numeral_eq_Suc)

lemma store_swapped:
  "store_groups be (map (big_to_host_inplace be) gs) =
     (if be then store_groups be gs else swap_pairs (store_groups be gs))"
proof (induction gs)
  case (Cons g gs)
  show ?case
    unfolding list.map store_groups_Cons swapped_pair Cons.IH
    by (cases be) (simp_all add: le_pair)
qed (simp add: store_groups_def)

section \<open>Comparison and hashing\<close>

lemma ipv6_compare_eq_iff: "ipv6_compare a b = ord_equal \<longleftrightarrow> a = b"
  by (auto simp: ipv6_compare_def span_compare_eq_iff intro: ipv6.expand)

lemma ipv4_compare_eq_iff: "ipv4_compare a b = ord_equal \<longleftrightarrow> a = b"
  by (auto simp: ipv4_compare_def intro: ipv4.expand)

lemma ip_v_compare_eq_iff: "ip_v_compare a b = ord_equal \<longleftrightarrow> a = b"
  by (cases a; cases b) (simp_all add: ipv4_compare_eq_iff ipv6_compare_eq_iff compare3_def)

lemma ip_v_compare_flip: "ip_v_compare b a = flip_ordering (ip_v_compare a b)"
  by (cases a; cases b)
    (simp_all add: ipv4_compare_def ipv6_compare_def compare3_flip [symmetric]
      span_compare_flip [symmetric])

lemma ip_eq_iff: "ip_eq a b \<longleftrightarrow> ip a = ip b \<and> ip_port a = ip_port b"
  by (simp add: ip_eq_def ip_compare_def ip_v_compare_eq_iff)

text \<open>The cached flag agrees with the variant.\<close>

definition flag_ok :: "ip_address \<Rightarrow> bool" where
  "flag_ok a \<longleftrightarrow> is_v4 a = (ip_index (ip a) = 0)"

lemma ip_to_string_ok_iff: "(\<exists>s. ip_to_string net be a = Inr s) \<longleftrightarrow> flag_ok a"
  by (cases "ip a")
    (simp_all add: ip_to_string_def get_ipv4_def get_ipv6_def flag_ok_def)

lemma ip_is_anyaddr_ok_iff: "(\<exists>r. ip_is_anyaddr a = Inr r) \<longleftrightarrow> flag_ok a"
  by (cases "ip a")
    (simp_all add: ip_is_anyaddr_def get_ipv4_def get_ipv6_def flag_ok_def)

lemma flag_ok_intros [wf_intros]:
  "flag_ok (ip_address_of_port p)"
  "flag_ok (ip_address_of v p)"
  "flag_ok a \<Longrightarrow> flag_ok (copy_internals a)"
  by (simp_all add: flag_ok_def ip_address_of_port_def ip_address_of_def copy_internals_def)

section \<open>Properties\<close>

text \<open>
  An IPv4 address survives the trip through \<open>in_addr\<close> in both directions on
  either kind of platform, and the four octets it was made from are, in this order,
  the bytes of the \<open>in_addr\<close> in memory.
\<close>

theorem ipv4_wire_roundtrip:
  "ipv4_of_in_addr be (to_in4 be a) = a \<and>
   to_in4 be (ipv4_of_in_addr be i) = i \<and>
   mem_bytes be 4 (s_addr (to_in4 be (ipv4_octets w x y z))) = [w, x, y, z]"
  using n32.stored_to [of be "v4_addr (ipv4_octets w x y z)"]
  by (simp add: ipv4_of_in_addr_eq to_in4_def n32.from_to n32.to_from octet_bytes)

text \<open>
  Where \<open>inet_pton\<close> reads back what \<open>inet_ntop\<close> printed, an IPv4 and an IPv6
  address printed by \<open>to_string\<close> are parsed back to the same address.
\<close>

theorem ip_text_roundtrip:
  assumes "\<And>bs. length bs = 4 \<Longrightarrow> pton4 (ntop4' bs) = pton_ok bs"
    and "\<And>bs. length bs = 16 \<Longrightarrow> pton6 (ntop6' bs) = pton_ok bs"
    and "wf_ipv6 b"
  shows "ipv4_of_string pton4 be (ipv4_to_string ntop4' be a) = Inr a \<and>
         ipv6_of_string pton6 be (ipv6_to_string ntop6' be b) = Inr b"
  using assms n32.from_to [of be "v4_addr a"]
  by (simp add: ipv4_of_string_def ipv4_to_string_def ipv6_of_string_def ipv6_to_string_def
      parse_addr_def wf_ipv6_def of_mem_bytes_mem_bytes load_store_groups map_order_inverse
      big_to_host_def [symmetric] del: map_map)

text \<open>A stand-in for the two library calls: the bytes of the address as characters.\<close>

definition raw_ntop :: "byte list \<Rightarrow> string" where
  "raw_ntop bs = map char_of_byte bs"

definition raw_pton :: "string \<Rightarrow> pton_answer" where
  "raw_pton s = pton_ok (map byte_of_char s)"

lemma raw_pton_ntop: "raw_pton (raw_ntop bs) = pton_ok bs"
  by (simp add: raw_pton_def raw_ntop_def map_idI)

theorem ip_text_roundtrip_witness:
  "ipv4_of_string raw_pton False (ipv4_to_string raw_ntop False (ipv4_octets 10 0 0 1))
     = Inr (ipv4_octets 10 0 0 1) \<and>
   ipv6_of_string raw_pton False
     (ipv6_to_string raw_ntop False (ipv6_groups 0x2001 0xdb8 0 0 0 0 0 1))
     = Inr (ipv6_groups 0x2001 0xdb8 0 0 0 0 0 1)"
  by (rule ip_text_roundtrip) (simp_all add: raw_pton_ntop wf_ipv6_def ipv6_groups_def)

text \<open>
  C39. An IPv6 address read from an \<open>in6_addr\<close> prints as those 16 bytes on every
  platform, but \<open>to_in6\<close> gives them back only on a big-endian one: on a
  little-endian platform it returns them with the two bytes of every group
  exchanged, because it converts single bytes.
\<close>

theorem ipv6_wire_conversion:
  assumes "length s6_addr = 16"
  shows "ipv6_to_string inet_ntop be (ipv6_of_in6 be s6_addr) = inet_ntop s6_addr \<and>
         to_in6 be (ipv6_of_in6 be s6_addr) = (if be then s6_addr else swap_pairs s6_addr)"
  using store_load_groups [OF assms]
  by (simp add: ipv6_to_string_def ipv6_of_in6_def to_in6_eq store_swapped
      map_order_inverse del: map_map)

theorem ipv6_wire_conversion_witness:
  "ipv6_to_string raw_ntop False (ipv6_of_in6 False (0x20 # 0x01 # replicate 14 0))
     = raw_ntop (0x20 # 0x01 # replicate 14 0) \<and>
   to_in6 False (ipv6_of_in6 False (0x20 # 0x01 # replicate 14 0)) =
     (if False then 0x20 # 0x01 # replicate 14 0 else swap_pairs (0x20 # 0x01 # replicate 14 0))"
  by (rule ipv6_wire_conversion) simp

text \<open>
  Printing and testing an \<open>ip_address\<close> succeed exactly when its cached
  \<open>_is_v4\<close> matches the variant. Every constructor and copy gives such an address,
  save one: an address taken from a \<open>sockaddr_in6\<close> claims to be IPv4, so every
  such call on it throws \<open>std::bad_variant_access\<close>.
\<close>

theorem cached_flag_decides:
  "((\<exists>s. ip_to_string net be a = Inr s) \<longleftrightarrow> flag_ok a) \<and>
   ((\<exists>r. ip_is_anyaddr a = Inr r) \<longleftrightarrow> flag_ok a) \<and>
   flag_ok (ip_address_of_port p) \<and> flag_ok (ip_address_of v p) \<and>
   flag_ok (copy_internals a) = flag_ok a \<and>
   (\<exists>a4. ip_address_of_sockaddr be (sockaddr_in i p) = Inr a4 \<and> flag_ok a4 \<and> ip_port a4 = big_to_host be p) \<and>
   (\<exists>a6. ip_address_of_sockaddr be (sockaddr_in6 bs p) = Inr a6 \<and>
      ip_to_string net be a6 = Inl bad_variant_access \<and>
      ip_is_anyaddr a6 = Inl bad_variant_access)"
  unfolding ip_to_string_ok_iff ip_is_anyaddr_ok_iff
  by (simp add: flag_ok_intros)
    (simp add: flag_ok_def copy_internals_def ip_address_of_sockaddr_def Let_def ip_to_string_def
      ip_is_anyaddr_def get_ipv4_def big_to_host_def)

text \<open>
  Equal addresses are interchangeable as keys: equality is symmetric, equal
  addresses compare alike with every third one and hash alike, although their cached
  flags may differ. This is what \<open>std::unordered_map<ip_address, ...>\<close> needs.
\<close>

theorem ip_key_laws:
  assumes "ip_eq a b"
  shows "ip_eq b a \<and> ip_compare a c = ip_compare b c \<and> ip_compare c b = flip_ordering (ip_compare a c) \<and>
         hash_ip_address h a = hash_ip_address h b"
  using assms
  by (simp add: ip_eq_iff hash_ip_address_def ip_compare_def flip_then_compare
      ip_v_compare_flip [symmetric] compare3_flip [symmetric])

theorem ip_key_laws_witness:
  "ip_eq \<lparr>ip = V6 ipv6_anyaddr, ip_port = 443, is_v4 = True\<rparr> (ip_address_of (V6 ipv6_anyaddr) 443) \<and>
   hash_ip_address \<lparr>hash_u16 = ucast, hash_u32 = ucast, hash_variant = (\<lambda>i h. h + of_nat i)\<rparr>
       \<lparr>ip = V6 ipv6_anyaddr, ip_port = 443, is_v4 = True\<rparr>
     = hash_ip_address \<lparr>hash_u16 = ucast, hash_u32 = ucast, hash_variant = (\<lambda>i h. h + of_nat i)\<rparr>
       (ip_address_of (V6 ipv6_anyaddr) 443)"
proof -
  have eq: "ip_eq \<lparr>ip = V6 ipv6_anyaddr, ip_port = 443, is_v4 = True\<rparr> (ip_address_of (V6 ipv6_anyaddr) 443)"
    by (simp add: ip_eq_iff ip_address_of_def)
  show ?thesis
    using eq ip_key_laws [OF eq] by blast
qed

end
