(* ===== verification/Context.thy ===== *)
theory Context
  imports Parser
begin

text \<open>
  TLS contexts (\<open>include/wshttp/context.hpp\<close>, \<open>src/context.cpp\<close>): the
  credentials and the pair of OpenSSL contexts an endpoint keeps, one for the
  connections it accepts and one for those it opens. A context is modelled by what
  the code configures on it; the return codes of OpenSSL are the parameter
  \<open>openssl\<close>.
\<close>

section \<open>The library\<close>

datatype ssl_method = TLS_server_method | TLS_client_method

datatype ssl_op =
    SSL_OP_ALL
  | SSL_OP_NO_SSLv2
  | SSL_OP_NO_SSLv3
  | SSL_OP_NO_COMPRESSION
  | SSL_OP_NO_SESSION_RESUMPTION_ON_RENEGOTIATION
  | SSL_OP_SINGLE_ECDH_USE
  | SSL_OP_NO_TICKET
  | SSL_OP_CIPHER_SERVER_PREFERENCE

record ssl_ctx =
  ctx_method :: ssl_method
  ctx_options :: "ssl_op set" \<comment> \<open>those set by the program\<close>
  ctx_default_paths :: bool \<comment> \<open>trusts the system's certificate store\<close>
  ctx_verify_peer :: bool
  ctx_private_key :: "string option"
  ctx_certificate :: "string option"
  ctx_alpn_select_cb :: bool

record openssl =
  SSL_CTX_new :: "ssl_method \<Rightarrow> bool"
  set_default_paths :: "ssl_method \<Rightarrow> int"
  use_PrivateKey_file :: "ssl_method \<Rightarrow> string \<Rightarrow> int"
  use_certificate_file :: "ssl_method \<Rightarrow> string \<Rightarrow> int"
  check_private_key :: "ssl_method \<Rightarrow> string \<Rightarrow> string \<Rightarrow> int"

definition fresh_ctx :: "ssl_method \<Rightarrow> ssl_ctx" where
  "fresh_ctx m =
     \<lparr>ctx_method = m, ctx_options = {}, ctx_default_paths = False, ctx_verify_peer = False,
      ctx_private_key = None, ctx_certificate = None, ctx_alpn_select_cb = False\<rparr>"

section \<open>Credentials\<close>

record ssl_creds =
  keyfile :: string
  certfile :: string

definition ssl_creds_make :: "string \<Rightarrow> string \<Rightarrow> ssl_creds result" where
  "ssl_creds_make k c =
     bind_result (guard (k \<noteq> [] \<and> c \<noteq> []) (invalid_argument ''Empty paths''))
       (\<lambda>_. Inr \<lparr>keyfile = k, certfile = c\<rparr>)"

section \<open>ALPN selection by the server\<close>

datatype ALPN = alpn_NONE | alpn_UNVALIDATED | alpn_VALIDATED

definition SSL_TLSEXT_ERR_OK :: int where [const_defs]: "SSL_TLSEXT_ERR_OK = 0"
definition SSL_TLSEXT_ERR_NOACK :: int where [const_defs]: "SSL_TLSEXT_ERR_NOACK = 3"

text \<open>\<open>nghttp2_select_alpn\<close> returns a code and the protocol it selected.\<close>

definition server_select_alpn_proto_cb ::
  "(byte list \<Rightarrow> int \<times> byte list) \<Rightarrow> byte list \<Rightarrow> int \<times> byte list" where
  "server_select_alpn_proto_cb select_alpn offered =
     (let (rv, out) = select_alpn offered in
      (if rv \<noteq> 1 then SSL_TLSEXT_ERR_NOACK else SSL_TLSEXT_ERR_OK, out))"

section \<open>\<open>app_context\<close>\<close>

record app_context =
  ctx_creds :: "ssl_creds option"
  ctx_I :: "ssl_ctx option"
  ctx_O :: "ssl_ctx option"

definition err_create :: exn where "err_create = runtime_error ''Failed to create SSL context''"
definition err_store :: exn where "err_store = runtime_error ''Call to X509_STORE_set_default_paths failed''"
definition err_paths :: exn where "err_paths = runtime_error ''Call to SSL_CTX_set_default_verify_paths failed''"
definition err_key :: exn where "err_key = runtime_error ''Failed to read private key file!''"
definition err_cert :: exn where "err_cert = runtime_error ''Failed to read certificate file!''"
definition err_check :: exn where "err_check = runtime_error ''Failed to check private key!''"

definition upd_I :: "(ssl_ctx \<Rightarrow> ssl_ctx) \<Rightarrow> (app_context, unit) comp" where
  "upd_I f = modifyc (\<lambda>a. a\<lparr>ctx_I := map_option f (ctx_I a)\<rparr>)"

definition upd_O :: "(ssl_ctx \<Rightarrow> ssl_ctx) \<Rightarrow> (app_context, unit) comp" where
  "upd_O f = modifyc (\<lambda>a. a\<lparr>ctx_O := map_option f (ctx_O a)\<rparr>)"

definition init_inbound_system :: "openssl \<Rightarrow> (app_context, unit) comp" where
  "init_inbound_system ssl =
     thenc (modifyc (\<lambda>a. a\<lparr>ctx_I :=
              (if SSL_CTX_new ssl TLS_server_method then Some (fresh_ctx TLS_server_method) else None)\<rparr>))
    (bindc getc (\<lambda>a.
     thenc (guardc (ctx_I a \<noteq> None) err_create)
    (thenc (guardc (set_default_paths ssl TLS_server_method = 1) err_store)
    (thenc (upd_I (\<lambda>c. c\<lparr>ctx_default_paths := True\<rparr>))
           (upd_I (\<lambda>c. c\<lparr>ctx_verify_peer := True\<rparr>))))))"

definition init_inbound_creds :: "openssl \<Rightarrow> string \<Rightarrow> string \<Rightarrow> (app_context, unit) comp" where
  "init_inbound_creds ssl key cert =
     thenc (modifyc (\<lambda>a. a\<lparr>ctx_I :=
              (if SSL_CTX_new ssl TLS_server_method then Some (fresh_ctx TLS_server_method) else None)\<rparr>))
    (bindc getc (\<lambda>a.
     thenc (guardc (ctx_I a \<noteq> None) err_create)
    (thenc (upd_I (\<lambda>c. c\<lparr>ctx_options := ctx_options c \<union>
              {SSL_OP_ALL, SSL_OP_NO_SSLv2, SSL_OP_NO_SSLv3, SSL_OP_NO_COMPRESSION,
               SSL_OP_NO_SESSION_RESUMPTION_ON_RENEGOTIATION, SSL_OP_SINGLE_ECDH_USE, SSL_OP_NO_TICKET,
               SSL_OP_CIPHER_SERVER_PREFERENCE}\<rparr>))
    (thenc (guardc (use_PrivateKey_file ssl TLS_server_method key = 1) err_key)
    (thenc (upd_I (\<lambda>c. c\<lparr>ctx_private_key := Some key\<rparr>))
    (thenc (guardc (use_certificate_file ssl TLS_server_method cert = 1) err_cert)
    (thenc (upd_I (\<lambda>c. c\<lparr>ctx_certificate := Some cert\<rparr>))
    (thenc (guardc (check_private_key ssl TLS_server_method key cert = 1) err_check)
           (upd_I (\<lambda>c. c\<lparr>ctx_alpn_select_cb := True\<rparr>))))))))))"

definition init_outbound_system :: "openssl \<Rightarrow> (app_context, unit) comp" where
  "init_outbound_system ssl =
     thenc (modifyc (\<lambda>a. a\<lparr>ctx_O :=
              (if SSL_CTX_new ssl TLS_client_method then Some (fresh_ctx TLS_client_method) else None)\<rparr>))
    (bindc getc (\<lambda>a.
     thenc (guardc (ctx_O a \<noteq> None) err_create)
    (thenc (upd_O (\<lambda>c. c\<lparr>ctx_options := ctx_options c \<union>
              {SSL_OP_ALL, SSL_OP_NO_SSLv2, SSL_OP_NO_SSLv3, SSL_OP_NO_COMPRESSION,
               SSL_OP_NO_SESSION_RESUMPTION_ON_RENEGOTIATION, SSL_OP_SINGLE_ECDH_USE, SSL_OP_NO_TICKET}\<rparr>))
    (thenc (guardc (set_default_paths ssl TLS_client_method = 1) err_paths)
    (thenc (upd_O (\<lambda>c. c\<lparr>ctx_default_paths := True\<rparr>))
           (upd_O (\<lambda>c. c\<lparr>ctx_verify_peer := True\<rparr>)))))))"

definition init_outbound_creds :: "openssl \<Rightarrow> string \<Rightarrow> string \<Rightarrow> (app_context, unit) comp" where
  "init_outbound_creds ssl key cert =
     thenc (modifyc (\<lambda>a. a\<lparr>ctx_O :=
              (if SSL_CTX_new ssl TLS_client_method then Some (fresh_ctx TLS_client_method) else None)\<rparr>))
    (bindc getc (\<lambda>a.
     thenc (guardc (ctx_O a \<noteq> None) err_create)
    (thenc (upd_O (\<lambda>c. c\<lparr>ctx_options := ctx_options c \<union>
              {SSL_OP_ALL, SSL_OP_NO_SSLv2, SSL_OP_NO_SSLv3, SSL_OP_NO_COMPRESSION,
               SSL_OP_NO_SESSION_RESUMPTION_ON_RENEGOTIATION, SSL_OP_SINGLE_ECDH_USE, SSL_OP_NO_TICKET}\<rparr>))
    (thenc (guardc (use_PrivateKey_file ssl TLS_client_method key = 1) err_key)
    (thenc (upd_O (\<lambda>c. c\<lparr>ctx_private_key := Some key\<rparr>))
    (thenc (guardc (use_certificate_file ssl TLS_client_method cert = 1) err_cert)
    (thenc (upd_O (\<lambda>c. c\<lparr>ctx_certificate := Some cert\<rparr>))
    (thenc (guardc (check_private_key ssl TLS_client_method key cert = 1) err_check)
           (upd_O (\<lambda>c. c\<lparr>ctx_verify_peer := True\<rparr>))))))))))"

definition app_context_init :: "openssl \<Rightarrow> (app_context, unit) comp" where
  "app_context_init ssl a =
     (case ctx_creds a of
        Some c \<Rightarrow> thenc (init_inbound_creds ssl (keyfile c) (certfile c))
                        (init_outbound_creds ssl (keyfile c) (certfile c)) a
      | None \<Rightarrow> thenc (init_inbound_system ssl) (init_outbound_system ssl) a)"

text \<open>A constructor that throws leaves no object.\<close>

definition app_context_make :: "openssl \<Rightarrow> ssl_creds option \<Rightarrow> app_context result" where
  "app_context_make ssl c =
     (case app_context_init ssl \<lparr>ctx_creds = c, ctx_I = None, ctx_O = None\<rparr> of
        (Inl e, _) \<Rightarrow> Inl e
      | (Inr _, a) \<Rightarrow> Inr a)"

definition hash_app_context :: "app_context \<Rightarrow> size_t" where
  "hash_app_context c = 0"

section \<open>Specification: a checklist and the contexts it guards\<close>

fun first_failed :: "(bool \<times> exn) list \<Rightarrow> exn option" where
  "first_failed [] = None"
| "first_failed ((ok, e) # cs) = (if ok then first_failed cs else Some e)"

definition creds_checks :: "openssl \<Rightarrow> ssl_method \<Rightarrow> ssl_creds \<Rightarrow> (bool \<times> exn) list" where
  "creds_checks ssl m c =
     [(SSL_CTX_new ssl m, err_create),
      (use_PrivateKey_file ssl m (keyfile c) = 1, err_key),
      (use_certificate_file ssl m (certfile c) = 1, err_cert),
      (check_private_key ssl m (keyfile c) (certfile c) = 1, err_check)]"

definition system_checks :: "openssl \<Rightarrow> ssl_method \<Rightarrow> exn \<Rightarrow> (bool \<times> exn) list" where
  "system_checks ssl m e = [(SSL_CTX_new ssl m, err_create), (set_default_paths ssl m = 1, e)]"

definition hardened :: "ssl_op set" where
  "hardened = {SSL_OP_ALL, SSL_OP_NO_SSLv2, SSL_OP_NO_SSLv3, SSL_OP_NO_COMPRESSION,
     SSL_OP_NO_SESSION_RESUMPTION_ON_RENEGOTIATION, SSL_OP_SINGLE_ECDH_USE, SSL_OP_NO_TICKET}"

lemmas context_defs = app_context_make_def app_context_init_def init_inbound_creds_def
  init_outbound_creds_def init_inbound_system_def init_outbound_system_def upd_I_def upd_O_def
  thenc_def bindc_def guardc_def guard_def modifyc_def getc_def fresh_ctx_def

lemma first_failed_None: "first_failed cs = None \<longleftrightarrow> (\<forall>c\<in>set cs. fst c)"
  by (induction cs rule: first_failed.induct) auto

lemma first_failed_in: "first_failed cs = Some e \<Longrightarrow> e \<in> snd ` set cs"
  by (induction cs rule: first_failed.induct) (auto split: if_splits)

section \<open>Properties\<close>

text \<open>
  With credentials the construction makes eight checks in this order, the first
  that fails deciding the exception, and otherwise gives a server context and a
  client context that both hold the key and the certificate and refuse SSLv2, SSLv3,
  compression and tickets; the server selects the ALPN protocol and does not ask the
  client for a certificate, the client verifies the server.
\<close>

theorem context_with_credentials:
  "app_context_make ssl (Some c) =
     (case first_failed (creds_checks ssl TLS_server_method c @ creds_checks ssl TLS_client_method c) of
        Some e \<Rightarrow> Inl e
      | None \<Rightarrow> Inr
          \<lparr>ctx_creds = Some c,
           ctx_I = Some \<lparr>ctx_method = TLS_server_method,
             ctx_options = insert SSL_OP_CIPHER_SERVER_PREFERENCE hardened,
             ctx_default_paths = False, ctx_verify_peer = False, ctx_private_key = Some (keyfile c),
             ctx_certificate = Some (certfile c), ctx_alpn_select_cb = True\<rparr>,
           ctx_O = Some \<lparr>ctx_method = TLS_client_method, ctx_options = hardened,
             ctx_default_paths = False, ctx_verify_peer = True, ctx_private_key = Some (keyfile c),
             ctx_certificate = Some (certfile c), ctx_alpn_select_cb = False\<rparr>\<rparr>)"
  by (simp add: context_defs creds_checks_def hardened_def insert_commute)

text \<open>
  Without credentials the two contexts differ: the outbound one is hardened and
  verifies the server against the system's certificates, but the inbound one has no
  certificate, no option set (SSLv3 and tickets stay allowed) and no ALPN callback.
\<close>

theorem context_without_credentials:
  "app_context_make ssl None =
     (case first_failed (system_checks ssl TLS_server_method err_store @
                         system_checks ssl TLS_client_method err_paths) of
        Some e \<Rightarrow> Inl e
      | None \<Rightarrow> Inr
          \<lparr>ctx_creds = None,
           ctx_I = Some \<lparr>ctx_method = TLS_server_method, ctx_options = {},
             ctx_default_paths = True, ctx_verify_peer = True, ctx_private_key = None,
             ctx_certificate = None, ctx_alpn_select_cb = False\<rparr>,
           ctx_O = Some \<lparr>ctx_method = TLS_client_method, ctx_options = hardened,
             ctx_default_paths = True, ctx_verify_peer = True, ctx_private_key = None,
             ctx_certificate = None, ctx_alpn_select_cb = False\<rparr>\<rparr>)"
  by (simp add: context_defs system_checks_def hardened_def)

end
