(* ===== verification/Session.thy ===== *)
theory Session
  imports Stream Address Context
begin

text \<open>
  HTTP/2 sessions over TLS (\<open>include/wshttp/session.hpp\<close>, \<open>src/session.cpp\<close>): the
  libevent and nghttp2 callbacks of a connection, inbound and outbound. A member
  function works on the session and its surroundings (\<open>io_env\<close>: the event loop, the
  parser, the descriptors); what the libraries answer is the parameter \<open>session_lib\<close>.
  A function that begins with \<open>assert(_ep.in_event_loop())\<close> goes on only on the loop's
  thread, where \<open>_ep.call_get(f)\<close> is the call of \<open>f\<close> (\<open>Loop.call_get\<close>).
\<close>

section \<open>Constants of the libraries\<close>

definition BEV_EVENT_EOF :: "16 word" where [const_defs]: "BEV_EVENT_EOF = 0x10"
definition BEV_EVENT_ERROR :: "16 word" where [const_defs]: "BEV_EVENT_ERROR = 0x20"
definition BEV_EVENT_TIMEOUT :: "16 word" where [const_defs]: "BEV_EVENT_TIMEOUT = 0x40"
definition BEV_EVENT_CONNECTED :: "16 word" where [const_defs]: "BEV_EVENT_CONNECTED = 0x80"
definition NGHTTP2_DATA :: byte where [const_defs]: "NGHTTP2_DATA = 0"
definition NGHTTP2_HEADERS :: byte where [const_defs]: "NGHTTP2_HEADERS = 1"
definition NGHTTP2_HCAT_REQUEST :: nat where [const_defs]: "NGHTTP2_HCAT_REQUEST = 0"
definition NGHTTP2_HCAT_RESPONSE :: nat where [const_defs]: "NGHTTP2_HCAT_RESPONSE = 1"
definition NGHTTP2_FLAG_END_STREAM :: byte where [const_defs]: "NGHTTP2_FLAG_END_STREAM = 1"
definition NGHTTP2_SETTINGS_MAX_CONCURRENT_STREAMS :: u32 where
  [const_defs]: "NGHTTP2_SETTINGS_MAX_CONCURRENT_STREAMS = 3"

definition OUTPUT_BLOCK_THRESHOLD :: nat where "OUTPUT_BLOCK_THRESHOLD = 65536"
definition default_ALPN :: "byte list" where "default_ALPN = usp ''h2''"

section \<open>State\<close>

text \<open>
  The closures in the job queue, by what they capture: those of the library, and those that
  its user hands to \<open>call\<close> and \<open>call_soon\<close>, which may queue further ones before they end or
  throw. (The closures that delete an object are in \<open>Owners\<close>, those of \<open>call_get\<close> in
  \<open>Loop_Threads\<close>; what else a user's closure asks of the endpoint is a step of its own.)
\<close>

datatype job =
    Inbound_close nat    \<comment> \<open>the inbound session\<close>
  | Outbound_close nat   \<comment> \<open>the outbound session\<close>
  | Listener_close nat   \<comment> \<open>the listener\<close>
  | Close_all_listeners  \<comment> \<open>the endpoint that shuts down\<close>
  | User_closure "job list" "exn option"  \<comment> \<open>what it queues and throws\<close>

fun from_user :: "job \<Rightarrow> bool" where
  "from_user (User_closure js x) \<longleftrightarrow> list_all from_user js"
| "from_user _ \<longleftrightarrow> False"

fun queued_by :: "job \<Rightarrow> job list" where
  "queued_by (User_closure js x) = js"
| "queued_by _ = []"

text \<open>The callbacks registered with nghttp2.\<close>

datatype session_callback =
    cb_stream_close | cb_send | cb_frame_recv | cb_begin_headers | cb_header | cb_data_chunk

record session =
  sess_this :: nat
  sess_fd :: int
  sess_path :: conn_path
  sess_ssl :: bool
  sess_bev :: bool
  sess_input :: "byte list"    \<comment> \<open>the input buffer of the bufferevent\<close>
  sess_output :: "byte list"   \<comment> \<open>its output buffer\<close>
  sess_bev_cbs :: bool
  sess_nghttp2 :: "session_callback set option"  \<comment> \<open>the nghttp2 session, once there is one\<close>
  sess_streams :: "u32 \<rightharpoonup> stream"
  sess_user_data :: "int \<rightharpoonup> u32"  \<comment> \<open>nghttp2's stream user data: the stream it points to\<close>
  sess_is_outbound :: bool
  sess_host :: string

record frame =
  hd_type :: byte
  hd_flags :: byte
  hd_stream_id :: int
  headers_cat :: nat

type_synonym ('u, 'z) env = "(job, 'u, 'z) io_env_scheme"
type_synonym ('u, 'z, 'a) sop = "(session \<times> ('u, 'z) env, 'a) comp"

record ('u, 'z) session_lib =
  sl_ada :: "'u ada_api"
  sl_stream :: stream_lib
  sl_net :: net_api
  sl_big_endian :: bool
  sl_html :: "u64 \<times> u64"
  SSL_new :: bool
  bufferevent_new :: bool
  bev_getfd :: int
  set_nodelay :: int
  getsockname :: "int \<times> sockaddr"
  connect_hostname :: "string \<Rightarrow> int"
  alpn_selected :: "byte list"
  nghttp2_option_new :: int
  nghttp2_server_new :: int
  nghttp2_client_new :: int
  nghttp2_submit_settings :: int
  nghttp2_terminate :: int
  want_read :: bool
  want_write :: bool
  mem_recv :: "byte list \<Rightarrow> ('u, 'z, int) sop"  \<comment> \<open>it runs the registered callbacks\<close>
  session_send :: "('u, 'z, int) sop"              \<comment> \<open>it runs the send callback\<close>

definition session_new :: "nat \<Rightarrow> int \<Rightarrow> conn_path \<Rightarrow> bool \<Rightarrow> string \<Rightarrow> session" where
  "session_new this fd p outbound host =
     \<lparr>sess_this = this, sess_fd = fd, sess_path = p, sess_ssl = False, sess_bev = False,
      sess_input = [], sess_output = [], sess_bev_cbs = False, sess_nghttp2 = None,
      sess_streams = Map.empty, sess_user_data = Map.empty, sess_is_outbound = outbound,
      sess_host = host\<rparr>"

section \<open>Building blocks\<close>

definition in_loop :: "tid \<Rightarrow> ('u, 'z, 'a) sop \<Rightarrow> ('u, 'z, 'a) sop" where
  "in_loop t m se = (if in_event_loop t (snd se) then m se else (Inl assert_failed, se))"

definition this_session :: "('u, 'z, session) sop" where
  "this_session se = (Inr (fst se), se)"

definition upd_session :: "(session \<Rightarrow> session) \<Rightarrow> ('u, 'z, unit) sop" where
  "upd_session f se = (Inr (), (f (fst se), snd se))"

definition upd_env :: "(('u, 'z) env \<Rightarrow> ('u, 'z) env) \<Rightarrow> ('u, 'z, unit) sop" where
  "upd_env f se = (Inr (), (fst se, f (snd se)))"

definition of_result :: "'a result \<Rightarrow> ('u, 'z, 'a) sop" where
  "of_result r se = (r, se)"

text \<open>
  \<open>throw std::runtime_error{"..."_format(a)}\<close> for an address \<open>a\<close>: the message is made
  first, so an address that cannot be printed changes the exception. (An exception while
  a log message is formatted goes no further than the logger.)
\<close>

definition throw_about :: "('u, 'z) session_lib \<Rightarrow> ip_address \<Rightarrow> exn \<Rightarrow> ('u, 'z, 'a) sop" where
  "throw_about lib a err =
     (case ip_to_string (sl_net lib) (sl_big_endian lib) a of Inl x \<Rightarrow> throwc x | Inr _ \<Rightarrow> throwc err)"

lemma throw_about_apply [simp]:
  "throw_about lib a err se =
     (Inl (case ip_to_string (sl_net lib) (sl_big_endian lib) a of Inl x \<Rightarrow> x | Inr _ \<Rightarrow> err), se)"
  by (simp add: throw_about_def split: sum.split)

section \<open>\<open>session_base\<close>\<close>

text \<open>\<open>close_session\<close> only queues a job that captures \<open>this\<close>; the objects go later.\<close>

definition inbound_close_session :: "tid \<Rightarrow> ('u, 'z, unit) sop" where
  "inbound_close_session t =
     in_loop t (bindc this_session (\<lambda>s. upd_env (call_soon (Inbound_close (sess_this s)))))"

definition outbound_close_session :: "tid \<Rightarrow> ('u, 'z, unit) sop" where
  "outbound_close_session t =
     in_loop t (bindc this_session (\<lambda>s. upd_env (call_soon (Outbound_close (sess_this s)))))"

definition close_session :: "tid \<Rightarrow> ('u, 'z, unit) sop" where
  "close_session t =
     bindc this_session (\<lambda>s.
       if sess_is_outbound s then outbound_close_session t else inbound_close_session t)"

definition send_session_data :: "('u, 'z) session_lib \<Rightarrow> tid \<Rightarrow> ('u, 'z, unit) sop" where
  "send_session_data lib t =
     in_loop t
      (thenc (upd_env (note_call Session_send))
      (bindc (session_send lib) (\<lambda>rv.
         if rv \<noteq> 0
         then bindc this_session (\<lambda>s. throw_about lib (path_remote (sess_path s))
                (runtime_error ''Failed to dispatch session data to remote''))
         else returnc ())))"

definition read_session_data :: "('u, 'z) session_lib \<Rightarrow> tid \<Rightarrow> ('u, 'z, unit) sop" where
  "read_session_data lib t =
     in_loop t
      (bindc this_session (\<lambda>s. let input = sess_input s in
       thenc (upd_env (note_call (Session_mem_recv input)))
      (bindc (mem_recv lib input) (\<lambda>recv_len.
         if recv_len < 0 then close_session t else send_session_data lib t))))"

definition write_session_data :: "('u, 'z) session_lib \<Rightarrow> tid \<Rightarrow> ('u, 'z, unit) sop" where
  "write_session_data lib t =
     in_loop t
      (bindc this_session (\<lambda>s.
         if length (sess_output s) > 0 then returnc ()
         else if \<not> want_read lib \<and> \<not> want_write lib then close_session t
         else send_session_data lib t))"

definition send_hook :: "tid \<Rightarrow> byte list \<Rightarrow> ('u, 'z, int) sop" where
  "send_hook t data =
     in_loop t
      (bindc this_session (\<lambda>s.
         if length (sess_output s) \<ge> OUTPUT_BLOCK_THRESHOLD then returnc NGHTTP2_ERR_WOULDBLOCK
         else thenc (upd_session (\<lambda>s. s\<lparr>sess_output := sess_output s @ data\<rparr>))
                    (returnc (int (length data)))))"

section \<open>Starting the nghttp2 session\<close>

definition server_callbacks :: "session_callback set" where
  "server_callbacks = {cb_stream_close, cb_send, cb_frame_recv, cb_begin_headers, cb_header}"

definition inbound_initialize_session :: "('u, 'z) session_lib \<Rightarrow> tid \<Rightarrow> ('u, 'z, unit) sop" where
  "inbound_initialize_session lib t =
     in_loop t
      (thenc (guardc (nghttp2_option_new lib = 0)
               (runtime_error ''Failed to create nghttp2 session option struct''))
      (thenc (guardc (nghttp2_server_new lib = 0)
               (runtime_error ''Failed to initialize inbound session''))
             (upd_session (\<lambda>s. s\<lparr>sess_nghttp2 := Some server_callbacks\<rparr>))))"

definition learn_local :: "('u, 'z) session_lib \<Rightarrow> ('u, 'z, unit) sop \<Rightarrow> ('u, 'z, unit) sop" where
  "learn_local lib failed =
     thenc (if fst (getsockname lib) < 0 then failed else returnc ())
    (bindc (of_result (ip_address_of_sockaddr (sl_big_endian lib) (snd (getsockname lib)))) (\<lambda>a.
       upd_session (\<lambda>s. s\<lparr>sess_path := (sess_path s)\<lparr>path_local := a\<rparr>\<rparr>)))"

definition outbound_initialize_session :: "('u, 'z) session_lib \<Rightarrow> tid \<Rightarrow> ('u, 'z, unit) sop" where
  "outbound_initialize_session lib t =
     in_loop t
      (bindc this_session (\<lambda>s.
       thenc (guardc (sess_fd s \<noteq> - 1 \<and> 0 \<le> set_nodelay lib)
               (runtime_error ''Failed to set TCP_NODELAY on outbound session TLS socket''))
      (thenc (learn_local lib (throwc (runtime_error ''Failed to get local socket address for outbound'')))
      (thenc (guardc (nghttp2_client_new lib = 0)
               (runtime_error ''Failed to initialize outbound session''))
             (upd_session (\<lambda>s. s\<lparr>sess_nghttp2 := Some (insert cb_data_chunk server_callbacks)\<rparr>))))))"

definition initial_settings :: settings where
  "initial_settings = add_setting NGHTTP2_SETTINGS_MAX_CONCURRENT_STREAMS 100 settings_empty"

definition submit_initial :: "('u, 'z) session_lib \<Rightarrow> exn \<Rightarrow> ('u, 'z, unit) sop" where
  "submit_initial lib err =
     thenc (upd_env (note_call (Submit_settings (setting_list initial_settings))))
           (guardc (nghttp2_submit_settings lib = 0) err)"

definition inbound_send_initial :: "('u, 'z) session_lib \<Rightarrow> tid \<Rightarrow> ('u, 'z, unit) sop" where
  "inbound_send_initial lib t =
     in_loop t
      (thenc (submit_initial lib (runtime_error ''Failed to submit inbound session settings''))
             (send_session_data lib t))"

definition outbound_send_initial :: "('u, 'z) session_lib \<Rightarrow> tid \<Rightarrow> ('u, 'z, unit) sop" where
  "outbound_send_initial lib t =
     in_loop t (submit_initial lib (runtime_error ''Failed to submit outbound session settings''))"

definition config_send_initial :: "('u, 'z) session_lib \<Rightarrow> tid \<Rightarrow> ('u, 'z, unit) sop" where
  "config_send_initial lib t =
     in_loop t
      (bindc this_session (\<lambda>s.
         if sess_is_outbound s
         then thenc (outbound_initialize_session lib t) (outbound_send_initial lib t)
         else thenc (inbound_initialize_session lib t) (inbound_send_initial lib t)))"

text \<open>
  \<open>event_cb\<close> formats the session's path first (it may throw), then acts on the
  event.
\<close>

definition event_cb :: "('u, 'z) session_lib \<Rightarrow> tid \<Rightarrow> 16 word \<Rightarrow> ('u, 'z, unit) sop" where
  "event_cb lib t events =
     bindc this_session (\<lambda>s.
     bindc (of_result (path_to_string (sl_net lib) (sl_big_endian lib) (sess_path s))) (\<lambda>msg.
       if events AND BEV_EVENT_CONNECTED \<noteq> 0
       then (if alpn_selected lib = [] \<or> span_eq default_ALPN (alpn_selected lib)
             then config_send_initial lib t
             else close_session t)
       else close_session t))"

section \<open>Setting up the connection\<close>

text \<open>\<open>listener::new_ssl\<close> and \<open>node::new_ssl\<close> (whose message says inbound, too).\<close>

definition new_ssl :: "('u, 'z) session_lib \<Rightarrow> tid \<Rightarrow> ('u, 'z, unit) sop" where
  "new_ssl lib t = in_loop t (guardc (SSL_new lib) (runtime_error ''Failed to create SSL/TLS''))"

definition node_new_ssl :: "('u, 'z) session_lib \<Rightarrow> tid \<Rightarrow> ('u, 'z, unit) sop" where
  "node_new_ssl lib t =
     in_loop t (guardc (SSL_new lib) (runtime_error ''Failed to create SSL/TLS for inbound''))"

definition inbound_init_internals :: "('u, 'z) session_lib \<Rightarrow> tid \<Rightarrow> ('u, 'z, unit) sop" where
  "inbound_init_internals lib t =
     in_loop t
      (thenc (new_ssl lib t)
      (thenc (upd_session (\<lambda>s. s\<lparr>sess_ssl := True\<rparr>))
      (thenc (guardc (bufferevent_new lib)
               (runtime_error ''Failed to create bufferevent socket for inbound TLS session''))
      (thenc (upd_session (\<lambda>s. s\<lparr>sess_bev := True\<rparr>))
      (thenc (upd_session (\<lambda>s. s\<lparr>sess_fd := bev_getfd lib\<rparr>))
      (thenc (guardc (0 \<le> set_nodelay lib)
               (runtime_error ''Failed to set TCP_NODELAY on inbound session TLS socket''))
      (thenc (learn_local lib (bindc this_session (\<lambda>s. throw_about lib (path_remote (sess_path s))
               (runtime_error ''Failed to get local socket address for incoming''))))
             (upd_session (\<lambda>s. s\<lparr>sess_bev_cbs := True\<rparr>)))))))))"

definition outbound_init_internals :: "('u, 'z) session_lib \<Rightarrow> tid \<Rightarrow> ('u, 'z, unit) sop" where
  "outbound_init_internals lib t =
     in_loop t
      (thenc (node_new_ssl lib t)
      (thenc (upd_session (\<lambda>s. s\<lparr>sess_ssl := True\<rparr>))
      (thenc (guardc (bufferevent_new lib)
               (runtime_error ''Failed to create bufferevent socket for outbound TLS session''))
      (thenc (upd_session (\<lambda>s. s\<lparr>sess_bev := True\<rparr>))
      (thenc (upd_session (\<lambda>s. s\<lparr>sess_bev_cbs := True\<rparr>))
      (bindc this_session (\<lambda>s.
         guardc (connect_hostname lib (sess_host s) = 0)
           (runtime_error ''Could not connect to remote host''))))))))"

definition on_connect :: "tid \<Rightarrow> ('u, 'z, unit) sop" where
  "on_connect t = in_loop t (returnc ())"

section \<open>The nghttp2 callbacks\<close>

definition on_stream :: "u32 \<Rightarrow> ('u, 'z, int) sop \<Rightarrow>
    (stream \<Rightarrow> ('u, 'z) env \<Rightarrow> int result \<times> stream \<times> ('u, 'z) env) \<Rightarrow> ('u, 'z, int) sop" where
  "on_stream k absent f se =
     (case sess_streams (fst se) k of
        None \<Rightarrow> absent se
      | Some st \<Rightarrow>
          (case f st (snd se) of
             (rv, st', e') \<Rightarrow>
               (rv, ((fst se)\<lparr>sess_streams := (sess_streams (fst se))(k \<mapsto> st')\<rparr>, e'))))"

definition total_op :: "(job, 'u, 'z) stream_op \<Rightarrow>
    stream \<Rightarrow> ('u, 'z) env \<Rightarrow> int result \<times> stream \<times> ('u, 'z) env" where
  "total_op f st e = (case f st e of (rv, st', e') \<Rightarrow> (Inr rv, st', e'))"

definition stream_key :: "int \<Rightarrow> u32" where
  "stream_key i = word_of_int i"

definition is_headers :: "frame \<Rightarrow> nat \<Rightarrow> bool" where
  "is_headers f cat \<longleftrightarrow> hd_type f = NGHTTP2_HEADERS \<and> headers_cat f = cat"

text \<open>
  \<open>make_stream\<close> never returns a null pointer, so the source's check of its result
  has no branch here.
\<close>

definition make_stream :: "int \<Rightarrow> stream" where
  "make_stream i = stream_new INBOUND i"

definition inbound_begin_headers_hook :: "tid \<Rightarrow> frame \<Rightarrow> ('u, 'z, int) sop" where
  "inbound_begin_headers_hook t f =
     in_loop t
      (if \<not> is_headers f NGHTTP2_HCAT_REQUEST then returnc 0
       else bindc this_session (\<lambda>s.
         let i = hd_stream_id f; k = stream_key i in
         if sess_streams s k \<noteq> None then returnc 0
         else
           thenc (upd_session (\<lambda>s. s\<lparr>sess_streams := (sess_streams s)(k \<mapsto> make_stream i)\<rparr>))
          (thenc (upd_session (\<lambda>s. s\<lparr>sess_user_data := (sess_user_data s)(i \<mapsto> k)\<rparr>))
                 (returnc 0))))"

definition outbound_begin_headers_hook :: "tid \<Rightarrow> frame \<Rightarrow> ('u, 'z, int) sop" where
  "outbound_begin_headers_hook t f = in_loop t (returnc 0)"

definition inbound_recv_header_hook ::
  "('u, 'z) session_lib \<Rightarrow> tid \<Rightarrow> frame \<Rightarrow> byte list \<Rightarrow> byte list \<Rightarrow> ('u, 'z, int) sop" where
  "inbound_recv_header_hook lib t f name val =
     in_loop t
      (if \<not> is_headers f NGHTTP2_HCAT_REQUEST then returnc 0
       else if span_eq fields_path name
       then on_stream (stream_key (hd_stream_id f)) (returnc NGHTTP2_ERR_CALLBACK_FAILURE)
              (recv_path_header (sl_ada lib) val)
       else returnc 0)"

definition outbound_recv_header_hook :: "tid \<Rightarrow> frame \<Rightarrow> byte list \<Rightarrow> byte list \<Rightarrow> ('u, 'z, int) sop" where
  "outbound_recv_header_hook t f name val =
     in_loop t
      (if \<not> is_headers f NGHTTP2_HCAT_RESPONSE then returnc 0
       else on_stream (stream_key (hd_stream_id f)) (returnc NGHTTP2_ERR_CALLBACK_FAILURE)
              (total_op (recv_header (headers_of_pair name val NGHTTP2_NV_FLAG_NONE))))"

definition inbound_frame_recv_hook :: "('u, 'z) session_lib \<Rightarrow> tid \<Rightarrow> frame \<Rightarrow> ('u, 'z, int) sop" where
  "inbound_frame_recv_hook lib t f =
     in_loop t
      (if (hd_type f = NGHTTP2_DATA \<or> hd_type f = NGHTTP2_HEADERS) \<and>
          hd_flags f AND NGHTTP2_FLAG_END_STREAM \<noteq> 0
       then on_stream (stream_key (hd_stream_id f)) (returnc NGHTTP2_ERR_CALLBACK_FAILURE)
              (total_op (recv_frame (sl_big_endian lib) (sl_html lib) (sl_stream lib)))
       else returnc 0)"

definition outbound_frame_recv_hook :: "tid \<Rightarrow> frame \<Rightarrow> ('u, 'z, int) sop" where
  "outbound_frame_recv_hook t f = in_loop t (returnc 0)"

text \<open>\<open>_streams.erase(stream_id)\<close>: the number of streams erased; the last owner runs the deleter.\<close>

definition erase_stream :: "u32 \<Rightarrow> ('u, 'z, bool) sop" where
  "erase_stream k se =
     (case sess_streams (fst se) k of
        None \<Rightarrow> (Inr False, se)
      | Some st \<Rightarrow>
          (Inr True, (fst se)\<lparr>sess_streams := (sess_streams (fst se))(k := None)\<rparr>, stream_d st (snd se)))"

definition inbound_stream_close_hook :: "tid \<Rightarrow> int \<Rightarrow> u32 \<Rightarrow> ('u, 'z, int) sop" where
  "inbound_stream_close_hook t i error_code =
     in_loop t (bindc (erase_stream (stream_key i)) (\<lambda>_. returnc 0))"

definition outbound_stream_close_hook :: "('u, 'z) session_lib \<Rightarrow> tid \<Rightarrow> int \<Rightarrow> u32 \<Rightarrow> ('u, 'z, int) sop" where
  "outbound_stream_close_hook lib t i error_code =
     in_loop t
      (bindc (erase_stream (stream_key i)) (\<lambda>erased.
         if erased
         then thenc (upd_env (note_call Terminate_session))
               (if nghttp2_terminate lib \<noteq> 0 then returnc NGHTTP2_ERR_CALLBACK_FAILURE
                else thenc (outbound_close_session t) (returnc 0))
         else returnc 0))"

text \<open>
  \<open>on_data_chunk_recv_callback\<close> asks nghttp2 for the stream's user data and calls
  through the pointer.
\<close>

definition on_data_chunk_recv_callback :: "int \<Rightarrow> byte list \<Rightarrow> ('u, 'z, int) sop" where
  "on_data_chunk_recv_callback i data =
     bindc this_session (\<lambda>s.
       case sess_user_data s i of
         None \<Rightarrow> throwc null_deref
       | Some k \<Rightarrow> on_stream k (throwc use_after_free) (total_op (recv_data data)))"

section \<open>Destruction\<close>

text \<open>
  The members of a session go in the order streams, bufferevent; the bufferevent was
  made with \<open>BEV_OPT_CLOSE_ON_FREE\<close> and closes the descriptor it works on. \<open>ids\<close>
  is the order in which the map gives up its streams.
\<close>

definition session_destroy :: "u32 list \<Rightarrow> session \<Rightarrow> ('u, 'z) env \<Rightarrow> ('u, 'z) env" where
  "session_destroy ids s e =
     (let e1 = fold (\<lambda>k. case sess_streams s k of None \<Rightarrow> id | Some st \<Rightarrow> stream_d st) ids e
      in if sess_bev s then fd_close (sess_fd s) e1 else e1)"

text \<open>
  Construction on a descriptor the listener has accepted; an exception destroys the
  members that were set up. The session is returned where there is one.
\<close>

definition inbound_session_make :: "('u, 'z) session_lib \<Rightarrow> tid \<Rightarrow> nat \<Rightarrow> ip_address \<Rightarrow> int \<Rightarrow>
    ('u, 'z) env \<Rightarrow> session result \<times> ('u, 'z) env" where
  "inbound_session_make lib t this remote fd e =
     (case inbound_init_internals lib t
            (session_new this fd \<lparr>path_local = ip_address_of_port 0, path_remote = remote\<rparr> False [], e) of
        (Inl x, (s, e')) \<Rightarrow> (Inl x, session_destroy [] s e')
      | (Inr _, (s, e')) \<Rightarrow> (Inr s, e'))"

definition outbound_session_make :: "('u, 'z) session_lib \<Rightarrow> tid \<Rightarrow> nat \<Rightarrow> string \<Rightarrow> int \<Rightarrow>
    ip_address option \<Rightarrow> ('u, 'z) env \<Rightarrow> session result \<times> ('u, 'z) env" where
  "outbound_session_make lib t this host fd local e =
     (let l = (case local of None \<Rightarrow> ip_address_of_port 0 | Some a \<Rightarrow> a) in
      case outbound_init_internals lib t
            (session_new this fd \<lparr>path_local = l, path_remote = ip_address_of_port 0\<rparr> True host, e) of
        (Inl x, (s, e')) \<Rightarrow> (Inl x, session_destroy [] s e')
      | (Inr _, (s, e')) \<Rightarrow> (Inr s, e'))"

end
