(* ===== verification/Session_Hooks.thy ===== *)
theory Session_Hooks
  imports Session
begin

text \<open>
  What nghttp2 may rely on when it calls into a session: the contract of the four
  hooks as a locale, the runs of a session over any sequence of events, and the two
  classes of sessions as instances.
\<close>

section \<open>Events and runs\<close>

datatype event =
    Ev_begin_headers frame
  | Ev_header frame "byte list" "byte list"
  | Ev_frame frame
  | Ev_close int u32

record ('u, 'z) hooks =
  begin_headers_hook :: "frame \<Rightarrow> ('u, 'z, int) sop"
  recv_header_hook :: "frame \<Rightarrow> byte list \<Rightarrow> byte list \<Rightarrow> ('u, 'z, int) sop"
  frame_recv_hook :: "frame \<Rightarrow> ('u, 'z, int) sop"
  stream_close_hook :: "int \<Rightarrow> u32 \<Rightarrow> ('u, 'z, int) sop"

definition inbound_hooks :: "('u, 'z) session_lib \<Rightarrow> tid \<Rightarrow> ('u, 'z) hooks" where
  "inbound_hooks lib t =
     \<lparr>begin_headers_hook = inbound_begin_headers_hook t,
      recv_header_hook = inbound_recv_header_hook lib t,
      frame_recv_hook = inbound_frame_recv_hook lib t,
      stream_close_hook = inbound_stream_close_hook t\<rparr>"

definition outbound_hooks :: "('u, 'z) session_lib \<Rightarrow> tid \<Rightarrow> ('u, 'z) hooks" where
  "outbound_hooks lib t =
     \<lparr>begin_headers_hook = outbound_begin_headers_hook t,
      recv_header_hook = outbound_recv_header_hook t,
      frame_recv_hook = outbound_frame_recv_hook t,
      stream_close_hook = outbound_stream_close_hook lib t\<rparr>"

text \<open>
  The static callbacks \<open>on_begin_headers_callback\<close>, \<open>on_header_callback\<close>,
  \<open>on_frame_recv_callback\<close> and \<open>on_stream_close_callback\<close>: a virtual call.
\<close>

fun on_event :: "('u, 'z) hooks \<Rightarrow> event \<Rightarrow> ('u, 'z, int) sop" where
  "on_event h (Ev_begin_headers f) = begin_headers_hook h f"
| "on_event h (Ev_header f n v) = recv_header_hook h f n v"
| "on_event h (Ev_frame f) = frame_recv_hook h f"
| "on_event h (Ev_close i ec) = stream_close_hook h i ec"

fun run_events :: "('u, 'z) hooks \<Rightarrow> event list \<Rightarrow> ('u, 'z, int list) sop" where
  "run_events h [] = returnc []"
| "run_events h (ev # evs) =
     bindc (on_event h ev) (\<lambda>rv. bindc (run_events h evs) (\<lambda>rvs. returnc (rv # rvs)))"

section \<open>The contract\<close>

locale session_hooks =
  fixes h :: "('u, 'z) hooks"
    and ok :: "event \<Rightarrow> bool"
    and inv :: "session \<times> ('u, 'z) env \<Rightarrow> bool"
    and abs :: "session \<times> ('u, 'z) env \<Rightarrow> 'a"
    and spec :: "event \<Rightarrow> 'a \<Rightarrow> 'a"
    and codes :: "event \<Rightarrow> 'a \<Rightarrow> int set"
  assumes step: "inv se \<Longrightarrow> ok ev \<Longrightarrow>
    \<exists>rv se'. on_event h ev se = (Inr rv, se') \<and> inv se' \<and> abs se' = spec ev (abs se) \<and>
             rv \<in> codes ev (abs se)"
begin

text \<open>A run never throws, keeps the invariant, follows the specification and answers with its codes.\<close>

theorem run:
  "inv se \<Longrightarrow> \<forall>ev \<in> set evs. ok ev \<Longrightarrow>
     \<exists>rvs se'. run_events h evs se = (Inr rvs, se') \<and> inv se' \<and> abs se' = fold spec evs (abs se) \<and>
       length rvs = length evs \<and>
       (\<forall>i < length evs. rvs ! i \<in> codes (evs ! i) (fold spec (take i evs) (abs se)))"
proof (induction evs arbitrary: se)
  case Nil
  then show ?case by simp
next
  case (Cons ev evs)
  then obtain rv se1 where 1: "on_event h ev se = (Inr rv, se1)" "inv se1"
    "abs se1 = spec ev (abs se)" "rv \<in> codes ev (abs se)"
    using step [of se ev] by auto
  with Cons.IH [of se1] Cons.prems(2) obtain rvs se2 where 2: "run_events h evs se1 = (Inr rvs, se2)"
    "inv se2" "abs se2 = fold spec evs (abs se1)" "length rvs = length evs"
    "\<forall>i < length evs. rvs ! i \<in> codes (evs ! i) (fold spec (take i evs) (abs se1))"
    by auto
  have "run_events h (ev # evs) se = (Inr (rv # rvs), se2)" using 1(1) 2(1) by simp
  moreover have "\<forall>i < length (ev # evs).
      (rv # rvs) ! i \<in> codes ((ev # evs) ! i) (fold spec (take i (ev # evs)) (abs se))"
    using 1(3,4) 2(5) by (auto simp: less_Suc_eq_0_disj)
  ultimately show ?case using 1 2 by auto
qed

corollary run_inv:
  assumes "inv se" and "\<forall>ev \<in> set evs. ok ev" and "run_events h evs se = (r, se')"
  shows "inv se' \<and> (\<exists>rvs. r = Inr rvs)"
  using run [OF assms(1,2)] assms(3) by auto

end

section \<open>Inbound sessions\<close>

text \<open>
  The invariant: on the loop's thread, every stream is an inbound one and filed under
  its own id.
\<close>

definition wf_session :: "session \<Rightarrow> bool" where
  "wf_session s \<longleftrightarrow>
     (\<forall>k st. sess_streams s k = Some st \<longrightarrow> stream_dir st = INBOUND \<and> stream_key (stream_id st) = k)"

definition inbound_inv :: "tid \<Rightarrow> session \<times> ('u, 'z) env \<Rightarrow> bool" where
  "inbound_inv t se \<longleftrightarrow> in_event_loop t (snd se) \<and> wf_session (fst se)"

definition open_streams :: "session \<times> ('u, 'z) env \<Rightarrow> u32 set" where
  "open_streams se = dom (sess_streams (fst se))"

fun inbound_spec :: "event \<Rightarrow> u32 set \<Rightarrow> u32 set" where
  "inbound_spec (Ev_begin_headers f) S =
     (if is_headers f NGHTTP2_HCAT_REQUEST then insert (stream_key (hd_stream_id f)) S else S)"
| "inbound_spec (Ev_close i _) S = S - {stream_key i}"
| "inbound_spec _ S = S"

definition ends_request :: "frame \<Rightarrow> bool" where
  "ends_request f \<longleftrightarrow>
     (hd_type f = NGHTTP2_DATA \<or> hd_type f = NGHTTP2_HEADERS) \<and> hd_flags f AND NGHTTP2_FLAG_END_STREAM \<noteq> 0"

fun inbound_codes :: "event \<Rightarrow> u32 set \<Rightarrow> int set" where
  "inbound_codes (Ev_header f n v) S =
     (if is_headers f NGHTTP2_HCAT_REQUEST \<and> n = fields_path \<and> stream_key (hd_stream_id f) \<notin> S
      then {NGHTTP2_ERR_CALLBACK_FAILURE} else {0})"
| "inbound_codes (Ev_frame f) S =
     (if \<not> ends_request f then {0}
      else if stream_key (hd_stream_id f) \<in> S then {0, NGHTTP2_ERR_FATAL}
      else {NGHTTP2_ERR_CALLBACK_FAILURE})"
| "inbound_codes _ S = {0}"

lemma in_event_loop_cong: "loop_thread_id e' = loop_thread_id e \<Longrightarrow> in_event_loop t e' = in_event_loop t e"
  by (simp add: in_event_loop_def)

lemma in_loop_in [simp]: "in_event_loop t (snd se) \<Longrightarrow> in_loop t m se = m se"
  by (simp add: in_loop_def)

lemma recv_frame_keeps:
  assumes "recv_frame be html lib st e = (rv, st', e')"
  shows "stream_dir st' = stream_dir st \<and> stream_id st' = stream_id st \<and>
         stream_req st' = stream_req st \<and> loop_thread_id e' = loop_thread_id e \<and>
         job_queue e' = job_queue e \<and> rv \<in> {0, NGHTTP2_ERR_FATAL}"
  using assms
  by (auto simp: recv_frame_eq send_error_eq Let_def frame_simps split: option.splits if_splits)

lemma recv_path_header_ok:
  "\<exists>u p. recv_path_header ada path st e = (Inr 0, st\<lparr>stream_req := u\<rparr>, e\<lparr>url_state := p\<rparr>)"
  by (simp add: recv_path_header_def uri_parse_eq split: option.split) blast

lemma stream_d_thread [frame_simps]:
  "loop_thread_id (stream_d st e) = loop_thread_id e" "job_queue (stream_d st e) = job_queue e"
  by (simp_all add: stream_d_def frame_simps)

lemma wf_session_upd: "wf_session s \<Longrightarrow> stream_dir st = INBOUND \<Longrightarrow> stream_key (stream_id st) = k \<Longrightarrow>
    wf_session (s\<lparr>sess_streams := (sess_streams s)(k \<mapsto> st)\<rparr>)"
  by (simp add: wf_session_def)

lemma wf_session_user [simp]: "wf_session (s\<lparr>sess_user_data := u\<rparr>) = wf_session s"
  by (simp add: wf_session_def)

definition unpathed :: "session \<Rightarrow> bool" where
  "unpathed s \<longleftrightarrow> (\<forall>k st. sess_streams s k = Some st \<longrightarrow> stream_req st = uri_default)"

text \<open>The four hooks of an inbound session, one lemma each.\<close>

lemma inbound_begin:
  assumes "inbound_inv t se"
  shows "\<exists>se'. inbound_begin_headers_hook t f se = (Inr 0, se') \<and> inbound_inv t se' \<and>
           open_streams se' = inbound_spec (Ev_begin_headers f) (open_streams se) \<and>
           (unpathed (fst se) \<longrightarrow> unpathed (fst se'))"
  using assms
  by (cases se)
    (auto simp: inbound_begin_headers_hook_def inbound_inv_def bindc_def thenc_def this_session_def
      upd_session_def Let_def open_streams_def make_stream_def stream_new_def unpathed_def wf_session_def
      returnc_def)

lemma inbound_header:
  assumes "inbound_inv t se"
  shows "\<exists>rv se'. inbound_recv_header_hook lib t f n v se = (Inr rv, se') \<and> inbound_inv t se' \<and>
           open_streams se' = open_streams se \<and> rv \<in> inbound_codes (Ev_header f n v) (open_streams se) \<and>
           (n \<noteq> fields_path \<longrightarrow> unpathed (fst se) \<longrightarrow> unpathed (fst se'))"
proof (cases "is_headers f NGHTTP2_HCAT_REQUEST \<and> n = fields_path")
  case True
  show ?thesis
  proof (cases "sess_streams (fst se) (stream_key (hd_stream_id f))")
    case None
    then show ?thesis
      using True assms
      by (auto simp: inbound_recv_header_hook_def inbound_inv_def on_stream_def open_streams_def)
  next
    case (Some st)
    obtain u p where r: "recv_path_header (sl_ada lib) v st (snd se) =
        (Inr 0, st\<lparr>stream_req := u\<rparr>, (snd se)\<lparr>url_state := p\<rparr>)"
      using recv_path_header_ok by blast
    have st: "stream_dir st = INBOUND" "stream_key (stream_id st) = stream_key (hd_stream_id f)"
      using assms Some by (auto simp: inbound_inv_def wf_session_def)
    show ?thesis
      using True assms Some r st
      by (auto simp: inbound_recv_header_hook_def inbound_inv_def on_stream_def open_streams_def
          in_event_loop_def intro!: wf_session_upd)
  qed
next
  case False
  then have "inbound_recv_header_hook lib t f n v se = (Inr 0, se)"
    using assms unfolding inbound_recv_header_hook_def inbound_inv_def by auto
  then show ?thesis using assms False by auto
qed

lemma inbound_frame:
  assumes "inbound_inv t se"
  shows "\<exists>rv se'. inbound_frame_recv_hook lib t f se = (Inr rv, se') \<and> inbound_inv t se' \<and>
           open_streams se' = open_streams se \<and> rv \<in> inbound_codes (Ev_frame f) (open_streams se) \<and>
           (unpathed (fst se) \<longrightarrow> unpathed (fst se'))"
proof (cases "ends_request f")
  case True
  show ?thesis
  proof (cases "sess_streams (fst se) (stream_key (hd_stream_id f))")
    case None
    then show ?thesis
      using True assms
      by (auto simp: inbound_frame_recv_hook_def ends_request_def inbound_inv_def on_stream_def
          open_streams_def)
  next
    case (Some st)
    obtain rv st' e' where r: "recv_frame (sl_big_endian lib) (sl_html lib) (sl_stream lib) st (snd se) =
        (rv, st', e')" by (metis surj_pair)
    note k = recv_frame_keeps [OF r]
    have st: "stream_dir st = INBOUND" "stream_key (stream_id st) = stream_key (hd_stream_id f)"
      using assms Some by (auto simp: inbound_inv_def wf_session_def)
    show ?thesis
      using True assms Some r k st
      by (auto simp: inbound_frame_recv_hook_def ends_request_def inbound_inv_def on_stream_def
          open_streams_def in_event_loop_def total_op_def unpathed_def intro!: wf_session_upd)
  qed
next
  case False
  then have "inbound_frame_recv_hook lib t f se = (Inr 0, se)"
    using assms unfolding inbound_frame_recv_hook_def ends_request_def inbound_inv_def by auto
  then show ?thesis using assms False by auto
qed

lemma inbound_close:
  assumes "inbound_inv t se"
  shows "\<exists>se'. inbound_stream_close_hook t i ec se = (Inr 0, se') \<and> inbound_inv t se' \<and>
           open_streams se' = inbound_spec (Ev_close i ec) (open_streams se) \<and>
           (unpathed (fst se) \<longrightarrow> unpathed (fst se'))"
  using assms
  by (cases se, cases "sess_streams (fst se) (stream_key i)")
    (auto simp: inbound_stream_close_hook_def inbound_inv_def bindc_def erase_stream_def open_streams_def
      in_event_loop_def frame_simps unpathed_def wf_session_def returnc_def)

interpretation inb: session_hooks "inbound_hooks lib t" "\<lambda>_. True" "inbound_inv t" open_streams
  inbound_spec inbound_codes for lib :: "('u, 'z) session_lib" and t
proof
  fix se :: "session \<times> ('u, 'z) env" and ev
  assume i: "inbound_inv t se"
  show "\<exists>rv se'. on_event (inbound_hooks lib t) ev se = (Inr rv, se') \<and> inbound_inv t se' \<and>
    open_streams se' = inbound_spec ev (open_streams se) \<and> rv \<in> inbound_codes ev (open_streams se)"
  proof (cases ev)
    case (Ev_begin_headers f) then show ?thesis
      using inbound_begin [OF i, of f] by (auto simp: inbound_hooks_def)
  next
    case (Ev_header f n v) then show ?thesis
      using inbound_header [OF i, of lib f n v] by (auto simp: inbound_hooks_def)
  next
    case (Ev_frame f) then show ?thesis
      using inbound_frame [OF i, of lib f] by (auto simp: inbound_hooks_def)
  next
    case (Ev_close j ec) then show ?thesis
      using inbound_close [OF i, of j ec] by (auto simp: inbound_hooks_def)
  qed
qed

text \<open>The same hooks while no header name has the NUL byte of the literal \<open>":path"_usp\<close>.\<close>

fun wire_event :: "event \<Rightarrow> bool" where
  "wire_event (Ev_header f n v) = (0 \<notin> set n)"
| "wire_event _ = True"

definition unpathed_inv :: "tid \<Rightarrow> session \<times> ('u, 'z) env \<Rightarrow> bool" where
  "unpathed_inv t se \<longleftrightarrow> inbound_inv t se \<and> unpathed (fst se)"

lemma path_literal_has_nul: "0 \<notin> set n \<Longrightarrow> n \<noteq> fields_path"
  by (auto simp: fields_path_def usp_def literal_span_def literal_arr_eq byte_of_char_def)

interpretation wire: session_hooks "inbound_hooks lib t" wire_event "unpathed_inv t" open_streams
  inbound_spec inbound_codes for lib :: "('u, 'z) session_lib" and t
proof
  fix se :: "session \<times> ('u, 'z) env" and ev
  assume a: "unpathed_inv t se" and w: "wire_event ev"
  then have i: "inbound_inv t se" and u: "unpathed (fst se)" by (simp_all add: unpathed_inv_def)
  show "\<exists>rv se'. on_event (inbound_hooks lib t) ev se = (Inr rv, se') \<and> unpathed_inv t se' \<and>
    open_streams se' = inbound_spec ev (open_streams se) \<and> rv \<in> inbound_codes ev (open_streams se)"
  proof (cases ev)
    case (Ev_begin_headers f) then show ?thesis
      using inbound_begin [OF i, of f] u by (auto simp: inbound_hooks_def unpathed_inv_def)
  next
    case (Ev_header f n v) then show ?thesis
      using inbound_header [OF i, of lib f n v] u w path_literal_has_nul [of n]
      by (auto simp: inbound_hooks_def unpathed_inv_def)
  next
    case (Ev_frame f) then show ?thesis
      using inbound_frame [OF i, of lib f] u by (auto simp: inbound_hooks_def unpathed_inv_def)
  next
    case (Ev_close j ec) then show ?thesis
      using inbound_close [OF i, of j ec] u by (auto simp: inbound_hooks_def unpathed_inv_def)
  qed
qed

section \<open>Outbound sessions\<close>

text \<open>Nothing puts a stream into an outbound session: the map stays empty.\<close>

definition outbound_inv :: "tid \<Rightarrow> session \<times> ('u, 'z) env \<Rightarrow> bool" where
  "outbound_inv t se \<longleftrightarrow>
     in_event_loop t (snd se) \<and> sess_streams (fst se) = Map.empty \<and> sess_user_data (fst se) = Map.empty"

fun outbound_code :: "event \<Rightarrow> int" where
  "outbound_code (Ev_header f n v) =
     (if is_headers f NGHTTP2_HCAT_RESPONSE then NGHTTP2_ERR_CALLBACK_FAILURE else 0)"
| "outbound_code _ = 0"

interpretation outb: session_hooks "outbound_hooks lib t" "\<lambda>_. True" "outbound_inv t" "\<lambda>se. se"
  "\<lambda>_ se. se" "\<lambda>ev _. {outbound_code ev}" for lib :: "('u, 'z) session_lib" and t
proof
  fix se :: "session \<times> ('u, 'z) env" and ev
  assume "outbound_inv t se"
  then show "\<exists>rv se'. on_event (outbound_hooks lib t) ev se = (Inr rv, se') \<and> outbound_inv t se' \<and>
    se' = se \<and> rv \<in> {outbound_code ev}"
    by (cases se, cases ev) (auto simp: outbound_hooks_def outbound_inv_def outbound_begin_headers_hook_def
        outbound_recv_header_hook_def outbound_frame_recv_hook_def outbound_stream_close_hook_def
        on_stream_def erase_stream_def bindc_def)
qed

section \<open>Properties\<close>

definition toy_session_lib :: "byte list \<Rightarrow> (string \<times> string, 'z) session_lib" where
  "toy_session_lib alpn =
     \<lparr>sl_ada = toy_ada, sl_stream = toy_lib,
      sl_net = \<lparr>ntop4 = raw_ntop, ntop6 = raw_ntop, net_fmt = \<lparr>fmt_d = (\<lambda>_. ''0''), fmt_02x = (\<lambda>_. []), fmt_04x = (\<lambda>_. []), fmt_hash_x = (\<lambda>_. [])\<rparr>\<rparr>,
      sl_big_endian = False, sl_html = (0, 0), SSL_new = True, bufferevent_new = True, bev_getfd = 5,
      set_nodelay = 0, getsockname = (0, sockaddr_in \<lparr>s_addr = 0\<rparr> 0), connect_hostname = (\<lambda>_. 0),
      alpn_selected = alpn, nghttp2_option_new = 0, nghttp2_server_new = 0, nghttp2_client_new = 0,
      nghttp2_submit_settings = 0, nghttp2_terminate = 0, want_read = True, want_write = True,
      mem_recv = (\<lambda>bs se. (Inr (int (length bs)), se)), session_send = (\<lambda>se. (Inr 0, se))\<rparr>"

definition toy_session :: session where
  "toy_session = session_new 0 5 \<lparr>path_local = ip_address_of_port 443, path_remote = ip_address_of_port 1\<rparr> False []"

text \<open>A request on stream 1 as nghttp2 reports it.\<close>

definition toy_frame :: frame where
  "toy_frame = \<lparr>hd_type = NGHTTP2_HEADERS, hd_flags = NGHTTP2_FLAG_END_STREAM, hd_stream_id = 1,
     headers_cat = NGHTTP2_HCAT_REQUEST\<rparr>"

definition toy_events :: "event list" where
  "toy_events = [Ev_begin_headers toy_frame,
     Ev_header toy_frame (bytes_of_string '':path'') (bytes_of_string ''/index.html''), Ev_frame toy_frame]"

abbreviation toy_state :: "session \<times> (string \<times> string, unit) env" where
  "toy_state \<equiv> (toy_session, toy_env)"

lemma toy_unpathed: "unpathed_inv 1 toy_state"
  by (simp add: unpathed_inv_def inbound_inv_def in_event_loop_def toy_env_def event_loop_new_def
      event_loop.defs io_env.defs toy_session_def session_new_def wf_session_def unpathed_def)

lemma toy_wire: "\<forall>ev \<in> set toy_events. wire_event ev"
  by (simp add: toy_events_def bytes_of_string_def byte_of_char_def)

text \<open>
  C6. Whatever sequence of events nghttp2 reports to an inbound session on the loop's
  thread, no hook throws; the streams of the session are exactly those that a request
  opened and nothing closed since, each filed under its own id; and each hook answers
  as specified: only a frame that completes a request, or a path, for a stream that
  is not open fails the callback, and only the reply can be fatal.
\<close>

theorem inbound_events_refine:
  assumes "inbound_inv t se"
  shows "\<exists>rvs se'. run_events (inbound_hooks lib t) evs se = (Inr rvs, se') \<and>
           inbound_inv t se' \<and> open_streams se' = fold inbound_spec evs (open_streams se) \<and>
           length rvs = length evs \<and>
           (\<forall>i < length evs. rvs ! i \<in> inbound_codes (evs ! i) (fold inbound_spec (take i evs) (open_streams se)))"
  by (rule inb.run [OF assms]) simp

theorem inbound_events_refine_witness:
  "\<exists>rvs se'. run_events (inbound_hooks (toy_session_lib []) 1) toy_events toy_state = (Inr rvs, se') \<and>
     open_streams se' = {1} \<and> length rvs = 3"
proof -
  have i: "inbound_inv 1 toy_state" using toy_unpathed by (simp add: unpathed_inv_def)
  have "fold inbound_spec toy_events (open_streams toy_state) = {1}"
    by (simp add: toy_events_def toy_frame_def is_headers_def open_streams_def toy_session_def
        session_new_def stream_key_def)
  moreover have "length toy_events = 3" by (simp add: toy_events_def)
  ultimately show ?thesis
    using inbound_events_refine [OF i, of "toy_session_lib []" toy_events] by force
qed

text \<open>
  No request ever reaches the file it names: header names arrive without the NUL
  byte that the literal \<open>":path"_usp\<close> ends with, so after any events every open
  stream of an inbound session still has the default url, and what its reply opens is
  the file with the empty name.
\<close>

theorem requested_path_ignored:
  assumes "unpathed_inv t se" and "\<forall>ev \<in> set evs. wire_event ev"
    and "run_events (inbound_hooks lib t) evs se = (r, se')"
    and "sess_streams (fst se') k = Some st"
  shows "stream_req st = uri_default \<and> requested_file st = []"
proof -
  have "unpathed (fst se')" using wire.run_inv [OF assms(1-3)] by (simp add: unpathed_inv_def)
  then have "stream_req st = uri_default" using assms(4) by (simp add: unpathed_def)
  then show ?thesis by (simp add: requested_file_def c_str_def)
qed

theorem requested_path_ignored_witness:
  "\<exists>st. sess_streams (fst (snd (run_events (inbound_hooks (toy_session_lib []) 1) toy_events toy_state))) 1
          = Some st \<and> stream_req st = uri_default \<and> requested_file st = []"
proof -
  let ?h = "inbound_hooks (toy_session_lib []) 1"
  have i: "inbound_inv 1 toy_state" using toy_unpathed by (simp add: unpathed_inv_def)
  obtain rvs se' where r: "run_events ?h toy_events toy_state = (Inr rvs, se')"
    and o: "open_streams se' = fold inbound_spec toy_events (open_streams toy_state)"
    using inb.run [OF i, of toy_events "toy_session_lib []"] by auto
  have "fold inbound_spec toy_events (open_streams toy_state) = {1}"
    by (simp add: toy_events_def toy_frame_def is_headers_def open_streams_def toy_session_def
        session_new_def stream_key_def)
  with o have "1 \<in> dom (sess_streams (fst se'))" by (simp add: open_streams_def)
  then obtain st where st: "sess_streams (fst se') 1 = Some st" by blast
  from requested_path_ignored [OF toy_unpathed toy_wire r st] st r show ?thesis by simp
qed

text \<open>
  C29. An outbound session takes no part in HTTP/2: it never has a stream, so whatever
  nghttp2 reports, nothing of the session or its surroundings changes, every header of
  a response fails the callback, and a chunk of data is delivered through a null
  pointer.
\<close>

theorem outbound_ignores_events:
  assumes "outbound_inv t se"
  shows "run_events (outbound_hooks lib t) evs se = (Inr (map outbound_code evs), se) \<and>
         on_data_chunk_recv_callback i data se = (Inl null_deref, se)"
proof
  obtain rvs where r: "run_events (outbound_hooks lib t) evs se = (Inr rvs, fold (\<lambda>_ se. se) evs se)"
      "length rvs = length evs" "\<forall>i < length evs. rvs ! i = outbound_code (evs ! i)"
    using outb.run [OF assms, of evs lib] by auto
  have "fold (\<lambda>_ se. se) evs se = se" by (induction evs) auto
  moreover have "rvs = map outbound_code evs" using r(2,3) by (simp add: list_eq_iff_nth_eq)
  ultimately show "run_events (outbound_hooks lib t) evs se = (Inr (map outbound_code evs), se)"
    using r(1) by simp
  show "on_data_chunk_recv_callback i data se = (Inl null_deref, se)"
    using assms by (simp add: on_data_chunk_recv_callback_def outbound_inv_def this_session_def bindc_def)
qed

definition toy_response :: frame where
  "toy_response = \<lparr>hd_type = NGHTTP2_HEADERS, hd_flags = 0, hd_stream_id = 1, headers_cat = NGHTTP2_HCAT_RESPONSE\<rparr>"

theorem outbound_ignores_events_witness:
  "fst (run_events (outbound_hooks (toy_session_lib []) 1)
          [Ev_begin_headers toy_response, Ev_header toy_response [] []] toy_state) = Inr [0, - 902]"
proof -
  have i: "outbound_inv 1 toy_state"
    using toy_unpathed
    by (simp add: unpathed_inv_def inbound_inv_def outbound_inv_def toy_session_def session_new_def)
  let ?evs = "[Ev_begin_headers toy_response, Ev_header toy_response [] []]"
  have "map outbound_code ?evs = [0, - 902]"
    by (simp add: toy_response_def is_headers_def NGHTTP2_ERR_CALLBACK_FAILURE_def)
  moreover have "fst (run_events (outbound_hooks (toy_session_lib []) 1) ?evs toy_state) =
      Inr (map outbound_code ?evs)"
    unfolding outbound_ignores_events [OF i, THEN conjunct1] by (rule fst_conv)
  ultimately show ?thesis by metis
qed

text \<open>
  C18. ALPN is decided the wrong way round: when the TLS handshake of a connection
  ends, a session on which the peer negotiated \<open>h2\<close> is closed (the job is queued, and
  nothing else happens), while a session without any protocol is started.
\<close>

theorem negotiated_h2_is_closed:
  assumes "in_event_loop t e"
    and "path_to_string (sl_net lib) (sl_big_endian lib) (sess_path s) = Inr msg"
    and "events AND BEV_EVENT_CONNECTED \<noteq> 0" and "alpn_selected lib = bytes_of_string ''h2''"
  shows "event_cb lib t events (s, e) =
           (Inr (), (s, call_soon ((if sess_is_outbound s then Outbound_close else Inbound_close) (sess_this s)) e)) \<and>
         event_cb (lib\<lparr>alpn_selected := []\<rparr>) t events (s, e) =
           config_send_initial (lib\<lparr>alpn_selected := []\<rparr>) t (s, e)"
proof -
  have "default_ALPN \<noteq> bytes_of_string ''h2''" "bytes_of_string ''h2'' \<noteq> []"
    by (simp_all add: default_ALPN_def usp_def literal_span_def literal_arr_eq bytes_of_string_def)
  then show ?thesis
    using assms
    by (simp add: event_cb_def bindc_def this_session_def of_result_def close_session_def
        inbound_close_session_def outbound_close_session_def upd_env_def)
qed

theorem negotiated_h2_is_closed_witness:
  "snd (snd (event_cb (toy_session_lib (bytes_of_string ''h2'')) 1 BEV_EVENT_CONNECTED toy_state))
     = call_soon (Inbound_close 0) (snd toy_state)"
proof -
  let ?lib = "toy_session_lib (bytes_of_string ''h2'') :: (string \<times> string, unit) session_lib"
  have "in_event_loop 1 (snd toy_state)"
    using toy_unpathed by (simp add: unpathed_inv_def inbound_inv_def)
  moreover obtain m where "path_to_string (sl_net ?lib) (sl_big_endian ?lib) (sess_path toy_session) = Inr m"
    by (simp add: path_to_string_def toy_session_def session_new_def ip_to_string_def ip_address_of_port_def
        get_ipv4_def)
  moreover have "BEV_EVENT_CONNECTED AND BEV_EVENT_CONNECTED \<noteq> 0" by (simp add: BEV_EVENT_CONNECTED_def)
  moreover have "alpn_selected ?lib = bytes_of_string ''h2''" by (simp add: toy_session_lib_def)
  ultimately have "snd (event_cb ?lib 1 BEV_EVENT_CONNECTED (toy_session, snd toy_state)) =
      (toy_session, call_soon ((if sess_is_outbound toy_session then Outbound_close else Inbound_close)
         (sess_this toy_session)) (snd toy_state))"
    using negotiated_h2_is_closed [of 1 "snd toy_state" ?lib toy_session m BEV_EVENT_CONNECTED] by simp
  then show ?thesis by (simp add: toy_session_def session_new_def)
qed

end
