(* ===== verification/Session_Data.thy ===== *)
theory Session_Data
  imports Session_Hooks
begin

text \<open>
  The bytes of a connection: what libevent delivers and \<open>read_session_data\<close> hands
  to nghttp2, what nghttp2 sends and \<open>send_hook\<close> puts into the output buffer; and
  what becomes of the socket when a session cannot be set up.
\<close>

section \<open>Deliveries\<close>

text \<open>
  libevent appends what it has read to the input buffer and calls \<open>read_cb\<close>, once per
  delivery. Nothing in the program takes bytes out of that buffer (\<open>Feeding\<close>).
\<close>

definition deliver :: "byte list \<Rightarrow> ('u, 'z, unit) sop" where
  "deliver d = upd_session (\<lambda>s. s\<lparr>sess_input := sess_input s @ d\<rparr>)"

definition read_cb :: "('u, 'z) session_lib \<Rightarrow> tid \<Rightarrow> ('u, 'z, unit) sop" where
  "read_cb lib t = read_session_data lib t"

definition write_cb :: "('u, 'z) session_lib \<Rightarrow> tid \<Rightarrow> ('u, 'z, unit) sop" where
  "write_cb lib t = write_session_data lib t"

section \<open>Sending\<close>

fun send_all :: "tid \<Rightarrow> byte list list \<Rightarrow> ('u, 'z, int list) sop" where
  "send_all t [] = returnc []"
| "send_all t (d # ds) = bindc (send_hook t d) (\<lambda>rv. bindc (send_all t ds) (\<lambda>rvs. returnc (rv # rvs)))"

text \<open>The chunks that were taken, from the answers.\<close>

definition taken :: "byte list list \<Rightarrow> int list \<Rightarrow> byte list" where
  "taken ds rvs = concat (map fst (filter (\<lambda>(d, rv). rv \<noteq> NGHTTP2_ERR_WOULDBLOCK) (zip ds rvs)))"

lemma send_hook_eq:
  "in_event_loop t (snd se) \<Longrightarrow> send_hook t d se =
     (if OUTPUT_BLOCK_THRESHOLD \<le> length (sess_output (fst se)) then (Inr NGHTTP2_ERR_WOULDBLOCK, se)
      else (Inr (int (length d)), (fst se)\<lparr>sess_output := sess_output (fst se) @ d\<rparr>, snd se))"
  by (cases se) (simp add: send_hook_def bindc_def this_session_def thenc_def upd_session_def)

lemma not_wouldblock [simp]: "int n \<noteq> NGHTTP2_ERR_WOULDBLOCK"
  by (simp add: NGHTTP2_ERR_WOULDBLOCK_def)

lemma send_all_spec:
  assumes "in_event_loop t (snd se)" and "\<forall>d \<in> set ds. length d \<le> m"
    and "length (sess_output (fst se)) < OUTPUT_BLOCK_THRESHOLD + m"
  shows "\<exists>rvs s'. send_all t ds se = (Inr rvs, (s', snd se)) \<and> length rvs = length ds \<and>
           sess_output s' = sess_output (fst se) @ taken ds rvs \<and>
           length (sess_output s') < OUTPUT_BLOCK_THRESHOLD + m \<and>
           list_all2 (\<lambda>d rv. rv = int (length d) \<or> rv = NGHTTP2_ERR_WOULDBLOCK) ds rvs"
  using assms
proof (induction ds arbitrary: se)
  case Nil
  then show ?case by (cases se) (simp add: taken_def)
next
  case (Cons d ds)
  show ?case
  proof (cases "OUTPUT_BLOCK_THRESHOLD \<le> length (sess_output (fst se))")
    case True
    then have 1: "send_hook t d se = (Inr NGHTTP2_ERR_WOULDBLOCK, se)"
      using Cons.prems(1) by (simp add: send_hook_eq)
    from Cons.IH [of se] Cons.prems obtain rvs s' where
      "send_all t ds se = (Inr rvs, (s', snd se))" "length rvs = length ds"
      "sess_output s' = sess_output (fst se) @ taken ds rvs"
      "length (sess_output s') < OUTPUT_BLOCK_THRESHOLD + m"
      "list_all2 (\<lambda>d rv. rv = int (length d) \<or> rv = NGHTTP2_ERR_WOULDBLOCK) ds rvs" by auto
    with 1 show ?thesis by (simp add: taken_def)
  next
    case False
    let ?s1 = "(fst se)\<lparr>sess_output := sess_output (fst se) @ d\<rparr>"
    have 1: "send_hook t d se = (Inr (int (length d)), (?s1, snd se))"
      using Cons.prems(1) False by (simp add: send_hook_eq)
    have "length (sess_output ?s1) < OUTPUT_BLOCK_THRESHOLD + m"
      using False Cons.prems(2) by simp
    with Cons.IH [of "(?s1, snd se)"] Cons.prems obtain rvs s' where
      "send_all t ds (?s1, snd se) = (Inr rvs, (s', snd se))" "length rvs = length ds"
      "sess_output s' = sess_output (fst se) @ d @ taken ds rvs"
      "length (sess_output s') < OUTPUT_BLOCK_THRESHOLD + m"
      "list_all2 (\<lambda>d rv. rv = int (length d) \<or> rv = NGHTTP2_ERR_WOULDBLOCK) ds rvs" by auto
    with 1 show ?thesis by (simp add: taken_def)
  qed
qed

section \<open>Properties\<close>

text \<open>
  C27. Back-pressure: whatever nghttp2 sends, \<open>send_hook\<close> answers each chunk with its
  length or \<open>NGHTTP2_ERR_WOULDBLOCK\<close>; the output buffer holds what it held followed by
  exactly the chunks it took, whole and in order, and with chunks of at most \<open>m\<close>
  bytes it never reaches the threshold plus \<open>m\<close>.
\<close>

theorem send_hook_backpressure:
  assumes "in_event_loop t (snd se)" and "\<forall>d \<in> set ds. length d \<le> m"
    and "length (sess_output (fst se)) < OUTPUT_BLOCK_THRESHOLD + m"
  shows "\<exists>rvs s'. send_all t ds se = (Inr rvs, (s', snd se)) \<and> length rvs = length ds \<and>
           sess_output s' = sess_output (fst se) @ taken ds rvs \<and>
           length (sess_output s') < OUTPUT_BLOCK_THRESHOLD + m \<and>
           list_all2 (\<lambda>d rv. rv = int (length d) \<or> rv = NGHTTP2_ERR_WOULDBLOCK) ds rvs"
  by (rule send_all_spec [OF assms])

theorem send_hook_backpressure_witness:
  "\<exists>rvs s'. send_all 1 [[1, 2], [3]] toy_state = (Inr rvs, (s', snd toy_state)) \<and>
            length (sess_output s') < OUTPUT_BLOCK_THRESHOLD + 2"
proof -
  have a: "in_event_loop 1 (snd toy_state)" "length (sess_output (fst toy_state)) < OUTPUT_BLOCK_THRESHOLD + 2"
    using toy_unpathed
    by (simp_all add: unpathed_inv_def inbound_inv_def toy_session_def session_new_def OUTPUT_BLOCK_THRESHOLD_def)
  have "\<forall>d \<in> set [[1, 2], [3 :: byte]]. length d \<le> 2" by simp
  from send_hook_backpressure [OF a(1) this a(2)] show ?thesis by blast
qed

text \<open>
  C33. An accepted socket whose session cannot be set up is closed only when libevent
  already has it: an exception before the bufferevent exists leaves the descriptor
  open with nobody to close it, a later one closes it. A session that was set up
  works on the socket, knows both addresses and has its callbacks registered.
\<close>

theorem failed_session_socket:
  assumes "in_event_loop t e" and "fd \<in> open_fds e" and "bev_getfd lib = fd"
    and "inbound_session_make lib t this remote fd e = (r, e')"
  shows "case r of
     Inl x \<Rightarrow> open_fds e' = (if SSL_new lib \<and> bufferevent_new lib then open_fds e - {fd} else open_fds e)
   | Inr s \<Rightarrow> open_fds e' = open_fds e \<and> sess_fd s = fd \<and> sess_bev_cbs s \<and> wf_session s \<and>
       path_remote (sess_path s) = remote \<and>
       ip_address_of_sockaddr (sl_big_endian lib) (snd (getsockname lib)) = Inr (path_local (sess_path s))"
proof (cases "SSL_new lib \<and> bufferevent_new lib \<and> 0 \<le> set_nodelay lib \<and> 0 \<le> fst (getsockname lib)")
  case True
  then show ?thesis
    using assms
    by (cases "ip_address_of_sockaddr (sl_big_endian lib) (snd (getsockname lib))")
      (auto simp: inbound_session_make_def inbound_init_internals_def new_ssl_def thenc_def bindc_def
        upd_session_def guardc_def guard_def of_result_def learn_local_def this_session_def session_new_def
        session_destroy_def wf_session_def)
next
  case False
  then show ?thesis
    using assms
    by (auto simp: inbound_session_make_def inbound_init_internals_def new_ssl_def thenc_def bindc_def
        upd_session_def guardc_def guard_def of_result_def learn_local_def this_session_def session_new_def
        session_destroy_def split: if_splits)
qed

theorem failed_session_socket_witness:
  "open_fds (snd (inbound_session_make ((toy_session_lib []) \<lparr>bufferevent_new := False, bev_getfd := 2\<rparr>) 1 0
      (ip_address_of_port 9) 2 (toy_env :: (string \<times> string, unit) env))) = {0, 1, 2}"
proof -
  let ?lib = "(toy_session_lib []) \<lparr>bufferevent_new := False, bev_getfd := 2\<rparr> :: (string \<times> string, unit) session_lib"
  let ?e = "toy_env :: (string \<times> string, unit) env"
  obtain r e' where r: "inbound_session_make ?lib 1 0 (ip_address_of_port 9) 2 ?e = (r, e')"
    by (metis surj_pair)
  have a: "in_event_loop 1 ?e"
    using toy_unpathed by (simp add: unpathed_inv_def inbound_inv_def)
  have f: "open_fds ?e = {0, 1, 2}" by (simp add: toy_env_def event_loop.defs io_env.defs)
  have b: "SSL_new ?lib" "\<not> bufferevent_new ?lib" "bev_getfd ?lib = 2" by (simp_all add: toy_session_lib_def)
  have "open_fds e' = {0, 1, 2}"
    using failed_session_socket [OF a _ b(3) r] b(2) f by (cases r) auto
  then show ?thesis by (simp only: r snd_conv)
qed

end
