(* ===== verification/Registry.thy ===== *)
theory Registry
  imports Prelude
begin

text \<open>
  The keyed maps of shared pointers through which listeners, nodes and the endpoint own
  their objects: \<open>std::unordered_map<K, std::shared_ptr<V>>\<close> with the calls the code
  makes on it. An entry may hold a null pointer. The order of the list is one order the
  map may iterate in; no definition but the iterations depends on it.
\<close>

section \<open>The map\<close>

type_synonym ('k, 'v) registry = "('k \<times> 'v option) list"

definition reg_find :: "'k \<Rightarrow> ('k, 'v) registry \<Rightarrow> 'v option option" where
  "reg_find k r = map_of r k"

definition reg_try_emplace :: "'k \<Rightarrow> ('k, 'v) registry \<Rightarrow> bool \<times> ('k, 'v) registry" where
  "reg_try_emplace k r =
     (case map_of r k of None \<Rightarrow> (True, r @ [(k, None)]) | Some _ \<Rightarrow> (False, r))"

text \<open>\<open>itr->second = v\<close> on the entry of \<open>k\<close>.\<close>

definition reg_assign :: "'k \<Rightarrow> 'v option \<Rightarrow> ('k, 'v) registry \<Rightarrow> ('k, 'v) registry" where
  "reg_assign k v r = map (\<lambda>(k', x). (k', if k' = k then v else x)) r"

definition reg_erase :: "'k \<Rightarrow> ('k, 'v) registry \<Rightarrow> bool \<times> ('k, 'v) registry" where
  "reg_erase k r = (map_of r k \<noteq> None, filter (\<lambda>(k', _). k' \<noteq> k) r)"

text \<open>The objects a map owns.\<close>

definition reg_objects :: "('k, 'v) registry \<Rightarrow> 'v list" where
  "reg_objects r = List.map_filter snd r"

definition wf_registry :: "('k, 'v) registry \<Rightarrow> bool" where
  "wf_registry r \<longleftrightarrow> distinct (map fst r)"

lemma map_of_assign:
  "map_of (reg_assign k v r) k' = (if k' = k then (case map_of r k of None \<Rightarrow> None | Some _ \<Rightarrow> Some v) else map_of r k')"
  unfolding reg_assign_def by (induction r) (auto split: option.splits if_splits)

lemma map_of_erase: "map_of (snd (reg_erase k r)) k' = (if k' = k then None else map_of r k')"
  unfolding reg_erase_def by (induction r) (auto split: if_splits)

lemma fst_assign [simp]: "map fst (reg_assign k v r) = map fst r"
  unfolding reg_assign_def by (induction r) auto

lemma fst_erase: "map fst (snd (reg_erase k r)) = filter (\<lambda>k'. k' \<noteq> k) (map fst r)"
  unfolding reg_erase_def by (induction r) auto

lemma wf_registry_simps [wf_intros]:
  "wf_registry []"
  "wf_registry r \<Longrightarrow> wf_registry (snd (reg_try_emplace k r))"
  "wf_registry r \<Longrightarrow> wf_registry (reg_assign k v r)"
  "wf_registry r \<Longrightarrow> wf_registry (snd (reg_erase k r))"
proof -
  show "wf_registry r \<Longrightarrow> wf_registry (snd (reg_try_emplace k r))"
    by (auto simp: wf_registry_def reg_try_emplace_def map_of_eq_None_iff split: option.split)
  show "wf_registry r \<Longrightarrow> wf_registry (snd (reg_erase k r))"
    unfolding wf_registry_def fst_erase by simp
qed (simp_all add: wf_registry_def)

lemma reg_objects_iff: "wf_registry r \<Longrightarrow> v \<in> set (reg_objects r) \<longleftrightarrow> (\<exists>k. reg_find k r = Some (Some v))"
  unfolding wf_registry_def reg_find_def reg_objects_def
proof (induction r)
  case (Cons a r)
  obtain k x where a: "a = (k, x)" by fastforce
  have "map_of r k = None" using Cons.prems a by (simp add: map_of_eq_None_iff)
  moreover have "v \<in> set (List.map_filter snd r) \<longleftrightarrow> (\<exists>k. map_of r k = Some (Some v))"
    using Cons by simp
  moreover from \<open>map_of r k = None\<close>
  have "(\<exists>k'. map_of (a # r) k' = Some (Some v)) \<longleftrightarrow> x = Some v \<or> (\<exists>k'. map_of r k' = Some (Some v))"
    by (auto simp: a) (use \<open>map_of r k = None\<close> in force)+
  ultimately show ?case
    by (cases x) (auto simp: a List.map_filter_simps)
qed (simp add: List.map_filter_simps)

section \<open>The contract\<close>

text \<open>
  A component that owns objects by key, seen through \<open>look\<close>: opening a key takes it
  with a null pointer, filling it stores the object, closing gives the key back. The
  contract is stated for any state that holds such a map.
\<close>

locale keyed_owner =
  fixes look :: "'s \<Rightarrow> 'k \<Rightarrow> 'v option option"
    and emplace :: "'k \<Rightarrow> 's \<Rightarrow> bool \<times> 's"
    and fill :: "'k \<Rightarrow> 'v \<Rightarrow> 's \<Rightarrow> 's"
    and erase :: "'k \<Rightarrow> 's \<Rightarrow> bool \<times> 's"
  assumes emplace_ok: "fst (emplace k s) \<longleftrightarrow> look s k = None"
    and look_emplace: "look (snd (emplace k s)) k' = (if k' = k \<and> look s k = None then Some None else look s k')"
    and look_fill: "look (fill k v s) k' = (if k' = k \<and> look s k \<noteq> None then Some (Some v) else look s k')"
    and erase_found: "fst (erase k s) \<longleftrightarrow> look s k \<noteq> None"
    and look_erase: "look (snd (erase k s)) k' = (if k' = k then None else look s k')"
begin

lemma opened: "fst (emplace k s) \<Longrightarrow>
    look (fill k v (snd (emplace k s))) = (look s)(k \<mapsto> Some v)"
  by (rule ext) (simp add: look_fill look_emplace emplace_ok)

lemma open_close: "fst (emplace k s) \<Longrightarrow>
    look (snd (erase k (fill k v (snd (emplace k s))))) = look s"
  by (rule ext) (simp add: look_erase look_fill look_emplace emplace_ok)

text \<open>A key taken and never filled refuses every later attempt until it is closed.\<close>

lemma abandoned_blocks: "\<not> fst (emplace k (snd (emplace k s)))"
  by (simp add: emplace_ok look_emplace)

lemma abandoned_close_reopens: "fst (emplace k (snd (erase k (snd (emplace k s)))))"
  by (simp add: emplace_ok look_erase)

lemma erase_other: "k' \<noteq> k \<Longrightarrow> look (snd (erase k s)) k' = look s k'"
  by (simp add: look_erase)

end

interpretation reg: keyed_owner "\<lambda>r k. reg_find k r" reg_try_emplace "\<lambda>k v. reg_assign k (Some v)" reg_erase
proof
  fix k k' :: 'a and v :: 'b and s :: "('a, 'b) registry"
  show "fst (reg_try_emplace k s) \<longleftrightarrow> reg_find k s = None"
    by (simp add: reg_try_emplace_def reg_find_def split: option.split)
  show "reg_find k' (snd (reg_try_emplace k s)) =
      (if k' = k \<and> reg_find k s = None then Some None else reg_find k' s)"
    by (auto simp: reg_try_emplace_def reg_find_def map_add_def split: option.split)
  show "reg_find k' (reg_assign k (Some v) s) =
      (if k' = k \<and> reg_find k s \<noteq> None then Some (Some v) else reg_find k' s)"
    by (simp add: reg_find_def map_of_assign split: option.split)
  show "fst (reg_erase k s) \<longleftrightarrow> reg_find k s \<noteq> None"
    by (simp add: reg_erase_def reg_find_def)
  show "reg_find k' (snd (reg_erase k s)) = (if k' = k then None else reg_find k' s)"
    by (simp add: reg_find_def map_of_erase)
qed

end
