(* ===== verification/World.thy ===== *)
theory World
  imports Session_Data Registry
begin

text \<open>
  The objects of a running program and who owns them: the endpoint's two maps, the
  listeners with their inbound sessions (\<open>src/listener.cpp\<close>), the nodes with their
  outbound sessions (\<open>src/node.cpp\<close>). An object is known by a number that stands for
  its address. \<open>make_shared\<close> gives every object the loop's deleter, which on the
  loop's thread destroys it on the spot.
\<close>

section \<open>State\<close>

record listener =
  lst_local :: ip_address
  lst_fd :: int
  lst_sessions :: "(ip_v \<times> u16, nat) registry"

record node =
  node_local :: "ip_address option"
  node_fd :: int
  node_uri :: uri
  node_sessions :: "(string, nat) registry"

record 'u world = "(job, 'u) io_env" +
  ep_listeners :: "(u16, nat) registry"
  ep_nodes :: "(string, nat) registry"
  ep_ctx :: "app_context option"
  ep_client_id :: caller_id
  ep_close_immediately :: bool
  listeners :: "nat \<rightharpoonup> listener"
  nodes :: "nat \<rightharpoonup> node"
  inbounds :: "nat \<rightharpoonup> session \<times> nat"   \<comment> \<open>with its listener\<close>
  outbounds :: "nat \<rightharpoonup> session \<times> nat"  \<comment> \<open>with its node\<close>
  next_obj :: nat

type_synonym 'u wlib = "('u, unit world_ext) session_lib"

record 'u ep_lib =
  el_session :: "'u wlib"
  el_order :: "session \<Rightarrow> u32 list"      \<comment> \<open>the order in which a map gives up its streams\<close>
  conn_bind :: "u16 \<Rightarrow> int option"         \<comment> \<open>\<open>evconnlistener_new_bind\<close>: the descriptor\<close>
  conn_name :: "u16 \<Rightarrow> int \<times> sockaddr"    \<comment> \<open>\<open>getsockname\<close> of a socket bound to that port\<close>
  sys_socket :: int
  set_nonblocking :: "int \<Rightarrow> int"
  sys_bind :: "sockaddr \<Rightarrow> nat \<Rightarrow> int"

text \<open>Addresses are equal as keys when \<open>ip_eq\<close> says so.\<close>

definition ip_key :: "ip_address \<Rightarrow> ip_v \<times> u16" where
  "ip_key a = (ip a, ip_port a)"

lemma ip_key_eq: "ip_key a = ip_key b \<longleftrightarrow> ip_eq a b"
  by (auto simp: ip_key_def ip_eq_iff)

section \<open>Destroying objects\<close>

definition destroy_inbound :: "'u ep_lib \<Rightarrow> nat \<Rightarrow> 'u world \<Rightarrow> 'u world" where
  "destroy_inbound lib sid w =
     (case inbounds w sid of
        None \<Rightarrow> w
      | Some (s, _) \<Rightarrow>
          (session_destroy (el_order lib s) s w)\<lparr>inbounds := (inbounds w)(sid := None)\<rparr>)"

definition destroy_outbound :: "'u ep_lib \<Rightarrow> nat \<Rightarrow> 'u world \<Rightarrow> 'u world" where
  "destroy_outbound lib sid w =
     (case outbounds w sid of
        None \<Rightarrow> w
      | Some (s, _) \<Rightarrow>
          (session_destroy (el_order lib s) s w)\<lparr>outbounds := (outbounds w)(sid := None)\<rparr>)"

text \<open>\<open>~listener\<close>: its sessions, then the \<open>evconnlistener\<close> with its socket.\<close>

definition destroy_listener :: "'u ep_lib \<Rightarrow> nat \<Rightarrow> 'u world \<Rightarrow> 'u world" where
  "destroy_listener lib lid w =
     (case listeners w lid of
        None \<Rightarrow> w
      | Some l \<Rightarrow>
          (let w1 = fold (destroy_inbound lib) (reg_objects (lst_sessions l)) w in
           (fd_close (lst_fd l) w1)\<lparr>listeners := (listeners w1)(lid := None)\<rparr>))"

definition destroy_node :: "'u ep_lib \<Rightarrow> nat \<Rightarrow> 'u world \<Rightarrow> 'u world" where
  "destroy_node lib nid w =
     (case nodes w nid of
        None \<Rightarrow> w
      | Some n \<Rightarrow>
          (let w1 = fold (destroy_outbound lib) (reg_objects (node_sessions n)) w in
           w1\<lparr>nodes := (nodes w1)(nid := None)\<rparr>))"

text \<open>An entry goes: the object it owned, if any, is destroyed.\<close>

definition release :: "(nat \<Rightarrow> 'u world \<Rightarrow> 'u world) \<Rightarrow> nat option option \<Rightarrow> 'u world \<Rightarrow> 'u world" where
  "release destroy entry w = (case entry of Some (Some i) \<Rightarrow> destroy i w | _ \<Rightarrow> w)"

section \<open>\<open>listener\<close>\<close>

definition world_in_loop :: "tid \<Rightarrow> ('u world, 'a) comp \<Rightarrow> ('u world, 'a) comp" where
  "world_in_loop t m w = (if in_event_loop t w then m w else (Inl assert_failed, w))"

definition set_sessions :: "nat \<Rightarrow> (ip_v \<times> u16, nat) registry \<Rightarrow> 'u world \<Rightarrow> 'u world" where
  "set_sessions lid r w =
     w\<lparr>listeners := (listeners w)(lid := map_option (\<lambda>l. l\<lparr>lst_sessions := r\<rparr>) (listeners w lid))\<rparr>"

definition listener_close_session :: "'u ep_lib \<Rightarrow> tid \<Rightarrow> nat \<Rightarrow> ip_address \<Rightarrow> ('u world, unit) comp" where
  "listener_close_session lib t lid remote =
     world_in_loop t (\<lambda>w.
       case listeners w lid of
         None \<Rightarrow> (Inl use_after_free, w)
       | Some l \<Rightarrow>
           (let k = ip_key remote;
                entry = reg_find k (lst_sessions l);
                (found, r) = reg_erase k (lst_sessions l)
            in if found then (Inr (), release (destroy_inbound lib) entry (set_sessions lid r w))
               else (Inr (), w)))"

definition listener_close_all :: "'u ep_lib \<Rightarrow> tid \<Rightarrow> nat \<Rightarrow> ('u world, unit) comp" where
  "listener_close_all lib t lid =
     world_in_loop t (\<lambda>w.
       case listeners w lid of
         None \<Rightarrow> (Inl use_after_free, w)
       | Some l \<Rightarrow>
           (Inr (), fold (destroy_inbound lib) (reg_objects (lst_sessions l)) (set_sessions lid [] w)))"

definition listener_close_listener :: "tid \<Rightarrow> nat \<Rightarrow> ('u world, unit) comp" where
  "listener_close_listener t lid = world_in_loop t (\<lambda>w. (Inr (), call_soon (Listener_close lid) w))"

text \<open>
  \<open>create_inbound_session\<close>. When the remote address is already a key, the entry that
  is erased is the one found: the existing session's. An exception of the constructor
  leaves the new entry behind with its null pointer. (\<open>make_shared\<close> returns no null
  pointer, so the source's check after it has no branch here.)
\<close>

definition create_inbound_session :: "'u ep_lib \<Rightarrow> tid \<Rightarrow> nat \<Rightarrow> ip_address \<Rightarrow> int \<Rightarrow> ('u world, unit) comp" where
  "create_inbound_session lib t lid remote fd =
     world_in_loop t (\<lambda>w.
       case listeners w lid of
         None \<Rightarrow> (Inl use_after_free, w)
       | Some l \<Rightarrow>
           (let k = ip_key remote;
                (b, r) = reg_try_emplace k (lst_sessions l)
            in if \<not> b
               then (Inr (), release (destroy_inbound lib) (reg_find k (lst_sessions l))
                       (set_sessions lid (snd (reg_erase k r)) w))
               else
                 (let w1 = set_sessions lid r w; sid = next_obj w in
                  case inbound_session_make (el_session lib) t sid remote fd w1 of
                    (Inl x, w2) \<Rightarrow> (Inl x, w2)
                  | (Inr s, w2) \<Rightarrow>
                      (Inr (), set_sessions lid (reg_assign k (Some sid) r)
                         (w2\<lparr>inbounds := (inbounds w2)(sid \<mapsto> (s, lid)), next_obj := Suc sid\<rparr>)))))"

definition accept_cb :: "'u ep_lib \<Rightarrow> tid \<Rightarrow> nat \<Rightarrow> int \<Rightarrow> sockaddr \<Rightarrow> ('u world, unit) comp" where
  "accept_cb lib t lid fd addr w =
     (case ip_address_of_sockaddr (sl_big_endian (el_session lib)) addr of
        Inl x \<Rightarrow> (Inl x, w)
      | Inr remote \<Rightarrow> create_inbound_session lib t lid remote fd w)"

definition error_cb :: "tid \<Rightarrow> nat \<Rightarrow> ('u world, unit) comp" where
  "error_cb t lid = listener_close_listener t lid"

text \<open>
  The constructor: bound to \<open>INADDR_ANY\<close> and the port, then the address that the
  system gave. The \<open>evconnlistener\<close> closes its socket when an exception frees it; one that
  could not be made is null, and so is what the exception for it then frees, as the shared
  pointer has a deleter already (\<open>evconnlistener_free\<close> dereferences what it is given).
\<close>

definition listener_make :: "'u ep_lib \<Rightarrow> tid \<Rightarrow> u16 \<Rightarrow> ('u world, listener) comp" where
  "listener_make lib t p =
     world_in_loop t (\<lambda>w.
       let lcl = ip_address_of_port p in
       case conn_bind lib (ip_port lcl) of
         None \<Rightarrow> (Inl null_deref, w)
       | Some fd \<Rightarrow>
           (let w1 = fd_open fd w in
            if fst (conn_name lib (ip_port lcl)) < 0
            then (Inl (runtime_error ''Failed to get local socket address for tcp listener on port''),
                  fd_close fd w1)
            else case ip_address_of_sockaddr (sl_big_endian (el_session lib)) (snd (conn_name lib (ip_port lcl))) of
                   Inl x \<Rightarrow> (Inl x, fd_close fd w1)
                 | Inr a \<Rightarrow> (Inr \<lparr>lst_local = a, lst_fd = fd, lst_sessions = []\<rparr>, w1)))"

section \<open>\<open>node\<close>\<close>

definition set_node_sessions :: "nat \<Rightarrow> (string, nat) registry \<Rightarrow> 'u world \<Rightarrow> 'u world" where
  "set_node_sessions nid r w =
     w\<lparr>nodes := (nodes w)(nid := map_option (\<lambda>n. n\<lparr>node_sessions := r\<rparr>) (nodes w nid))\<rparr>"

definition node_close_session :: "'u ep_lib \<Rightarrow> tid \<Rightarrow> nat \<Rightarrow> string \<Rightarrow> ('u world, unit) comp" where
  "node_close_session lib t nid host =
     world_in_loop t (\<lambda>w.
       case nodes w nid of
         None \<Rightarrow> (Inl use_after_free, w)
       | Some n \<Rightarrow>
           (let entry = reg_find host (node_sessions n);
                (found, r) = reg_erase host (node_sessions n)
            in if found then (Inr (), release (destroy_outbound lib) entry (set_node_sessions nid r w))
               else (Inr (), w)))"

text \<open>
  \<open>_init_internals\<close>: a socket only where a local address was given. The length
  passed to \<open>bind\<close> is that of the generic \<open>sockaddr\<close>, 16 bytes, for IPv6 as well.
  The result is the descriptor the node keeps.
\<close>

definition sizeof_sockaddr :: nat where "sizeof_sockaddr = 16"

definition node_init_internals :: "'u ep_lib \<Rightarrow> tid \<Rightarrow> ip_address option \<Rightarrow> ('u world, int) comp" where
  "node_init_internals lib t local =
     world_in_loop t (\<lambda>w.
       case local of
         None \<Rightarrow> (Inr (- 1), w)
       | Some a \<Rightarrow>
           (let be = sl_big_endian (el_session lib);
                fd = sys_socket lib;
                w1 = (if fd < 0 then w else fd_open fd w);
                err = runtime_error ''Outbound node failed to bind socket''
            in if set_nonblocking lib fd < 0
               then (Inl (runtime_error ''Failed to non-block outbound node socket''), w1)
               else if fd < 0 then (Inl (runtime_error ''Could not create socket for outbound node''), w1)
               else if is_v4 a
               then (case ip_to_in_addr be a of
                       Inl x \<Rightarrow> (Inl x, w1)
                     | Inr i \<Rightarrow>
                         if sys_bind lib (sockaddr_in i (host_to_big be (ip_port a))) sizeof_sockaddr < 0
                         then (Inl err, w1) else (Inr fd, w1))
               else (case ip_to_in6_addr be a of
                       Inl x \<Rightarrow> (Inl x, w1)
                     | Inr i \<Rightarrow>
                         if sys_bind lib (sockaddr_in6 i (host_to_big be (ip_port a))) sizeof_sockaddr < 0
                         then (Inl err, w1) else (Inr fd, w1))))"

definition create_outbound_session :: "'u ep_lib \<Rightarrow> tid \<Rightarrow> nat \<Rightarrow> ('u world, unit) comp" where
  "create_outbound_session lib t nid =
     world_in_loop t (\<lambda>w.
       case nodes w nid of
         None \<Rightarrow> (Inl use_after_free, w)
       | Some n \<Rightarrow>
           (let host = uri_host (node_uri n);
                (b, r) = reg_try_emplace host (node_sessions n)
            in if \<not> b
               then (Inr (), release (destroy_outbound lib) (reg_find host (node_sessions n))
                       (set_node_sessions nid (snd (reg_erase host r)) w))
               else
                 (let w1 = set_node_sessions nid r w; sid = next_obj w in
                  case outbound_session_make (el_session lib) t sid host (node_fd n) (node_local n) w1 of
                    (Inl x, w2) \<Rightarrow> (Inl x, w2)
                  | (Inr s, w2) \<Rightarrow>
                      (Inr (), set_node_sessions nid (reg_assign host (Some sid) r)
                         (w2\<lparr>outbounds := (outbounds w2)(sid \<mapsto> (s, nid)), next_obj := Suc sid\<rparr>)))))"

text \<open>The constructor; an exception in it destroys the node again. The result is the new node.\<close>

definition node_make :: "'u ep_lib \<Rightarrow> tid \<Rightarrow> uri \<Rightarrow> ip_address option \<Rightarrow> ('u world, nat) comp" where
  "node_make lib t u local =
     bindc (node_init_internals lib t local) (\<lambda>fd. bindc getc (\<lambda>w0. let nid = next_obj w0 in
       thenc (modifyc (\<lambda>w. w\<lparr>nodes := (nodes w)(nid \<mapsto>
               \<lparr>node_local = local, node_fd = fd, node_uri = u, node_sessions = []\<rparr>), next_obj := Suc nid\<rparr>))
         (\<lambda>w. case create_outbound_session lib t nid w of
                (Inl x, w') \<Rightarrow> (Inl x, destroy_node lib nid w')
              | (Inr _, w') \<Rightarrow> (Inr nid, w'))))"

end
