(* ===== verification/Endpoint.thy ===== *)
theory Endpoint
  imports World
begin

text \<open>
  The endpoint (\<open>include/wshttp/endpoint.hpp\<close>, \<open>src/endpoint.cpp\<close>): listening,
  connecting and closing, the jobs that close things later, and shutdown. \<open>listen\<close>,
  \<open>connect\<close> and \<open>close_listener\<close> hand their bodies to \<open>call_get\<close>; the bodies, which
  run on the loop's thread, are modelled here, the waiting in \<open>Loop_Threads\<close>.
\<close>

section \<open>Client identifiers\<close>

text \<open>\<open>client_id{++next_client_id}\<close> on the static 16-bit counter.\<close>

definition take_client_id :: "u16 \<Rightarrow> caller_id \<times> u16" where
  "take_client_id next_client_id = (next_client_id + 1, next_client_id + 1)"

text \<open>The identifier of the \<open>n\<close>-th endpoint of a process.\<close>

fun nth_client_id :: "nat \<Rightarrow> u16 \<Rightarrow> caller_id" where
  "nth_client_id 0 c = c"
| "nth_client_id (Suc n) c = nth_client_id n (snd (take_client_id c))"

section \<open>Construction\<close>

definition endpoint_make :: "openssl \<Rightarrow> ssl_creds option \<Rightarrow> tid \<Rightarrow> u16 \<Rightarrow> 'u url_parser \<Rightarrow> int set \<Rightarrow>
    'u world result \<times> u16" where
  "endpoint_make ssl creds loop_tid next_client_id prs fds =
     (let (cid, next') = take_client_id next_client_id in
      case app_context_make ssl creds of
        Inl x \<Rightarrow> (Inl x, next')
      | Inr ctx \<Rightarrow>
          (Inr \<lparr>loop_running = True, loop_thread_id = loop_tid, loop_thread = True, loop_joinable = True,
                job_queue = [], waker_active = False, tickers = Map.empty, watchers = Map.empty,
                url_state = prs, open_fds = fds, lib_calls = [],
                ep_listeners = [], ep_nodes = [], ep_ctx = Some ctx, ep_client_id = cid,
                ep_close_immediately = False, listeners = Map.empty, nodes = Map.empty,
                inbounds = Map.empty, outbounds = Map.empty, next_obj = 0\<rparr>, next'))"

definition set_shutdown_immediate :: "bool \<Rightarrow> 'u world \<Rightarrow> 'u world" where
  "set_shutdown_immediate b w = w\<lparr>ep_close_immediately := b\<rparr>"

section \<open>\<open>listen\<close>, \<open>connect\<close>, \<open>close_listener\<close>\<close>

definition endpoint_listen :: "'u ep_lib \<Rightarrow> tid \<Rightarrow> u16 \<Rightarrow> ('u world, bool) comp" where
  "endpoint_listen lib t p w =
     (let (b, r) = reg_try_emplace p (ep_listeners w);
          w1 = w\<lparr>ep_listeners := r\<rparr>
      in if \<not> b
         then (Inl (invalid_argument ''Cannot create tcp-listener at port -- listener already exists!''), w1)
         else case listener_make lib t p w1 of
                (Inl x, w2) \<Rightarrow> (Inl x, w2)
              | (Inr l, w2) \<Rightarrow>
                  (let lid = next_obj w2 in
                   (Inr True, w2\<lparr>ep_listeners := reg_assign p (Some lid) (ep_listeners w2),
                                 listeners := (listeners w2)(lid \<mapsto> l), next_obj := Suc lid\<rparr>)))"

definition endpoint_connect :: "'u ep_lib \<Rightarrow> tid \<Rightarrow> string \<Rightarrow> ip_address option \<Rightarrow> ('u world, bool) comp" where
  "endpoint_connect lib t url local w =
     (case uri_parse (sl_ada (el_session lib)) url (url_state w) of
        (Inl x, p) \<Rightarrow> (Inl x, w\<lparr>url_state := p\<rparr>)
      | (Inr u, p) \<Rightarrow>
          (let w0 = w\<lparr>url_state := p\<rparr> in
           if \<not> uri_bool u then (Inl (invalid_argument ''Failed to parse input url''), w0)
           else
             (let (b, r) = reg_try_emplace (uri_host u) (ep_nodes w0);
                  w1 = w0\<lparr>ep_nodes := r\<rparr>
              in if \<not> b
                 then (Inl (invalid_argument ''Cannot create outbound node -- node already exists!''), w1)
                 else case node_make lib t u local w1 of
                        (Inl x, w2) \<Rightarrow> (Inl x, w2)
                      | (Inr nid, w2) \<Rightarrow>
                          (Inr True, w2\<lparr>ep_nodes := reg_assign (uri_host u) (Some nid) (ep_nodes w2)\<rparr>))))"

definition close_listener :: "'u ep_lib \<Rightarrow> u16 \<Rightarrow> 'u world \<Rightarrow> 'u world" where
  "close_listener lib p w =
     (let entry = reg_find p (ep_listeners w);
          (found, r) = reg_erase p (ep_listeners w)
      in if found then release (destroy_listener lib) entry (w\<lparr>ep_listeners := r\<rparr>) else w)"

section \<open>Running the queued jobs\<close>

fun close_all_listeners :: "'u ep_lib \<Rightarrow> tid \<Rightarrow> nat option list \<Rightarrow> 'u world \<Rightarrow> exn option \<times> 'u world" where
  "close_all_listeners lib t [] w = (None, w)"
| "close_all_listeners lib t (None # ls) w = (Some null_deref, w)"
| "close_all_listeners lib t (Some l # ls) w =
     (case listener_close_all lib t l w of
        (Inl x, w') \<Rightarrow> (Some x, w')
      | (Inr _, w') \<Rightarrow> close_all_listeners lib t ls w')"

definition outcome_of :: "unit result \<times> 'u world \<Rightarrow> exn option \<times> 'u world" where
  "outcome_of r = (case r of (Inl x, w) \<Rightarrow> (Some x, w) | (Inr _, w) \<Rightarrow> (None, w))"

text \<open>
  What each closure does. It holds the \<open>this\<close> of the object that queued it, so it
  dereferences a dangling pointer when that object is gone. A user's closure queues what it
  queues and then ends or throws.
\<close>

fun run_job :: "'u ep_lib \<Rightarrow> tid \<Rightarrow> job \<Rightarrow> 'u world \<Rightarrow> exn option \<times> 'u world" where
  "run_job lib t (Inbound_close sid) w =
     (case inbounds w sid of
        None \<Rightarrow> (Some use_after_free, w)
      | Some (s, lid) \<Rightarrow> outcome_of (listener_close_session lib t lid (path_remote (sess_path s)) w))"
| "run_job lib t (Outbound_close sid) w =
     (case outbounds w sid of
        None \<Rightarrow> (Some use_after_free, w)
      | Some (s, nid) \<Rightarrow> outcome_of (node_close_session lib t nid (sess_host s) w))"
| "run_job lib t (Listener_close lid) w =
     (case listeners w lid of
        None \<Rightarrow> (Some use_after_free, w)
      | Some l \<Rightarrow> (None, close_listener lib (ip_port (lst_local l)) w))"
| "run_job lib t Close_all_listeners w = close_all_listeners lib t (map snd (ep_listeners w)) w"
| "run_job lib t (User_closure js x) w = (x, fold call_soon js w)"

section \<open>Shutdown\<close>

text \<open>
  \<open>shutdown_endpoint\<close> hands its job to \<open>call\<close> and waits for its promise: from another
  thread that is until the loop has run its queue.
\<close>

definition shutdown_endpoint :: "'u ep_lib \<Rightarrow> tid \<Rightarrow> 'u world \<Rightarrow> exn option \<times> 'u world" where
  "shutdown_endpoint lib this_thread w =
     (if in_event_loop this_thread w
      then loop_call (run_job lib this_thread) this_thread Close_all_listeners w
      else process_job_queue (run_job lib (loop_thread_id w)) (loop_thread_id w)
             (snd (loop_call (run_job lib this_thread) this_thread Close_all_listeners w)))"

text \<open>
  \<open>~endpoint\<close>, on the loop's thread: \<open>endpoint::make\<close> gives the endpoint the loop's
  deleter, which runs it there. \<open>last_owner\<close> is \<open>_loop.use_count() == 1\<close>.
\<close>

definition endpoint_destroy :: "'u ep_lib \<Rightarrow> (wid \<Rightarrow> int) \<Rightarrow> bool \<Rightarrow> tid \<Rightarrow> 'u world \<Rightarrow> exn option \<times> 'u world" where
  "endpoint_destroy lib del_rc last_owner t w =
     (case (if ep_close_immediately w then (None, w) else shutdown_endpoint lib t w) of
        (Some x, w') \<Rightarrow> (Some x, w')
      | (None, w1) \<Rightarrow>
          (let w2 = fold (destroy_listener lib) (reg_objects (ep_listeners w1)) (w1\<lparr>ep_listeners := []\<rparr>) in
           case (if last_owner then stop_thread t (ep_close_immediately w2) w2 else (None, Inr False, w2)) of
             (_, Inl x, w3) \<Rightarrow> (Some x, w3)
           | (_, Inr _, w3) \<Rightarrow> (None, stop_tickers del_rc (ep_client_id w3) w3)))"

section \<open>Lemmas on destruction\<close>

definition fds_after :: "u32 list \<Rightarrow> session \<Rightarrow> int set \<Rightarrow> int set" where
  "fds_after ids s F =
     (let F1 = fold (\<lambda>k F. case sess_streams s k of None \<Rightarrow> F
                | Some st \<Rightarrow> if stream_fd st = - 1 then F - {- 1} else F) ids F
      in if sess_bev s then F1 - {sess_fd s} else F1)"

lemma session_destroy_eq:
  "session_destroy ids s e = e\<lparr>open_fds := fds_after ids s (open_fds e)\<rparr>"
proof -
  have "fold (\<lambda>k. case sess_streams s k of None \<Rightarrow> id | Some st \<Rightarrow> stream_d st) ids e =
    e\<lparr>open_fds := fold (\<lambda>k F. case sess_streams s k of None \<Rightarrow> F
        | Some st \<Rightarrow> if stream_fd st = - 1 then F - {- 1} else F) ids (open_fds e)\<rparr>"
    by (induction ids arbitrary: e)
      (auto simp: stream_d_def fd_close_def split: option.split)
  then show ?thesis by (simp add: session_destroy_def fds_after_def fd_close_def Let_def)
qed

lemma destroy_inbound_eq:
  "destroy_inbound lib sid w =
     w\<lparr>open_fds := (case inbounds w sid of None \<Rightarrow> open_fds w
                    | Some (s, _) \<Rightarrow> fds_after (el_order lib s) s (open_fds w)),
       inbounds := (inbounds w)(sid := None)\<rparr>"
  by (auto simp: destroy_inbound_def session_destroy_eq fun_upd_idem split: option.split)

lemma destroy_outbound_eq:
  "destroy_outbound lib sid w =
     w\<lparr>open_fds := (case outbounds w sid of None \<Rightarrow> open_fds w
                    | Some (s, _) \<Rightarrow> fds_after (el_order lib s) s (open_fds w)),
       outbounds := (outbounds w)(sid := None)\<rparr>"
  by (auto simp: destroy_outbound_def session_destroy_eq fun_upd_idem split: option.split)

lemma destroy_inbounds_eq:
  "\<exists>F. fold (destroy_inbound lib) sids w = w\<lparr>open_fds := F, inbounds := inbounds w |` (- set sids)\<rparr>"
proof (induction sids arbitrary: w)
  case Nil
  have "w = w\<lparr>open_fds := open_fds w, inbounds := inbounds w |` (- set [])\<rparr>" by (simp add: restrict_map_def)
  then show ?case by (metis fold_simps(1))
next
  case (Cons sid sids)
  obtain F where "fold (destroy_inbound lib) sids (destroy_inbound lib sid w) =
      (destroy_inbound lib sid w)\<lparr>open_fds := F,
         inbounds := inbounds (destroy_inbound lib sid w) |` (- set sids)\<rparr>"
    using Cons.IH by blast
  moreover have "((inbounds w)(sid := None)) |` (- set sids) = inbounds w |` (- set (sid # sids))"
    by (auto simp: restrict_map_def)
  ultimately have "fold (destroy_inbound lib) (sid # sids) w =
      w\<lparr>open_fds := F, inbounds := inbounds w |` (- set (sid # sids))\<rparr>"
    by (simp add: destroy_inbound_eq [of lib sid w])
  then show ?case by blast
qed

lemma destroy_listener_eq:
  "\<exists>F. destroy_listener lib lid w =
     (case listeners w lid of None \<Rightarrow> w
      | Some l \<Rightarrow> w\<lparr>open_fds := F, inbounds := inbounds w |` (- set (reg_objects (lst_sessions l))),
                    listeners := (listeners w)(lid := None)\<rparr>)"
proof (cases "listeners w lid")
  case (Some l)
  obtain F where F: "fold (destroy_inbound lib) (reg_objects (lst_sessions l)) w =
      w\<lparr>open_fds := F, inbounds := inbounds w |` (- set (reg_objects (lst_sessions l)))\<rparr>"
    using destroy_inbounds_eq by blast
  have "destroy_listener lib lid w = w\<lparr>open_fds := F - {lst_fd l},
      inbounds := inbounds w |` (- set (reg_objects (lst_sessions l))),
      listeners := (listeners w)(lid := None)\<rparr>"
    by (simp add: destroy_listener_def Some F fd_close_def Let_def)
  then show ?thesis using Some by auto
qed (simp add: destroy_listener_def)

end
