(* ===== verification/Ownership.thy ===== *)
theory Ownership
  imports Endpoint
begin

text \<open>
  The endpoint at work: its jobs keep the contract of the job queue, and an invariant
  says who owns what, through every sequence of connections, closings and jobs.
\<close>

section \<open>The jobs and the queue\<close>

lemma prefix_fields [simp]:
  "inbounds (with_prefix q w) = inbounds w" "outbounds (with_prefix q w) = outbounds w"
  "listeners (with_prefix q w) = listeners w" "nodes (with_prefix q w) = nodes w"
  "ep_listeners (with_prefix q w) = ep_listeners w" "open_fds (with_prefix q w) = open_fds w"
  "loop_thread_id (with_prefix q w) = loop_thread_id w"
  by (simp_all add: with_prefix_def)

lemma prefix_upds:
  "with_prefix q (w\<lparr>inbounds := x1\<rparr>) = (with_prefix q w)\<lparr>inbounds := x1\<rparr>"
  "with_prefix q (w\<lparr>outbounds := x2\<rparr>) = (with_prefix q w)\<lparr>outbounds := x2\<rparr>"
  "with_prefix q (w\<lparr>listeners := x3\<rparr>) = (with_prefix q w)\<lparr>listeners := x3\<rparr>"
  "with_prefix q (w\<lparr>nodes := x4\<rparr>) = (with_prefix q w)\<lparr>nodes := x4\<rparr>"
  "with_prefix q (w\<lparr>ep_listeners := x5\<rparr>) = (with_prefix q w)\<lparr>ep_listeners := x5\<rparr>"
  "with_prefix q (w\<lparr>open_fds := x6\<rparr>) = (with_prefix q w)\<lparr>open_fds := x6\<rparr>"
  by (simp_all add: with_prefix_def)

lemma in_loop_prefix [simp]: "in_event_loop t (with_prefix q w) = in_event_loop t w"
  by (simp add: in_event_loop_def with_prefix_def)

lemma destroy_inbound_prefix:
  "destroy_inbound lib sid (with_prefix q w) = with_prefix q (destroy_inbound lib sid w)"
  by (cases "inbounds w sid") (auto simp: destroy_inbound_eq prefix_upds)

lemma destroy_outbound_prefix:
  "destroy_outbound lib sid (with_prefix q w) = with_prefix q (destroy_outbound lib sid w)"
  by (cases "outbounds w sid") (auto simp: destroy_outbound_eq prefix_upds)

lemma destroy_inbounds_prefix:
  "fold (destroy_inbound lib) sids (with_prefix q w) = with_prefix q (fold (destroy_inbound lib) sids w)"
  by (induction sids arbitrary: w) (simp_all add: destroy_inbound_prefix)

lemma set_sessions_prefix:
  "set_sessions lid r (with_prefix q w) = with_prefix q (set_sessions lid r w)"
  "set_node_sessions nid r' (with_prefix q w) = with_prefix q (set_node_sessions nid r' w)"
  by (simp_all add: set_sessions_def set_node_sessions_def prefix_upds)

lemma destroy_listener_prefix:
  "destroy_listener lib lid (with_prefix q w) = with_prefix q (destroy_listener lib lid w)"
  by (simp add: destroy_listener_def destroy_inbounds_prefix fd_close_def prefix_upds Let_def
      split: option.split)

lemma close_listener_prefix:
  "close_listener lib p (with_prefix q w) = with_prefix q (close_listener lib p w)"
  by (simp add: close_listener_def release_def destroy_listener_prefix prefix_upds Let_def
      flip: prefix_upds split: option.split prod.split)

lemma close_all_prefix:
  "listener_close_all lib t l (with_prefix q w) = apsnd (with_prefix q) (listener_close_all lib t l w)"
  by (simp add: listener_close_all_def world_in_loop_def set_sessions_prefix destroy_inbounds_prefix
      split: option.split)

lemma close_all_listeners_prefix:
  "close_all_listeners lib t ls (with_prefix q w) = apsnd (with_prefix q) (close_all_listeners lib t ls w)"
proof (induction lib t ls w rule: close_all_listeners.induct)
  case (3 lib t l ls w)
  obtain r w' where r: "listener_close_all lib t l w = (r, w')" by fastforce
  then show ?case using 3 by (cases r) (simp_all add: close_all_prefix)
qed simp_all

lemma close_session_prefix:
  "listener_close_session lib t lid a (with_prefix q w) =
     apsnd (with_prefix q) (listener_close_session lib t lid a w)"
  "node_close_session lib t nid host (with_prefix q w) =
     apsnd (with_prefix q) (node_close_session lib t nid host w)"
  by (simp_all add: listener_close_session_def node_close_session_def world_in_loop_def release_def
      set_sessions_prefix destroy_inbound_prefix destroy_outbound_prefix Let_def
      split: option.split prod.split)

lemma outcome_prefix: "outcome_of (apsnd (with_prefix q) r) = apsnd (with_prefix q) (outcome_of r)"
  by (cases r) (auto simp: outcome_of_def split: sum.split)

interpretation jobs: queued_jobs "run_job lib t" for lib t
proof
  fix j q w
  show "run_job lib t j (with_prefix q w) = apsnd (with_prefix q) (run_job lib t j w)"
    by (cases j) (simp_all add: close_session_prefix outcome_prefix close_listener_prefix
        close_all_listeners_prefix with_prefix_fold split: option.split prod.split)
qed

section \<open>Who owns what\<close>

definition rkey :: "session \<Rightarrow> ip_v \<times> u16" where
  "rkey s = ip_key (path_remote (sess_path s))"

text \<open>
  The invariant over the inbound sessions \<open>I\<close>, the listeners \<open>L\<close>, the endpoint's map
  \<open>E\<close> and the next address \<open>n\<close>: a session lives exactly as long as the entry of its
  listener's map under its remote address, a listener exactly as long as one entry of
  the endpoint's map.
\<close>

definition owned :: "(nat \<rightharpoonup> session \<times> nat) \<Rightarrow> (nat \<rightharpoonup> listener) \<Rightarrow> (u16, nat) registry \<Rightarrow> nat \<Rightarrow> bool" where
  "owned I L E n \<longleftrightarrow>
     (\<forall>lid l. L lid = Some l \<longrightarrow> lid < n \<and> wf_registry (lst_sessions l)) \<and>
     (\<forall>sid s lid. I sid = Some (s, lid) \<longrightarrow> sid < n \<and>
        (\<exists>l. L lid = Some l \<and> reg_find (rkey s) (lst_sessions l) = Some (Some sid))) \<and>
     (\<forall>lid l k sid. L lid = Some l \<longrightarrow> reg_find k (lst_sessions l) = Some (Some sid) \<longrightarrow>
        (\<exists>s. I sid = Some (s, lid) \<and> rkey s = k)) \<and>
     wf_registry E \<and>
     (\<forall>p lid. reg_find p E = Some (Some lid) \<longrightarrow> L lid \<noteq> None) \<and>
     (\<forall>lid. L lid \<noteq> None \<longrightarrow> (\<exists>!p. reg_find p E = Some (Some lid)))"

definition wf_world :: "'u world \<Rightarrow> bool" where
  "wf_world w \<longleftrightarrow> owned (inbounds w) (listeners w) (ep_listeners w) (next_obj w)"

lemma ownedI:
  assumes "\<And>lid l. L lid = Some l \<Longrightarrow> lid < n \<and> wf_registry (lst_sessions l)"
    and "\<And>sid s lid. I sid = Some (s, lid) \<Longrightarrow> sid < n"
    and "\<And>sid s lid. I sid = Some (s, lid) \<Longrightarrow>
        \<exists>l. L lid = Some l \<and> reg_find (rkey s) (lst_sessions l) = Some (Some sid)"
    and "\<And>lid l k sid. L lid = Some l \<Longrightarrow> reg_find k (lst_sessions l) = Some (Some sid) \<Longrightarrow>
        \<exists>s. I sid = Some (s, lid) \<and> rkey s = k"
    and "wf_registry E"
    and "\<And>p lid. reg_find p E = Some (Some lid) \<Longrightarrow> L lid \<noteq> None"
    and "\<And>lid. L lid \<noteq> None \<Longrightarrow> \<exists>!p. reg_find p E = Some (Some lid)"
  shows "owned I L E n"
  unfolding owned_def using assms by blast

lemma ownedD:
  assumes "owned I L E n"
  shows "L lid = Some l \<Longrightarrow> lid < n" "L lid = Some l \<Longrightarrow> wf_registry (lst_sessions l)"
    "I sid = Some (s, lid) \<Longrightarrow> sid < n"
    "I sid = Some (s, lid) \<Longrightarrow> \<exists>l. L lid = Some l \<and> reg_find (rkey s) (lst_sessions l) = Some (Some sid)"
    "L lid = Some l \<Longrightarrow> reg_find k (lst_sessions l) = Some (Some sid) \<Longrightarrow>
       \<exists>s. I sid = Some (s, lid) \<and> rkey s = k"
    "wf_registry E" "reg_find p E = Some (Some lid) \<Longrightarrow> L lid \<noteq> None"
    "L lid \<noteq> None \<Longrightarrow> \<exists>!p. reg_find p E = Some (Some lid)"
  using assms unfolding owned_def by blast+

lemma owned_empty: "owned Map.empty Map.empty [] n"
  by (rule ownedI) (simp_all add: wf_registry_simps reg_find_def)

lemma owned_mono: "owned I L E n \<Longrightarrow> n \<le> m \<Longrightarrow> owned I L E m"
  by (rule ownedI) (fastforce dest: ownedD)+

text \<open>Closing the entry of a key in a listener's map, together with the session it owns.\<close>

lemma owned_close_entry:
  assumes o: "owned I L E n" and l: "L lid = Some l"
  shows "owned (case reg_find k (lst_sessions l) of Some (Some sid) \<Rightarrow> I(sid := None) | _ \<Rightarrow> I)
           (L(lid \<mapsto> l\<lparr>lst_sessions := snd (reg_erase k (lst_sessions l))\<rparr>)) E n"
    (is "owned ?I ?L E n")
proof (rule ownedI)
  have sub: "?I sid = Some x \<Longrightarrow> I sid = Some x \<and> reg_find k (lst_sessions l) \<noteq> Some (Some sid)" for sid x
    by (auto split: option.splits if_splits)
  show "?L i = Some x \<Longrightarrow> i < n \<and> wf_registry (lst_sessions x)" for i x
    using ownedD(1,2) [OF o] l by (auto simp: wf_registry_simps split: if_splits)
  show "?I sid = Some (s, i) \<Longrightarrow> sid < n" for sid s i
    using sub ownedD(3) [OF o] by blast
  show "?I sid = Some (s, i) \<Longrightarrow> \<exists>x. ?L i = Some x \<and> reg_find (rkey s) (lst_sessions x) = Some (Some sid)" for sid s i
  proof -
    assume a: "?I sid = Some (s, i)"
    then obtain x where x: "L i = Some x" "reg_find (rkey s) (lst_sessions x) = Some (Some sid)"
      using sub ownedD(4) [OF o] by blast
    then show ?thesis using sub [OF a] l by (cases "i = lid") (auto simp: reg.look_erase)
  qed
  show "?L i = Some x \<Longrightarrow> reg_find k' (lst_sessions x) = Some (Some sid) \<Longrightarrow> \<exists>s. ?I sid = Some (s, i) \<and> rkey s = k'"
    for i x k' sid
  proof -
    assume a: "?L i = Some x" "reg_find k' (lst_sessions x) = Some (Some sid)"
    then have b: "\<exists>y. L i = Some y \<and> reg_find k' (lst_sessions y) = Some (Some sid) \<and> (i = lid \<longrightarrow> k' \<noteq> k)"
      using l by (auto simp: reg.look_erase split: if_splits)
    then obtain s where s: "I sid = Some (s, i)" "rkey s = k'" using ownedD(5) [OF o] by blast
    have "reg_find k (lst_sessions l) \<noteq> Some (Some sid)"
      using b s ownedD(5) [OF o l, of k sid] by auto
    then have "?I sid = I sid" by (auto split: option.split)
    then show ?thesis using s by simp
  qed
  show "wf_registry E" by (rule ownedD(6) [OF o])
  show "reg_find p E = Some (Some i) \<Longrightarrow> ?L i \<noteq> None" for p i
    using ownedD(7) [OF o] by auto
  show "?L i \<noteq> None \<Longrightarrow> \<exists>!p. reg_find p E = Some (Some i)" for i
    using ownedD(8) [OF o] l by (cases "i = lid") auto
qed

lemma owned_take_entry:
  assumes o: "owned I L E n" and l: "L lid = Some l"
  shows "owned I (L(lid \<mapsto> l\<lparr>lst_sessions := snd (reg_try_emplace k (lst_sessions l))\<rparr>)) E n"
proof (rule ownedI)
  let ?L = "L(lid \<mapsto> l\<lparr>lst_sessions := snd (reg_try_emplace k (lst_sessions l))\<rparr>)"
  show "?L i = Some x \<Longrightarrow> i < n \<and> wf_registry (lst_sessions x)" for i x
    using ownedD(1,2) [OF o] l by (auto simp: wf_registry_simps split: if_splits)
  show "I sid = Some (s, i) \<Longrightarrow> \<exists>x. ?L i = Some x \<and> reg_find (rkey s) (lst_sessions x) = Some (Some sid)" for sid s i
    using ownedD(4) [OF o, of sid s i] l by (auto simp: reg.look_emplace)
  show "?L i = Some x \<Longrightarrow> reg_find k' (lst_sessions x) = Some (Some sid) \<Longrightarrow> \<exists>s. I sid = Some (s, i) \<and> rkey s = k'"
    for i x k' sid
  proof -
    assume "?L i = Some x" "reg_find k' (lst_sessions x) = Some (Some sid)"
    then have "\<exists>y. L i = Some y \<and> reg_find k' (lst_sessions y) = Some (Some sid)"
      using l by (auto simp: reg.look_emplace split: if_splits)
    then show ?thesis using ownedD(5) [OF o] by blast
  qed
  show "I sid = Some (s, i) \<Longrightarrow> sid < n" for sid s i by (rule ownedD(3) [OF o])
  show "wf_registry E" by (rule ownedD(6) [OF o])
  show "reg_find p E = Some (Some i) \<Longrightarrow> ?L i \<noteq> None" for p i
    using ownedD(7) [OF o] by auto
  show "?L i \<noteq> None \<Longrightarrow> \<exists>!p. reg_find p E = Some (Some i)" for i
    using ownedD(8) [OF o] l by (cases "i = lid") auto
qed

lemma owned_fill_entry:
  assumes o: "owned I L E n" and l: "L lid = Some l" and k: "reg_find (rkey s) (lst_sessions l) = Some None"
  shows "owned (I(n \<mapsto> (s, lid))) (L(lid \<mapsto> l\<lparr>lst_sessions := reg_assign (rkey s) (Some n) (lst_sessions l)\<rparr>)) E (Suc n)"
    (is "owned ?I ?L E _")
proof (rule ownedI)
  show "?L i = Some x \<Longrightarrow> i < Suc n \<and> wf_registry (lst_sessions x)" for i x
    using ownedD(1,2) [OF o] l by (auto simp: wf_registry_simps less_Suc_eq split: if_splits)
  show "?I sid = Some (s', i) \<Longrightarrow> sid < Suc n" for sid s' i
    using ownedD(3) [OF o] by (auto simp: less_Suc_eq split: if_splits)
  show "?I sid = Some (s', i) \<Longrightarrow> \<exists>x. ?L i = Some x \<and> reg_find (rkey s') (lst_sessions x) = Some (Some sid)" for sid s' i
    using ownedD(4) [OF o, of sid s' i] l k
    by (cases "sid = n"; cases "i = lid") (auto simp: reg.look_fill)
  show "?L i = Some x \<Longrightarrow> reg_find k' (lst_sessions x) = Some (Some sid) \<Longrightarrow> \<exists>s'. ?I sid = Some (s', i) \<and> rkey s' = k'"
    for i x k' sid
  proof -
    assume a: "?L i = Some x" "reg_find k' (lst_sessions x) = Some (Some sid)"
    show ?thesis
    proof (cases "i = lid \<and> k' = rkey s")
      case True
      then show ?thesis using a l k by (auto simp: reg.look_fill)
    next
      case False
      then have "\<exists>y. L i = Some y \<and> reg_find k' (lst_sessions y) = Some (Some sid)"
        using a l by (auto simp: reg.look_fill split: if_splits)
      then obtain s' where s': "I sid = Some (s', i)" "rkey s' = k'" using ownedD(5) [OF o] by blast
      then have "sid \<noteq> n" using ownedD(3) [OF o] by blast
      then show ?thesis using s' by auto
    qed
  qed
  show "wf_registry E" by (rule ownedD(6) [OF o])
  show "reg_find p E = Some (Some i) \<Longrightarrow> ?L i \<noteq> None" for p i
    using ownedD(7) [OF o] by auto
  show "?L i \<noteq> None \<Longrightarrow> \<exists>!p. reg_find p E = Some (Some i)" for i
    using ownedD(8) [OF o] l by (cases "i = lid") auto
qed

text \<open>Dropping every session of a listener, and dropping the listener as well.\<close>

lemma listener_objects:
  assumes o: "owned I L E n" and l: "L lid = Some l"
  shows "sid \<in> set (reg_objects (lst_sessions l)) \<longleftrightarrow> (\<exists>s. I sid = Some (s, lid))"
proof
  assume "sid \<in> set (reg_objects (lst_sessions l))"
  then show "\<exists>s. I sid = Some (s, lid)"
    unfolding reg_objects_iff [OF ownedD(2) [OF o l]] using ownedD(5) [OF o l] by blast
next
  assume "\<exists>s. I sid = Some (s, lid)"
  then show "sid \<in> set (reg_objects (lst_sessions l))"
    unfolding reg_objects_iff [OF ownedD(2) [OF o l]] using ownedD(4) [OF o] l
    by (metis option.inject)
qed

lemma owned_clear:
  assumes o: "owned I L E n" and l: "L lid = Some l"
  shows "owned (I |` (- set (reg_objects (lst_sessions l)))) (L(lid \<mapsto> l\<lparr>lst_sessions := []\<rparr>)) E n"
    (is "owned ?I ?L E n")
proof (rule ownedI)
  have sub: "?I sid = Some (s, i) \<longleftrightarrow> I sid = Some (s, i) \<and> i \<noteq> lid" for sid s i
    using listener_objects [OF o l] by (auto simp: restrict_map_def)
  show "?I sid = Some (s, i) \<Longrightarrow> sid < n" for sid s i
    using sub ownedD(3) [OF o] by blast
  show "?I sid = Some (s, i) \<Longrightarrow> \<exists>x. ?L i = Some x \<and> reg_find (rkey s) (lst_sessions x) = Some (Some sid)" for sid s i
    using sub ownedD(4) [OF o] by auto
  show "?L i = Some x \<Longrightarrow> reg_find k' (lst_sessions x) = Some (Some sid) \<Longrightarrow> \<exists>s. ?I sid = Some (s, i) \<and> rkey s = k'"
    for i x k' sid
    using sub ownedD(5) [OF o] by (auto simp: reg_find_def split: if_splits)
  show "?L i = Some x \<Longrightarrow> i < n \<and> wf_registry (lst_sessions x)" for i x
    using ownedD(1,2) [OF o] l by (auto simp: wf_registry_simps split: if_splits)
  show "wf_registry E" by (rule ownedD(6) [OF o])
  show "reg_find p E = Some (Some i) \<Longrightarrow> ?L i \<noteq> None" for p i
    using ownedD(7) [OF o] by auto
  show "?L i \<noteq> None \<Longrightarrow> \<exists>!p. reg_find p E = Some (Some i)" for i
    using ownedD(8) [OF o] l by (cases "i = lid") auto
qed

lemma owned_drop_listener:
  assumes o: "owned I L E n" and l: "L lid = Some l" and p: "reg_find p E = Some (Some lid)"
  shows "owned (I |` (- set (reg_objects (lst_sessions l)))) (L(lid := None)) (snd (reg_erase p E)) n"
    (is "owned ?I ?L ?E n")
proof (rule ownedI)
  have sub: "?I sid = Some (s, i) \<longleftrightarrow> I sid = Some (s, i) \<and> i \<noteq> lid" for sid s i
    using listener_objects [OF o l] by (auto simp: restrict_map_def)
  have uniq: "reg_find q E = Some (Some lid) \<Longrightarrow> q = p" for q
    using ownedD(8) [OF o, of lid] l p by auto
  show "?I sid = Some (s, i) \<Longrightarrow> sid < n" for sid s i
    using sub ownedD(3) [OF o] by blast
  show "?I sid = Some (s, i) \<Longrightarrow> \<exists>x. ?L i = Some x \<and> reg_find (rkey s) (lst_sessions x) = Some (Some sid)" for sid s i
    using sub ownedD(4) [OF o] by auto
  show "?L i = Some x \<Longrightarrow> reg_find k' (lst_sessions x) = Some (Some sid) \<Longrightarrow> \<exists>s. ?I sid = Some (s, i) \<and> rkey s = k'"
    for i x k' sid
    using sub ownedD(5) [OF o] by (auto split: if_splits)
  show "?L i = Some x \<Longrightarrow> i < n \<and> wf_registry (lst_sessions x)" for i x
    using ownedD(1,2) [OF o] by (auto split: if_splits)
  show "wf_registry ?E" by (intro wf_registry_simps ownedD(6) [OF o])
  show "reg_find q ?E = Some (Some i) \<Longrightarrow> ?L i \<noteq> None" for q i
    using ownedD(7) [OF o, of q i] uniq by (auto simp: reg.look_erase split: if_splits)
  show "?L i \<noteq> None \<Longrightarrow> \<exists>!q. reg_find q ?E = Some (Some i)" for i
  proof -
    assume a: "?L i \<noteq> None"
    then have i: "i \<noteq> lid" "L i \<noteq> None" by (auto split: if_splits)
    then have "reg_find q ?E = Some (Some i) \<longleftrightarrow> reg_find q E = Some (Some i)" for q
      using p by (auto simp: reg.look_erase)
    then show ?thesis using ownedD(8) [OF o i(2)] by simp
  qed
qed

end
