(* ===== verification/Lifetimes.thy ===== *)
theory Lifetimes
  imports Ownership
begin

text \<open>
  The life of sessions and listeners: every operation of the endpoint keeps the
  ownership invariant, and what follows for closing, for duplicate connections and for
  the objects the jobs name.
\<close>

section \<open>The endpoint's map\<close>

lemma owned_ep_cong:
  assumes o: "owned I L E n" and wf: "wf_registry E'"
    and eq: "\<And>q lid. reg_find q E' = Some (Some lid) \<longleftrightarrow> reg_find q E = Some (Some lid)"
  shows "owned I L E' n"
  using o wf unfolding owned_def by (simp only: eq) blast

lemma owned_ep_take:
  assumes o: "owned I L E n"
  shows "owned I L (snd (reg_try_emplace p E)) n"
  by (intro owned_ep_cong [OF o] wf_registry_simps ownedD(6) [OF o]) (auto simp: reg.look_emplace)

lemma owned_ep_drop_null:
  assumes o: "owned I L E n" and p: "\<And>lid. reg_find p E \<noteq> Some (Some lid)"
  shows "owned I L (snd (reg_erase p E)) n"
  using p by (intro owned_ep_cong [OF o] wf_registry_simps ownedD(6) [OF o]) (auto simp: reg.look_erase)

lemma owned_ep_fill:
  assumes o: "owned I L E n" and p: "reg_find p E = Some None" and l: "lst_sessions l = []"
  shows "owned I (L(n \<mapsto> l)) (reg_assign p (Some n) E) (Suc n)"
proof (rule ownedI)
  let ?L = "L(n \<mapsto> l)" and ?E = "reg_assign p (Some n) E"
  have fresh: "L n = None" using ownedD(1) [OF o, of n] by (cases "L n") auto
  have old: "reg_find q E \<noteq> Some (Some n)" for q using ownedD(7) [OF o, of q n] fresh by auto
  have eq: "reg_find q ?E = Some (Some i) \<longleftrightarrow> (if i = n then q = p else reg_find q E = Some (Some i))" for q i
    using p old by (auto simp: reg.look_fill)
  show "?L i = Some x \<Longrightarrow> i < Suc n \<and> wf_registry (lst_sessions x)" for i x
    using ownedD(1,2) [OF o] l by (auto simp: wf_registry_simps less_Suc_eq split: if_splits)
  show "I sid = Some (s, i) \<Longrightarrow> sid < Suc n" for sid s i
    using ownedD(3) [OF o] by (simp add: less_Suc_eq)
  show "I sid = Some (s, i) \<Longrightarrow> \<exists>x. ?L i = Some x \<and> reg_find (rkey s) (lst_sessions x) = Some (Some sid)" for sid s i
    using ownedD(4) [OF o] fresh by (metis fun_upd_other option.distinct(1))
  show "?L i = Some x \<Longrightarrow> reg_find k' (lst_sessions x) = Some (Some sid) \<Longrightarrow> \<exists>s. I sid = Some (s, i) \<and> rkey s = k'"
    for i x k' sid
    using ownedD(5) [OF o] l by (cases "i = n") (auto simp: reg_find_def)
  show "wf_registry ?E" by (intro wf_registry_simps ownedD(6) [OF o])
  show "reg_find q ?E = Some (Some i) \<Longrightarrow> ?L i \<noteq> None" for q i
    unfolding eq using ownedD(7) [OF o, of q i] by (auto split: if_splits)
  show "?L i \<noteq> None \<Longrightarrow> \<exists>!q. reg_find q ?E = Some (Some i)" for i
    unfolding eq using ownedD(8) [OF o, of i] by (cases "i = n") auto
qed

section \<open>The operations\<close>

lemma wf_world_cong:
  "inbounds w' = inbounds w \<Longrightarrow> listeners w' = listeners w \<Longrightarrow> ep_listeners w' = ep_listeners w \<Longrightarrow>
     next_obj w' = next_obj w \<Longrightarrow> wf_world w' = wf_world w"
  by (simp add: wf_world_def)

lemma inbound_session_make_env:
  assumes "inbound_session_make lib t this remote fd e = (r, e')"
  shows "(\<exists>F. e' = e\<lparr>open_fds := F\<rparr>) \<and> (\<forall>s. r = Inr s \<longrightarrow> path_remote (sess_path s) = remote)"
proof -
  have id: "\<exists>F. e = e\<lparr>open_fds := F\<rparr>" by (rule exI [of _ "open_fds e"]) simp
  show ?thesis
    using assms id
    by (auto simp: inbound_session_make_def inbound_init_internals_def new_ssl_def thenc_def bindc_def
        upd_session_def guardc_def guard_def of_result_def learn_local_def this_session_def session_new_def in_loop_def
        session_destroy_eq split: if_splits sum.splits)
qed

text \<open>Erasing an entry of a listener: what \<open>close_session\<close> and a duplicate connection do.\<close>

definition drop_entry :: "'u ep_lib \<Rightarrow> nat \<Rightarrow> listener \<Rightarrow> ip_v \<times> u16 \<Rightarrow> 'u world \<Rightarrow> 'u world" where
  "drop_entry lib lid l k w =
     release (destroy_inbound lib) (reg_find k (lst_sessions l))
       (set_sessions lid (snd (reg_erase k (lst_sessions l))) w)"

lemma set_sessions_fields [simp]:
  "inbounds (set_sessions lid r w) = inbounds w" "ep_listeners (set_sessions lid r w) = ep_listeners w"
  "next_obj (set_sessions lid r w) = next_obj w" "open_fds (set_sessions lid r w) = open_fds w"
  "job_queue (set_sessions lid r w) = job_queue w"
  "loop_thread_id (set_sessions lid r w) = loop_thread_id w"
  "listeners w lid = Some l \<Longrightarrow> listeners (set_sessions lid r w) = (listeners w)(lid \<mapsto> l\<lparr>lst_sessions := r\<rparr>)"
  by (simp_all add: set_sessions_def)

lemma drop_entry_fields:
  "inbounds (drop_entry lib lid l k w) =
     (case reg_find k (lst_sessions l) of Some (Some sid) \<Rightarrow> (inbounds w)(sid := None) | _ \<Rightarrow> inbounds w)"
  "listeners w lid = Some l \<Longrightarrow> listeners (drop_entry lib lid l k w) =
     (listeners w)(lid \<mapsto> l\<lparr>lst_sessions := snd (reg_erase k (lst_sessions l))\<rparr>)"
  "ep_listeners (drop_entry lib lid l k w) = ep_listeners w"
  "next_obj (drop_entry lib lid l k w) = next_obj w"
  "job_queue (drop_entry lib lid l k w) = job_queue w"
  "loop_thread_id (drop_entry lib lid l k w) = loop_thread_id w"
  by (auto simp: drop_entry_def release_def destroy_inbound_eq split: option.split)

lemma wf_drop_entry:
  "wf_world w \<Longrightarrow> listeners w lid = Some l \<Longrightarrow> wf_world (drop_entry lib lid l k w)"
  unfolding wf_world_def by (simp only: drop_entry_fields owned_close_entry)

lemma listener_close_session_eq:
  assumes "in_event_loop t w" and "listeners w lid = Some l"
  shows "listener_close_session lib t lid remote w =
     (Inr (), if reg_find (ip_key remote) (lst_sessions l) = None then w
              else drop_entry lib lid l (ip_key remote) w)"
  using assms reg.erase_found [of "ip_key remote" "lst_sessions l"]
  by (auto simp: listener_close_session_def world_in_loop_def drop_entry_def Let_def split: prod.splits)

lemma create_inbound_duplicate:
  assumes "in_event_loop t w" and "listeners w lid = Some l"
    and "reg_find (ip_key remote) (lst_sessions l) \<noteq> None"
  shows "create_inbound_session lib t lid remote fd w = (Inr (), drop_entry lib lid l (ip_key remote) w)"
  using assms
  by (auto simp: create_inbound_session_def world_in_loop_def drop_entry_def Let_def reg_try_emplace_def
      reg_find_def)

lemma create_inbound_fresh:
  assumes "in_event_loop t w" and "listeners w lid = Some l"
    and k: "reg_find (ip_key remote) (lst_sessions l) = None"
    and R: "R = snd (reg_try_emplace (ip_key remote) (lst_sessions l))"
    and m: "inbound_session_make (el_session lib) t (next_obj w) remote fd (set_sessions lid R w) = (m, w2)"
    and r: "create_inbound_session lib t lid remote fd w = (r, w')"
  shows "case m of
      Inl x \<Rightarrow> r = Inl x \<and> (\<exists>F. w' = (set_sessions lid R w)\<lparr>open_fds := F\<rparr>)
    | Inr s \<Rightarrow> r = Inr () \<and> path_remote (sess_path s) = remote \<and>
        inbounds w' = (inbounds w)(next_obj w \<mapsto> (s, lid)) \<and>
        listeners w' = (listeners w)(lid \<mapsto> l\<lparr>lst_sessions := reg_assign (ip_key remote) (Some (next_obj w)) R\<rparr>) \<and>
        ep_listeners w' = ep_listeners w \<and> next_obj w' = Suc (next_obj w) \<and>
        loop_thread_id w' = loop_thread_id w \<and> job_queue w' = job_queue w"
proof -
  have b: "reg_try_emplace (ip_key remote) (lst_sessions l) = (True, R)"
    using k by (simp add: R reg_try_emplace_def reg_find_def)
  from inbound_session_make_env [OF m] obtain F where
    F: "w2 = (set_sessions lid R w)\<lparr>open_fds := F\<rparr>" and p: "\<forall>s. m = Inr s \<longrightarrow> path_remote (sess_path s) = remote"
    by blast
  have "(r, w') = create_inbound_session lib t lid remote fd w" by (simp add: r)
  also have "\<dots> = (case m of Inl x \<Rightarrow> (Inl x, w2)
      | Inr s \<Rightarrow> (Inr (), set_sessions lid (reg_assign (ip_key remote) (Some (next_obj w)) R)
            (w2\<lparr>inbounds := (inbounds w2)(next_obj w \<mapsto> (s, lid)), next_obj := Suc (next_obj w)\<rparr>)))"
    using assms(1,2) b m
    by (simp add: create_inbound_session_def world_in_loop_def Let_def split: sum.split)
  finally have e: "(r, w') = \<dots>" .
  show ?thesis
  proof (cases m)
    case (Inl x)
    then show ?thesis using e F by auto
  next
    case (Inr s)
    have "listeners w2 lid = Some (l\<lparr>lst_sessions := R\<rparr>)" using assms(2) by (simp add: F)
    then show ?thesis using e F p assms(2) Inr by (auto simp: set_sessions_def)
  qed
qed

lemma wf_create_inbound:
  assumes wf: "wf_world w" and r: "create_inbound_session lib t lid remote fd w = (r, w')"
  shows "wf_world w'"
proof (cases "in_event_loop t w \<and> listeners w lid \<noteq> None")
  case False
  then have "w' = w" using r by (auto simp: create_inbound_session_def world_in_loop_def split: if_splits option.splits)
  then show ?thesis using wf by simp
next
  case True
  then obtain l where t: "in_event_loop t w" and l: "listeners w lid = Some l" by auto
  let ?k = "ip_key remote" and ?R = "snd (reg_try_emplace (ip_key remote) (lst_sessions l))"
  show ?thesis
  proof (cases "reg_find ?k (lst_sessions l) = None")
    case False
    then show ?thesis using create_inbound_duplicate [OF t l False, of lib fd] r wf_drop_entry [OF wf l] by simp
  next
    case True
    have o: "owned (inbounds w) ((listeners w)(lid \<mapsto> l\<lparr>lst_sessions := ?R\<rparr>)) (ep_listeners w) (next_obj w)"
      using wf l unfolding wf_world_def by (rule owned_take_entry)
    obtain m e' where m: "inbound_session_make (el_session lib) t (next_obj w) remote fd (set_sessions lid ?R w) = (m, e')"
      by fastforce
    note c = create_inbound_fresh [OF t l True refl m r]
    show ?thesis
    proof (cases m)
      case (Inl x)
      then show ?thesis using c o l by (auto simp: wf_world_def)
    next
      case (Inr s)
      then have k: "rkey s = ?k" using c by (simp add: rkey_def)
      have "reg_find (rkey s) ?R = Some None" using True by (simp add: k reg.look_emplace)
      with owned_fill_entry [OF o, of lid "l\<lparr>lst_sessions := ?R\<rparr>" s] c Inr k
      show ?thesis by (simp add: wf_world_def)
    qed
  qed
qed

lemma wf_close_listener:
  assumes wf: "wf_world w"
  shows "wf_world (close_listener lib p w)"
proof -
  have o: "owned (inbounds w) (listeners w) (ep_listeners w) (next_obj w)" using wf by (simp add: wf_world_def)
  show ?thesis
  proof (cases "\<exists>lid. reg_find p (ep_listeners w) = Some (Some lid)")
    case True
    then obtain lid where p: "reg_find p (ep_listeners w) = Some (Some lid)" by blast
    then obtain l where l: "listeners w lid = Some l" using ownedD(7) [OF o] by blast
    have f: "fst (reg_erase p (ep_listeners w))" using p by (simp add: reg.erase_found)
    let ?w1 = "w\<lparr>ep_listeners := snd (reg_erase p (ep_listeners w))\<rparr>"
    have "close_listener lib p w = destroy_listener lib lid ?w1"
      using f p by (cases "reg_erase p (ep_listeners w)") (simp add: close_listener_def release_def)
    moreover obtain F where "destroy_listener lib lid ?w1 =
        ?w1\<lparr>open_fds := F, inbounds := inbounds w |` (- set (reg_objects (lst_sessions l))),
            listeners := (listeners w)(lid := None)\<rparr>"
      using destroy_listener_eq [of lib lid ?w1] l by auto
    ultimately show ?thesis using owned_drop_listener [OF o l p] by (simp add: wf_world_def)
  next
    case False
    then have "close_listener lib p w = w \<or>
        close_listener lib p w = w\<lparr>ep_listeners := snd (reg_erase p (ep_listeners w))\<rparr>"
      by (auto simp: close_listener_def release_def Let_def split: prod.split option.split)
    then show ?thesis
      using o owned_ep_drop_null [OF o, of p] False by (auto simp: wf_world_def)
  qed
qed

lemma close_all_eq:
  assumes "in_event_loop t w" and "listeners w lid = Some l"
  shows "\<exists>F. listener_close_all lib t lid w =
     (Inr (), (set_sessions lid [] w)\<lparr>open_fds := F, inbounds := inbounds w |` (- set (reg_objects (lst_sessions l)))\<rparr>)"
  using assms destroy_inbounds_eq [of lib "reg_objects (lst_sessions l)" "set_sessions lid [] w"]
  by (auto simp: listener_close_all_def world_in_loop_def)

lemma wf_listener_close_all:
  assumes "wf_world w" and "listener_close_all lib t lid w = (r, w')"
  shows "wf_world w' \<and> loop_thread_id w' = loop_thread_id w \<and> dom (listeners w') = dom (listeners w)"
proof (cases "in_event_loop t w \<and> listeners w lid \<noteq> None")
  case True
  then obtain l where t: "in_event_loop t w" and l: "listeners w lid = Some l" by auto
  obtain F where "w' = (set_sessions lid [] w)\<lparr>open_fds := F, inbounds := inbounds w |` (- set (reg_objects (lst_sessions l)))\<rparr>"
    using close_all_eq [OF t l, of lib] assms(2) by auto
  moreover have "owned (inbounds w |` (- set (reg_objects (lst_sessions l))))
      ((listeners w)(lid \<mapsto> l\<lparr>lst_sessions := []\<rparr>)) (ep_listeners w) (next_obj w)"
    using assms(1) l unfolding wf_world_def by (rule owned_clear)
  ultimately show ?thesis using l by (auto simp: wf_world_def)
next
  case False
  then have "w' = w" using assms(2) by (auto simp: listener_close_all_def world_in_loop_def split: if_splits option.splits)
  then show ?thesis using assms(1) by simp
qed

lemma wf_close_all_listeners:
  "wf_world w \<Longrightarrow> wf_world (snd (close_all_listeners lib t ls w))"
proof (induction lib t ls w rule: close_all_listeners.induct)
  case (3 lib t l ls w)
  obtain r w1 where r: "listener_close_all lib t l w = (r, w1)" by fastforce
  have "wf_world w1" using wf_listener_close_all [OF 3(2) r] by simp
  then show ?case using 3 r by (cases r) auto
qed auto

lemma node_close_session_frame:
  assumes "node_close_session lib t nid host w = (r, w')"
  shows "inbounds w' = inbounds w \<and> listeners w' = listeners w \<and> ep_listeners w' = ep_listeners w \<and>
         next_obj w' = next_obj w"
  using assms
  by (auto simp: node_close_session_def world_in_loop_def release_def destroy_outbound_eq
      set_node_sessions_def Let_def split: if_splits option.splits prod.splits)

lemma wf_run_job [wf_intros]:
  assumes wf: "wf_world w" and r: "run_job lib t j w = (x, w')"
  shows "wf_world w'"
proof (cases j)
  case (Inbound_close sid)
  show ?thesis
  proof (cases "inbounds w sid")
    case None
    then show ?thesis using r wf Inbound_close by simp
  next
    case (Some a)
    then obtain s lid where s: "inbounds w sid = Some (s, lid)" by (cases a) auto
    then obtain l where l: "listeners w lid = Some l" using wf ownedD(4) unfolding wf_world_def by blast
    show ?thesis
    proof (cases "in_event_loop t w")
      case True
      then show ?thesis
        using r s Inbound_close wf wf_drop_entry [OF wf l, of lib "ip_key (path_remote (sess_path s))"]
          listener_close_session_eq [OF True l]
        by (auto simp: outcome_of_def split: if_splits)
    next
      case False
      then show ?thesis
        using r s Inbound_close wf
        by (auto simp: outcome_of_def listener_close_session_def world_in_loop_def)
    qed
  qed
next
  case (Outbound_close sid)
  show ?thesis
  proof (cases "outbounds w sid")
    case None
    then show ?thesis using r wf Outbound_close by simp
  next
    case (Some a)
    obtain s nid where a: "a = (s, nid)" by fastforce
    obtain y w1 where n: "node_close_session lib t nid (sess_host s) w = (y, w1)" by fastforce
    then have "w' = w1" using r Some a Outbound_close by (auto simp: outcome_of_def split: sum.splits)
    then show ?thesis using wf node_close_session_frame [OF n] by (simp add: wf_world_def)
  qed
next
  case (Listener_close lid)
  then show ?thesis using r wf wf_close_listener [OF wf] by (auto split: option.splits)
next
  case Close_all_listeners
  then show ?thesis using r wf wf_close_all_listeners [OF wf, of lib t] by (metis run_job.simps(4) snd_conv)
next
  case (User_closure js y)
  then show ?thesis using r wf by (auto simp: fold_call_soon wf_world_def)
qed

lemma wf_run_jobs: "wf_world w \<Longrightarrow> run_jobs (run_job lib t) js w = (x, w') \<Longrightarrow> wf_world w'"
proof (induction js arbitrary: w)
  case (Cons j js)
  obtain y w1 where j: "run_job lib t j w = (y, w1)" by fastforce
  have "wf_world w1" by (rule wf_run_job [OF Cons.prems(1) j])
  then show ?case using Cons j by (cases y) auto
qed simp

lemma wf_process:
  assumes "wf_world w" and "process_job_queue (run_job lib t) t' w = (x, w')"
  shows "wf_world w'"
proof (cases "in_event_loop t' w")
  case True
  have "wf_world (w\<lparr>job_queue := []\<rparr>)" using assms(1) by (simp add: wf_world_def)
  then show ?thesis
    using assms(2) True wf_run_jobs [of "w\<lparr>job_queue := []\<rparr>" lib t "job_queue w" x w']
    by (simp add: process_job_queue_def Let_def)
next
  case False
  then show ?thesis using assms by (simp add: process_job_queue_def)
qed

lemma listener_make_frame:
  assumes "listener_make lib t p w = (r, w')"
  shows "(\<exists>F. w' = w\<lparr>open_fds := F\<rparr>) \<and> (\<forall>l. r = Inr l \<longrightarrow> lst_sessions l = [])"
proof -
  have id: "\<exists>F. w = w\<lparr>open_fds := F\<rparr>" by (rule exI [of _ "open_fds w"]) simp
  show ?thesis
    using assms id
    by (auto simp: listener_make_def world_in_loop_def Let_def fd_open_def fd_close_def
        split: if_splits option.splits sum.splits)
qed

lemma wf_listen:
  assumes wf: "wf_world w" and r: "endpoint_listen lib t p w = (r, w')"
  shows "wf_world w'"
proof -
  have o: "owned (inbounds w) (listeners w) (ep_listeners w) (next_obj w)" using wf by (simp add: wf_world_def)
  let ?E = "snd (reg_try_emplace p (ep_listeners w))"
  have o1: "owned (inbounds w) (listeners w) ?E (next_obj w)" by (rule owned_ep_take [OF o])
  show ?thesis
  proof (cases "reg_find p (ep_listeners w) = None")
    case False
    then have "\<not> fst (reg_try_emplace p (ep_listeners w))" by (simp add: reg.emplace_ok)
    then have "w' = w\<lparr>ep_listeners := ?E\<rparr>"
      using r by (auto simp: endpoint_listen_def Let_def split: prod.splits)
    then show ?thesis using o1 by (simp add: wf_world_def)
  next
    case True
    then have f: "fst (reg_try_emplace p (ep_listeners w))" and e: "reg_find p ?E = Some None"
      by (simp_all add: reg.emplace_ok reg.look_emplace)
    obtain m w2 where m: "listener_make lib t p (w\<lparr>ep_listeners := ?E\<rparr>) = (m, w2)" by fastforce
    from listener_make_frame [OF m] obtain F where F: "w2 = w\<lparr>ep_listeners := ?E, open_fds := F\<rparr>"
      and l: "\<forall>l. m = Inr l \<longrightarrow> lst_sessions l = []" by auto
    show ?thesis
    proof (cases m)
      case (Inl x)
      then have "w' = w2" using r m f by (auto simp: endpoint_listen_def Let_def split: prod.splits)
      then show ?thesis using o1 F by (simp add: wf_world_def)
    next
      case (Inr k)
      then have "w' = w2\<lparr>ep_listeners := reg_assign p (Some (next_obj w2)) (ep_listeners w2),
          listeners := (listeners w2)(next_obj w2 \<mapsto> k), next_obj := Suc (next_obj w2)\<rparr>"
        using r m f by (auto simp: endpoint_listen_def Let_def split: prod.splits)
      then show ?thesis
        using owned_ep_fill [OF o1 e, of k] l Inr F by (simp add: wf_world_def)
    qed
  qed
qed

end
