(* ===== verification/Endpoint_Props.thy ===== *)
theory Endpoint_Props
  imports Lifetimes
begin

text \<open>
  The endpoint as a transition system over everything that can happen to it, and the
  properties of its reachable states.
\<close>

section \<open>Connecting leaves the inbound side alone\<close>

definition inbound_side :: "'u world \<Rightarrow> 'u world \<Rightarrow> bool" where
  "inbound_side w w' \<longleftrightarrow>
     inbounds w' = inbounds w \<and> listeners w' = listeners w \<and> ep_listeners w' = ep_listeners w \<and>
     next_obj w \<le> next_obj w' \<and> loop_thread_id w' = loop_thread_id w"

lemma inbound_side_wf: "inbound_side w w' \<Longrightarrow> wf_world w \<Longrightarrow> wf_world w'"
  by (simp add: inbound_side_def wf_world_def owned_mono)

lemma inbound_side_refl: "inbound_side w w"
  by (simp add: inbound_side_def)

lemma inbound_side_trans: "inbound_side u v \<Longrightarrow> inbound_side v w \<Longrightarrow> inbound_side u w"
  by (simp add: inbound_side_def)

lemma outbound_session_make_env:
  "\<exists>m F. outbound_session_make lib t this host fd local e = (m, e\<lparr>open_fds := F\<rparr>)"
proof -
  have id: "\<exists>F. e = e\<lparr>open_fds := F\<rparr>" by (rule exI [of _ "open_fds e"]) simp
  then show ?thesis
    by (auto simp: outbound_session_make_def outbound_init_internals_def node_new_ssl_def thenc_def bindc_def
        upd_session_def guardc_def guard_def session_new_def in_loop_def this_session_def Let_def
        session_destroy_eq)
qed

lemma destroy_outbounds_side: "inbound_side w (fold (destroy_outbound lib) sids w)"
proof (induction sids arbitrary: w)
  case (Cons sid sids)
  have "inbound_side w (destroy_outbound lib sid w)" by (simp add: inbound_side_def destroy_outbound_eq)
  then show ?case using Cons.IH inbound_side_trans by (simp) blast
qed (simp add: inbound_side_refl)

lemma destroy_node_side: "inbound_side w (destroy_node lib nid w)"
proof (cases "nodes w nid")
  case (Some n)
  have "inbound_side w (fold (destroy_outbound lib) (reg_objects (node_sessions n)) w)"
    by (rule destroy_outbounds_side)
  then show ?thesis using Some by (simp add: destroy_node_def inbound_side_def Let_def)
qed (simp add: destroy_node_def inbound_side_refl)

lemma create_outbound_side: "create_outbound_session lib t nid w = (r, w') \<Longrightarrow> inbound_side w w'"
proof -
  assume r: "create_outbound_session lib t nid w = (r, w')"
  show ?thesis
  proof (cases "in_event_loop t w \<and> nodes w nid \<noteq> None")
    case False
    then have "w' = w"
      using r by (auto simp: create_outbound_session_def world_in_loop_def split: if_splits option.splits)
    then show ?thesis by (simp add: inbound_side_refl)
  next
    case True
    then obtain n where n: "nodes w nid = Some n" and t: "in_event_loop t w" by auto
    let ?h = "uri_host (node_uri n)"
    obtain b R where b: "reg_try_emplace ?h (node_sessions n) = (b, R)" by fastforce
    obtain m F where m: "outbound_session_make (el_session lib) t (next_obj w) ?h (node_fd n) (node_local n)
        (set_node_sessions nid R w) = (m, (set_node_sessions nid R w)\<lparr>open_fds := F\<rparr>)"
      using outbound_session_make_env by blast
    show ?thesis
      using r n t b m
      by (auto simp: create_outbound_session_def world_in_loop_def inbound_side_def set_node_sessions_def
          release_def destroy_outbound_eq Let_def split: if_splits option.splits sum.splits)
  qed
qed

lemma node_init_side: "node_init_internals lib t local w = (r, w') \<Longrightarrow> inbound_side w w'"
  by (auto simp: node_init_internals_def world_in_loop_def inbound_side_def fd_open_def Let_def
      split: if_splits option.splits sum.splits)

lemma node_make_side: "node_make lib t u local w = (r, w') \<Longrightarrow> inbound_side w w'"
proof -
  assume r: "node_make lib t u local w = (r, w')"
  obtain m w1 where m: "node_init_internals lib t local w = (m, w1)" by fastforce
  then have 1: "inbound_side w w1" by (rule node_init_side)
  show ?thesis
  proof (cases m)
    case (Inl x)
    then show ?thesis using r m 1 by (simp add: node_make_def bindc_def)
  next
    case (Inr fd)
    let ?w2 = "w1\<lparr>nodes := (nodes w1)(next_obj w1 \<mapsto>
      \<lparr>node_local = local, node_fd = fd, node_uri = u, node_sessions = []\<rparr>), next_obj := Suc (next_obj w1)\<rparr>"
    obtain y w3 where c: "create_outbound_session lib t (next_obj w1) ?w2 = (y, w3)" by fastforce
    have 2: "inbound_side w1 ?w2" by (simp add: inbound_side_def)
    have 3: "inbound_side ?w2 w3" by (rule create_outbound_side [OF c])
    have "w' = (case y of Inl x \<Rightarrow> destroy_node lib (next_obj w1) w3 | Inr _ \<Rightarrow> w3)"
      using r m c Inr by (auto simp: node_make_def bindc_def thenc_def Let_def split: sum.splits)
    then have "inbound_side w3 w'"
      by (cases y) (simp_all add: destroy_node_side inbound_side_refl)
    then show ?thesis using 1 2 3 inbound_side_trans by blast
  qed
qed

lemma connect_side:
  assumes r: "endpoint_connect lib t url local w = (r, w')"
  shows "inbound_side w w'"
proof -
  obtain u p where u: "uri_parse (sl_ada (el_session lib)) url (url_state w) = (Inr u, p)"
    using that by (cases "accepted_url (sl_ada (el_session lib)) url") (auto simp: uri_parse_eq)
  obtain b R where b: "reg_try_emplace (uri_host u) (ep_nodes (w\<lparr>url_state := p\<rparr>)) = (b, R)" by fastforce
  let ?w1 = "w\<lparr>url_state := p, ep_nodes := R\<rparr>"
  have 1: "inbound_side w ?w1" by (simp add: inbound_side_def)
  obtain m w2 where m: "node_make lib t u local ?w1 = (m, w2)" by fastforce
  have 2: "inbound_side ?w1 w2" by (rule node_make_side [OF m])
  have "w' = ?w1 \<or> inbound_side w2 w'"
    using r u b m
    by (auto simp: endpoint_connect_def Let_def inbound_side_refl split: if_splits sum.splits)
      (simp_all add: inbound_side_def)
  then show ?thesis using 1 2 inbound_side_trans by blast
qed

section \<open>Everything that can happen\<close>

inductive ep_step :: "tid \<Rightarrow> 'u world \<Rightarrow> 'u world \<Rightarrow> bool" for t where
  listen: "endpoint_listen lib t p w = (b, w') \<Longrightarrow> ep_step t w w'"
| connect: "endpoint_connect lib t url local w = (b, w') \<Longrightarrow> ep_step t w w'"
| accept: "accept_cb lib t lid fd addr w = (r, w') \<Longrightarrow> ep_step t w w'"
| session_closes: "inbounds w sid = Some (s, lid) \<Longrightarrow> ep_step t w (call_soon (Inbound_close sid) w)"
| outbound_closes: "outbounds w sid = Some (s, nid) \<Longrightarrow> ep_step t w (call_soon (Outbound_close sid) w)"
| listener_fails: "listeners w lid = Some l \<Longrightarrow> ep_step t w (call_soon (Listener_close lid) w)"
| shutdown: "ep_step t w (call_soon Close_all_listeners w)"
| user: "from_user j \<Longrightarrow> ep_step t w (call_soon j w)"
| jobs: "process_job_queue (run_job lib t) t w = (x, w') \<Longrightarrow> ep_step t w w'"

inductive_cases ep_step_E: "ep_step t w w'"

lemma wf_call_soon: "wf_world (call_soon j w) = wf_world w"
  by (rule wf_world_cong) (simp_all add: call_soon_def)

lemma ep_step_wf: "ep_step t w w' \<Longrightarrow> wf_world w \<Longrightarrow> wf_world w'"
proof (induction rule: ep_step.induct)
  case (connect lib url local w b w') then show ?case by (rule inbound_side_wf [OF connect_side])
next
  case (accept lib lid fd addr w r w')
  then show ?case by (auto simp: accept_cb_def split: sum.splits intro: wf_create_inbound)
qed (auto simp: wf_call_soon intro: wf_listen wf_process)

lemma endpoint_make_wf: "endpoint_make ssl creds tid0 c prs fds = (Inr w, c') \<Longrightarrow> wf_world w"
  by (auto simp: endpoint_make_def wf_world_def owned_empty split: sum.splits prod.splits)

lemma reachable_wf: "(ep_step t)\<^sup>*\<^sup>* w0 w \<Longrightarrow> wf_world w0 \<Longrightarrow> wf_world w"
  by (induction rule: rtranclp_induct) (auto intro: ep_step_wf)

section \<open>Closing\<close>

lemma destroy_listener_fields:
  "ep_listeners (destroy_listener lib i w) = ep_listeners w"
  "listeners (destroy_listener lib i w) = (listeners w)(i := None)"
proof -
  obtain F where "destroy_listener lib i w = (case listeners w i of None \<Rightarrow> w
      | Some l \<Rightarrow> w\<lparr>open_fds := F, inbounds := inbounds w |` (- set (reg_objects (lst_sessions l))),
                    listeners := (listeners w)(i := None)\<rparr>)"
    using destroy_listener_eq by blast
  then show "ep_listeners (destroy_listener lib i w) = ep_listeners w"
    "listeners (destroy_listener lib i w) = (listeners w)(i := None)"
    by (auto simp: fun_upd_idem split: option.split)
qed

lemma close_listener_fields:
  "reg_find q (ep_listeners (close_listener lib p w)) =
     (if q = p then None else reg_find q (ep_listeners w))"
  "listeners (close_listener lib p w) =
     (case reg_find p (ep_listeners w) of Some (Some i) \<Rightarrow> (listeners w)(i := None) | _ \<Rightarrow> listeners w)"
proof -
  obtain b r where e: "reg_erase p (ep_listeners w) = (b, r)" by fastforce
  then have b: "b = (reg_find p (ep_listeners w) \<noteq> None)"
    and r: "reg_find q r = (if q = p then None else reg_find q (ep_listeners w))" for q
    using reg.erase_found [of p "ep_listeners w"] reg.look_erase [of q p "ep_listeners w"] by simp_all
  show "reg_find q (ep_listeners (close_listener lib p w)) =
     (if q = p then None else reg_find q (ep_listeners w))"
    by (auto simp: close_listener_def e b r release_def destroy_listener_fields split: option.split)
  show "listeners (close_listener lib p w) =
     (case reg_find p (ep_listeners w) of Some (Some i) \<Rightarrow> (listeners w)(i := None) | _ \<Rightarrow> listeners w)"
    by (auto simp: close_listener_def e b release_def destroy_listener_fields split: option.split)
qed

text \<open>The sessions that go are those of the listener that goes.\<close>

lemma close_listener_inbounds:
  assumes wf: "wf_world w"
  shows "inbounds (close_listener lib p w) sid = (case inbounds w sid of None \<Rightarrow> None
     | Some (s, k) \<Rightarrow> if reg_find p (ep_listeners w) = Some (Some k) then None else Some (s, k))"
proof -
  have o: "owned (inbounds w) (listeners w) (ep_listeners w) (next_obj w)" using wf by (simp add: wf_world_def)
  obtain b r where e: "reg_erase p (ep_listeners w) = (b, r)" by fastforce
  show ?thesis
  proof (cases "\<exists>k. reg_find p (ep_listeners w) = Some (Some k)")
    case True
    then obtain k l where k: "reg_find p (ep_listeners w) = Some (Some k)" "listeners w k = Some l"
      using ownedD(7) [OF o] by blast
    have f: "b" using k(1) reg.erase_found [of p "ep_listeners w"] e by simp
    let ?w1 = "w\<lparr>ep_listeners := r\<rparr>"
    obtain F where F: "destroy_listener lib k ?w1 =
        ?w1\<lparr>open_fds := F, inbounds := inbounds w |` (- set (reg_objects (lst_sessions l))),
            listeners := (listeners w)(k := None)\<rparr>"
      using destroy_listener_eq [of lib k ?w1] k(2) by auto
    have "inbounds (close_listener lib p w) = inbounds w |` (- set (reg_objects (lst_sessions l)))"
      using f k F by (simp add: close_listener_def release_def e)
    then show ?thesis
      using listener_objects [OF o k(2), of sid] k(1)
      by (auto simp: restrict_map_def split: option.split)
  next
    case False
    then have "inbounds (close_listener lib p w) = inbounds w"
      by (auto simp: close_listener_def release_def Let_def split: prod.split option.split)
    then show ?thesis using False by (auto split: option.split)
  qed
qed

lemma inbound_close_runs:
  assumes wf: "wf_world w" and t: "in_event_loop t w" and s: "inbounds w sid = Some (s, lid)"
  shows "\<exists>w1. run_job lib t (Inbound_close sid) w = (None, w1) \<and> inbounds w1 = (inbounds w)(sid := None) \<and>
           in_event_loop t w1 \<and> wf_world w1 \<and>
           (\<exists>l. listeners w lid = Some l \<and>
              listeners w1 = (listeners w)(lid \<mapsto> l\<lparr>lst_sessions := snd (reg_erase (rkey s) (lst_sessions l))\<rparr>))"
proof -
  obtain l where l: "listeners w lid = Some l" and k: "reg_find (rkey s) (lst_sessions l) = Some (Some sid)"
    using wf ownedD(4) s unfolding wf_world_def by blast
  let ?w1 = "drop_entry lib lid l (rkey s) w"
  have "run_job lib t (Inbound_close sid) w = (None, ?w1)"
    using s k listener_close_session_eq [OF t l, of lib "path_remote (sess_path s)"]
    by (simp add: outcome_of_def rkey_def)
  moreover have "inbounds ?w1 = (inbounds w)(sid := None) \<and> in_event_loop t ?w1 \<and> wf_world ?w1 \<and>
      (\<exists>l. listeners w lid = Some l \<and>
         listeners ?w1 = (listeners w)(lid \<mapsto> l\<lparr>lst_sessions := snd (reg_erase (rkey s) (lst_sessions l))\<rparr>))"
    using k l t wf_drop_entry [OF wf l, of lib "rkey s"]
    by (simp add: drop_entry_fields in_event_loop_def)
  ultimately show ?thesis by blast
qed

lemma close_all_null:
  assumes "wf_world w" and "in_event_loop t w"
    and "\<forall>l. Some l \<in> set es \<longrightarrow> l \<in> dom (listeners w)" and "None \<in> set es"
  shows "fst (close_all_listeners lib t es w) = Some null_deref"
  using assms
proof (induction lib t es w rule: close_all_listeners.induct)
  case (3 lib t l ls w)
  obtain k where k: "listeners w l = Some k" using 3(4) by auto
  obtain F where r: "listener_close_all lib t l w = (Inr (), (set_sessions l [] w)
      \<lparr>open_fds := F, inbounds := inbounds w |` (- set (reg_objects (lst_sessions k)))\<rparr>)" (is "_ = (_, ?w1)")
    using close_all_eq [OF 3(3) k] by blast
  have "wf_world ?w1 \<and> loop_thread_id ?w1 = loop_thread_id w \<and> dom (listeners ?w1) = dom (listeners w)"
    by (rule wf_listener_close_all [OF 3(2) r])
  moreover have "None \<in> set ls" using 3(5) by simp
  ultimately show ?case
    using 3(1) [OF r [symmetric] refl] 3(3,4) r by (simp add: in_event_loop_def)
qed simp_all

section \<open>Shutdown\<close>

definition loop_side :: "'u world \<Rightarrow> 'u world \<Rightarrow> bool" where
  "loop_side w w' \<longleftrightarrow>
     loop_thread_id w' = loop_thread_id w \<and> loop_thread w' = loop_thread w \<and>
     loop_joinable w' = loop_joinable w \<and> ep_close_immediately w' = ep_close_immediately w"

lemma loop_side_trans: "loop_side u v \<Longrightarrow> loop_side v w \<Longrightarrow> loop_side u w"
  by (simp add: loop_side_def)

lemma destroy_listener_side: "loop_side w (destroy_listener lib i w)"
proof -
  obtain F where "destroy_listener lib i w = (case listeners w i of None \<Rightarrow> w
      | Some l \<Rightarrow> w\<lparr>open_fds := F, inbounds := inbounds w |` (- set (reg_objects (lst_sessions l))),
                    listeners := (listeners w)(i := None)\<rparr>)"
    using destroy_listener_eq by blast
  then show ?thesis by (simp add: loop_side_def split: option.split)
qed

lemma destroy_listeners_side: "loop_side w (fold (destroy_listener lib) is w)"
proof (induction "is" arbitrary: w)
  case (Cons i "is")
  show ?case using loop_side_trans [OF destroy_listener_side Cons.IH] by simp
qed (simp add: loop_side_def)

lemma close_all_side: "loop_side w (snd (close_all_listeners lib t es w))"
proof (induction lib t es w rule: close_all_listeners.induct)
  case (3 lib t l ls w)
  obtain r w1 where r: "listener_close_all lib t l w = (r, w1)" by fastforce
  have 1: "loop_side w w1"
  proof (cases "in_event_loop t w \<and> listeners w l \<noteq> None")
    case True
    then obtain k where "in_event_loop t w" "listeners w l = Some k" by auto
    from close_all_eq [OF this, of lib] r show ?thesis by (auto simp: loop_side_def set_sessions_def)
  next
    case False
    then have "w1 = w"
      using r by (auto simp: listener_close_all_def world_in_loop_def split: if_splits option.splits)
    then show ?thesis by (simp add: loop_side_def)
  qed
  then show ?case using 3 [OF r [symmetric]] r loop_side_trans by (cases r) auto
qed (simp_all add: loop_side_def)

section \<open>A world for the witnesses\<close>

text \<open>One listener, asked for on port 0 and bound to 4433, with one session; its close is queued.\<close>

abbreviation toy_peer :: ip_address where "toy_peer \<equiv> ip_address_of (V4 (ipv4 1)) 999"

definition toy_conn :: session where
  "toy_conn = session_new 1 5 \<lparr>path_local = ip_address_of_port 4433, path_remote = toy_peer\<rparr> False []"

definition toy_world :: "(string \<times> string) world" where
  "toy_world =
     \<lparr>loop_running = True, loop_thread_id = 7, loop_thread = True, loop_joinable = True,
      job_queue = [Inbound_close 1], waker_active = True, tickers = Map.empty, watchers = Map.empty,
      url_state = parser_new, open_fds = {3, 5, 6}, lib_calls = [],
      ep_listeners = [(0, Some 0)], ep_nodes = [], ep_ctx = None, ep_client_id = 1,
      ep_close_immediately = False,
      listeners = [0 \<mapsto> \<lparr>lst_local = ip_address_of_port 4433, lst_fd = 3, lst_sessions = [(ip_key toy_peer, Some 1)]\<rparr>],
      nodes = Map.empty, inbounds = [1 \<mapsto> (toy_conn, 0)], outbounds = Map.empty, next_obj = 2\<rparr>"

definition toy_ep_lib :: "(string \<times> string) ep_lib" where
  "toy_ep_lib =
     \<lparr>el_session = toy_session_lib [], el_order = (\<lambda>_. []), conn_bind = (\<lambda>_. None),
      conn_name = (\<lambda>_. (0, sockaddr_in \<lparr>s_addr = 0\<rparr> 0)), sys_socket = 9, set_nonblocking = (\<lambda>_. 0),
      sys_bind = (\<lambda>_ _. 0)\<rparr>"

lemma toy_world_wf: "wf_world toy_world"
  unfolding wf_world_def
proof (rule ownedI)
  have k: "rkey toy_conn = ip_key toy_peer" by (simp add: rkey_def toy_conn_def session_new_def)
  show "inbounds toy_world sid = Some (s, lid) \<Longrightarrow>
      \<exists>l. listeners toy_world lid = Some l \<and> reg_find (rkey s) (lst_sessions l) = Some (Some sid)" for sid s lid
    by (auto simp: toy_world_def reg_find_def k split: if_splits)
  show "listeners toy_world lid = Some l \<Longrightarrow> reg_find k (lst_sessions l) = Some (Some sid) \<Longrightarrow>
      \<exists>s. inbounds toy_world sid = Some (s, lid) \<and> rkey s = k" for lid l k sid
    using k by (auto simp: toy_world_def reg_find_def split: if_splits)
qed (auto simp: toy_world_def wf_registry_def reg_find_def split: if_splits)

lemma toy_world_in_loop: "in_event_loop 7 toy_world"
  by (simp add: in_event_loop_def toy_world_def)

lemma toy_world_inbound: "inbounds toy_world 1 = Some (toy_conn, 0)"
  by (simp add: toy_world_def)

section \<open>Properties\<close>

text \<open>
  Ownership: in every state an endpoint can reach, an inbound session lives
  exactly when the map of a live listener holds it, under the session's remote
  address, and a listener lives exactly when one entry of the endpoint's map holds it.
\<close>

theorem ownership_reachable:
  assumes "endpoint_make ssl creds tid0 c prs fds = (Inr w0, c')" and "(ep_step t)\<^sup>*\<^sup>* w0 w"
  shows "((\<exists>s. inbounds w sid = Some (s, lid) \<and> rkey s = k) \<longleftrightarrow>
            (\<exists>l. listeners w lid = Some l \<and> reg_find k (lst_sessions l) = Some (Some sid))) \<and>
         (listeners w lid \<noteq> None \<longleftrightarrow> (\<exists>!p. reg_find p (ep_listeners w) = Some (Some lid)))"
proof -
  have "wf_world w" using reachable_wf [OF assms(2)] endpoint_make_wf [OF assms(1)] by blast
  then have o: "owned (inbounds w) (listeners w) (ep_listeners w) (next_obj w)" by (simp add: wf_world_def)
  show ?thesis
    using ownedD(4) [OF o] ownedD(5) [OF o] ownedD(7) [OF o] ownedD(8) [OF o] by blast
qed

definition toy_ssl :: openssl where
  "toy_ssl = \<lparr>SSL_CTX_new = (\<lambda>_. True), set_default_paths = (\<lambda>_. 1),
     use_PrivateKey_file = (\<lambda>_ _. 1), use_certificate_file = (\<lambda>_ _. 1), check_private_key = (\<lambda>_ _ _. 1)\<rparr>"

theorem ownership_reachable_witness:
  "\<exists>w0 c' w. endpoint_make toy_ssl (Some \<lparr>keyfile = ''k'', certfile = ''c''\<rparr>) 7 0
        (parser_new :: (string \<times> string) url_parser) {} = (Inr w0, c') \<and>
     (ep_step 7)\<^sup>*\<^sup>* w0 w \<and> listeners w 0 \<noteq> None \<and> (\<exists>!p. reg_find p (ep_listeners w) = Some (Some 0))"
proof -
  let ?lib = "toy_ep_lib\<lparr>conn_bind := (\<lambda>_. Some 3)\<rparr>"
  obtain w0 c' where m: "endpoint_make toy_ssl (Some \<lparr>keyfile = ''k'', certfile = ''c''\<rparr>) 7 0
      (parser_new :: (string \<times> string) url_parser) {} = (Inr w0, c')"
    and f: "ep_listeners w0 = []" "next_obj w0 = 0" "loop_thread_id w0 = 7"
    by (simp add: endpoint_make_def take_client_id_def context_defs toy_ssl_def)
  obtain b w where w: "endpoint_listen ?lib 7 443 w0 = (b, w)" by fastforce
  then have s: "(ep_step 7)\<^sup>*\<^sup>* w0 w" using ep_step.listen by blast
  have "listeners w 0 \<noteq> None"
    using w f
    by (auto simp: endpoint_listen_def reg_try_emplace_def listener_make_def world_in_loop_def
        in_event_loop_def toy_ep_lib_def fd_open_def ip_address_of_sockaddr_def Let_def)
  then have "\<exists>!p. reg_find p (ep_listeners w) = Some (Some 0)"
    using ownership_reachable [OF m s] by blast
  then show ?thesis using m s \<open>listeners w 0 \<noteq> None\<close> by blast
qed

text \<open>
  The close of a live session succeeds, destroys that session and no other and
  takes it out of its listener's map; a second close of the same session that is still
  queued (two of the paths that close a session may each queue one) then dereferences
  the destroyed session.
\<close>

theorem close_twice_use_after_free:
  assumes "wf_world w" and "in_event_loop t w" and "inbounds w sid = Some (s, lid)"
  shows "\<exists>w1. run_job lib t (Inbound_close sid) w = (None, w1) \<and>
           inbounds w1 = (inbounds w)(sid := None) \<and> wf_world w1 \<and>
           (\<exists>l. listeners w1 lid = Some l \<and> reg_find (rkey s) (lst_sessions l) = None) \<and>
           run_jobs (run_job lib t) [Inbound_close sid, Inbound_close sid] w = (Some use_after_free, w1)"
proof -
  obtain w1 l where r: "run_job lib t (Inbound_close sid) w = (None, w1)"
    and i: "inbounds w1 = (inbounds w)(sid := None)" "wf_world w1"
    and l: "listeners w1 lid = Some (l\<lparr>lst_sessions := snd (reg_erase (rkey s) (lst_sessions l))\<rparr>)"
    using inbound_close_runs [OF assms, of lib] by auto
  have "run_job lib t (Inbound_close sid) w1 = (Some use_after_free, w1)" using i(1) by simp
  then have "run_jobs (run_job lib t) [Inbound_close sid, Inbound_close sid] w = (Some use_after_free, w1)"
    using r by (simp del: run_job.simps)
  moreover have "reg_find (rkey s) (snd (reg_erase (rkey s) (lst_sessions l))) = None"
    by (simp add: reg.look_erase)
  ultimately show ?thesis using r i l by auto
qed

theorem close_twice_use_after_free_witness:
  "\<exists>w1. run_job toy_ep_lib 7 (Inbound_close 1) toy_world = (None, w1) \<and> inbounds w1 1 = None \<and>
        fst (run_jobs (run_job toy_ep_lib 7) [Inbound_close 1, Inbound_close 1] toy_world) = Some use_after_free"
  using close_twice_use_after_free [OF toy_world_wf toy_world_in_loop toy_world_inbound, of toy_ep_lib]
  by (metis fst_conv fun_upd_same)

text \<open>
  C25. A second connection from an address that already has a session is said to be
  rejected; what the code does is destroy the session that exists. The new socket is
  neither used nor closed, and no entry is left for the address.
\<close>

theorem duplicate_connection_drops_existing:
  assumes "wf_world w" and "in_event_loop t w" and "inbounds w sid = Some (s, lid)"
    and "ip_eq remote (path_remote (sess_path s))"
  shows "\<exists>w'. create_inbound_session lib t lid remote fd w = (Inr (), w') \<and>
           inbounds w' = (inbounds w)(sid := None) \<and> wf_world w' \<and>
           (\<exists>l. listeners w' lid = Some l \<and> reg_find (ip_key remote) (lst_sessions l) = None) \<and>
           open_fds w' = fds_after (el_order lib s) s (open_fds w)"
proof -
  obtain l where l: "listeners w lid = Some l" "reg_find (rkey s) (lst_sessions l) = Some (Some sid)"
    using assms(1,3) ownedD(4) unfolding wf_world_def by blast
  have k: "ip_key remote = rkey s" using assms(4) by (simp add: ip_key_eq [symmetric] rkey_def)
  have r: "create_inbound_session lib t lid remote fd w = (Inr (), drop_entry lib lid l (rkey s) w)"
    using create_inbound_duplicate [OF assms(2) l(1), of remote lib fd] l(2) k by simp
  have "open_fds (drop_entry lib lid l (rkey s) w) = fds_after (el_order lib s) s (open_fds w)"
    using l(2) assms(3) by (simp add: drop_entry_def release_def destroy_inbound_eq)
  moreover have "reg_find (rkey s) (snd (reg_erase (rkey s) (lst_sessions l))) = None"
    by (simp add: reg.look_erase)
  ultimately show ?thesis
    using r l k wf_drop_entry [OF assms(1) l(1), of lib "rkey s"] by (simp add: drop_entry_fields)
qed

theorem duplicate_connection_drops_existing_witness:
  "\<exists>w'. create_inbound_session toy_ep_lib 7 0 toy_peer 6 toy_world = (Inr (), w') \<and> inbounds w' 1 = None \<and>
        open_fds w' = {3, 5, 6}"
proof -
  have "ip_eq toy_peer (path_remote (sess_path toy_conn))"
    by (simp add: toy_conn_def session_new_def ip_eq_iff)
  from duplicate_connection_drops_existing [OF toy_world_wf toy_world_in_loop toy_world_inbound this,
      of toy_ep_lib 6]
  obtain w' where w': "create_inbound_session toy_ep_lib 7 0 toy_peer 6 toy_world = (Inr (), w')"
    "inbounds w' = (inbounds toy_world)(1 := None)"
    "open_fds w' = fds_after (el_order toy_ep_lib toy_conn) toy_conn (open_fds toy_world)" by blast
  have "fds_after (el_order toy_ep_lib toy_conn) toy_conn (open_fds toy_world) = {3, 5, 6}"
    by (simp add: fds_after_def toy_ep_lib_def toy_conn_def session_new_def toy_world_def)
  with w' show ?thesis by auto
qed

text \<open>
  C32. An error of a listener closes whatever the endpoint's map holds under the port
  the listener is bound to. That is the listener itself exactly when it was asked for
  under that port; one asked for under another, as on port 0, stays alive with its sessions.
\<close>

theorem listener_error_closes_bound_port:
  assumes "wf_world w" and "listeners w lid = Some l" and "reg_find p (ep_listeners w) = Some (Some lid)"
  shows "\<exists>w1. run_job lib t (Listener_close lid) w = (None, w1) \<and> wf_world w1 \<and>
           listeners w1 lid = (if ip_port (lst_local l) = p then None else Some l) \<and>
           (\<forall>sid s. inbounds w1 sid = Some (s, lid) \<longleftrightarrow>
              inbounds w sid = Some (s, lid) \<and> ip_port (lst_local l) \<noteq> p) \<and>
           (\<forall>q. q \<noteq> ip_port (lst_local l) \<longrightarrow> reg_find q (ep_listeners w1) = reg_find q (ep_listeners w)) \<and>
           reg_find (ip_port (lst_local l)) (ep_listeners w1) = None"
proof -
  let ?b = "ip_port (lst_local l)" and ?w1 = "close_listener lib (ip_port (lst_local l)) w"
  have o: "owned (inbounds w) (listeners w) (ep_listeners w) (next_obj w)"
    using assms(1) by (simp add: wf_world_def)
  have "q = p" if "reg_find q (ep_listeners w) = Some (Some lid)" for q
    using that assms(3) ownedD(8) [OF o ownedD(7) [OF o assms(3)]] by blast
  then have b: "reg_find ?b (ep_listeners w) = Some (Some lid) \<longleftrightarrow> ?b = p"
    using assms(3) by (cases "?b = p") blast+
  have L: "listeners ?w1 = (case reg_find ?b (ep_listeners w) of
      Some (Some i) \<Rightarrow> (listeners w)(i := None) | _ \<Rightarrow> listeners w)"
    by (rule close_listener_fields)
  have "listeners ?w1 lid = (if ?b = p then None else Some l)"
    using assms(2) b unfolding L by (auto split: option.split)
  moreover have "inbounds ?w1 sid = Some (s, lid) \<longleftrightarrow> inbounds w sid = Some (s, lid) \<and> ?b \<noteq> p" for sid s
    using b by (auto simp: close_listener_inbounds [OF assms(1)] split: option.split)
  moreover have "run_job lib t (Listener_close lid) w = (None, ?w1)" using assms(2) by simp
  moreover have "reg_find q (ep_listeners ?w1) = (if q = ?b then None else reg_find q (ep_listeners w))" for q
    by (rule close_listener_fields)
  ultimately show ?thesis
    using wf_close_listener [OF assms(1), of lib ?b]
    by (intro exI [of _ ?w1] conjI allI impI) simp_all
qed

theorem listener_error_closes_bound_port_witness:
  "\<exists>w1. run_job toy_ep_lib 7 (Listener_close 0) toy_world = (None, w1) \<and> listeners w1 0 \<noteq> None \<and>
     inbounds w1 1 = Some (toy_conn, 0)"
proof -
  have "listeners toy_world 0 = Some \<lparr>lst_local = ip_address_of_port 4433, lst_fd = 3, lst_sessions = [(ip_key toy_peer, Some 1)]\<rparr>"
    "reg_find 0 (ep_listeners toy_world) = Some (Some 0)"
    by (simp_all add: toy_world_def reg_find_def)
  from listener_error_closes_bound_port [OF toy_world_wf this, of toy_ep_lib 7] show ?thesis
    using toy_world_inbound by (auto simp: ip_address_of_port_def)
qed

text \<open>How a \<open>listen\<close> on a free port fails.\<close>

lemma listen_failure:
  assumes "in_event_loop t w" and "reg_find p (ep_listeners w) = None"
    and "endpoint_listen lib t p w = (Inl x, w')" and "fst (reg_try_emplace p (ep_listeners w))"
  shows "if conn_bind lib p = None then x = null_deref else catchable x"
  using assms
  by (auto simp: endpoint_listen_def listener_make_def world_in_loop_def ip_address_of_port_def
      ip_address_of_sockaddr_def in_event_loop_def Let_def split: prod.splits option.splits if_splits sum.splits
      sockaddr.splits)



text \<open>
  C14. First in, first out: processing the queue of a loop, with the jobs of the endpoint
  and the closures of its user, when none of them throws, is taking the jobs off one queue
  from the front and running each with the later ones still queued, for as many jobs as
  were queued at the start; what they queue meanwhile goes behind those and stays for the
  next round.
\<close>

theorem jobs_run_fifo:
  assumes "in_event_loop t w" and "fst (process_job_queue (run_job lib t) t w) = None"
  shows "process_job_queue (run_job lib t) t w = fifo_steps (run_job lib t) (length (job_queue w)) w"
  by (rule jobs.process_is_fifo [OF assms])

text \<open>A closure of the user that queues another stands before a close: the close still runs first.\<close>

theorem jobs_run_fifo_witness:
  "\<exists>w w'. job_queue w = [User_closure [User_closure [] None] None, Inbound_close 1] \<and>
     process_job_queue (run_job toy_ep_lib 7) 7 w = fifo_steps (run_job toy_ep_lib 7) 2 w \<and>
     snd (process_job_queue (run_job toy_ep_lib 7) 7 w) = w' \<and>
     inbounds w' 1 = None \<and> job_queue w' = [User_closure [] None]"
proof -
  let ?j = "User_closure [] None" and ?r = "run_job toy_ep_lib 7"
  let ?w = "toy_world\<lparr>job_queue := [User_closure [?j] None, Inbound_close 1]\<rparr>"
  let ?v = "toy_world\<lparr>job_queue := [?j], waker_active := True\<rparr>"
  have "wf_world ?v" using toy_world_wf by (simp add: wf_world_def)
  moreover have t: "in_event_loop 7 ?v" "in_event_loop 7 ?w" and s: "inbounds ?v 1 = Some (toy_conn, 0)"
    using toy_world_in_loop toy_world_inbound by (simp_all add: in_event_loop_def)
  ultimately obtain w1 where w1: "?r (Inbound_close 1) ?v = (None, w1)" "inbounds w1 = (inbounds ?v)(1 := None)"
    using inbound_close_runs by blast
  obtain l where l: "listeners ?v 0 = Some l" by (simp add: toy_world_def)
  have q: "job_queue w1 = [?j]"
    using w1(1) listener_close_session_eq [OF t(1) l, of toy_ep_lib "path_remote (sess_path toy_conn)"] s
    by (auto simp: outcome_of_def drop_entry_fields split: if_splits)
  have p: "process_job_queue ?r 7 ?w = (None, w1)"
    using t(2) w1(1) by (simp add: process_job_queue_def call_soon_def Let_def del: run_job.simps(1))
  have "process_job_queue ?r 7 ?w = fifo_steps ?r (length (job_queue ?w)) ?w"
    by (rule jobs_run_fifo [OF t(2)]) (simp only: p fst_conv)
  then show ?thesis using p q w1(2) by (intro exI [of _ ?w] exI [of _ w1]) (simp add: numeral_2_eq_2)
qed

text \<open>
  The identifiers of endpoints repeat after 65536 of them, and the last before
  that is the identifier of the loop itself: the \<open>n\<close>-th endpoint of a process stops the
  loop's own tickers when it goes exactly when \<open>n\<close> is a multiple of 65536.
\<close>

theorem client_ids_wrap:
  "nth_client_id n 0 = of_nat n \<and>
   (nth_client_id n 0 = loop_id) = (65536 dvd n) \<and>
   (nth_client_id m 0 = nth_client_id n 0) = (m mod 65536 = n mod 65536)"
proof -
  have gen: "nth_client_id k c = c + of_nat k" for k c
    by (induction k arbitrary: c) (simp_all add: take_client_id_def)
  have eq: "(of_nat i = (of_nat j :: u16)) = (i mod 65536 = j mod 65536)" for i j
    by (simp add: word_unat_eq_iff unat_of_nat)
  have "(of_nat n = (0 :: u16)) = (65536 dvd n)"
    using eq [of n 0] by (simp add: dvd_eq_mod_eq_0)
  then show ?thesis using eq by (simp add: gen loop_id_def)
qed



end
