(* ===== verification/Wire.thy ===== *)
theory Wire
  imports Session_Data
begin

text \<open>
  A live connection: the callbacks nghttp2 makes into a session while it is fed or
  drained, the callbacks libevent makes when bytes arrive, are written or the
  connection changes, and what every one of them leaves alone.
\<close>

section \<open>Callbacks of nghttp2\<close>

datatype callback =
    Cb_event event
  | Cb_send "byte list"
  | Cb_chunk int "byte list"

text \<open>Under which registration nghttp2 makes the callback.\<close>

fun registered_as :: "callback \<Rightarrow> session_callback" where
  "registered_as (Cb_event (Ev_begin_headers _)) = cb_begin_headers"
| "registered_as (Cb_event (Ev_header _ _ _)) = cb_header"
| "registered_as (Cb_event (Ev_frame _)) = cb_frame_recv"
| "registered_as (Cb_event (Ev_close _ _)) = cb_stream_close"
| "registered_as (Cb_send _) = cb_send"
| "registered_as (Cb_chunk _ _) = cb_data_chunk"

text \<open>The hooks are virtual: which class answers is the session's.\<close>

definition virtual_hooks :: "('u, 'z) session_lib \<Rightarrow> tid \<Rightarrow> session \<Rightarrow> ('u, 'z) hooks" where
  "virtual_hooks lib t s = (if sess_is_outbound s then outbound_hooks lib t else inbound_hooks lib t)"

definition send_callback :: "tid \<Rightarrow> byte list \<Rightarrow> ('u, 'z, int) sop" where
  "send_callback t data = send_hook t data"

fun on_callback :: "('u, 'z) session_lib \<Rightarrow> tid \<Rightarrow> callback \<Rightarrow> ('u, 'z, int) sop" where
  "on_callback lib t (Cb_event ev) = bindc this_session (\<lambda>s. on_event (virtual_hooks lib t s) ev)"
| "on_callback lib t (Cb_send d) = send_callback t d"
| "on_callback lib t (Cb_chunk i d) = on_data_chunk_recv_callback i d"

fun run_callbacks :: "('u, 'z) session_lib \<Rightarrow> tid \<Rightarrow> callback list \<Rightarrow> ('u, 'z, unit) sop" where
  "run_callbacks lib t [] = returnc ()"
| "run_callbacks lib t (c # cs) = bindc (on_callback lib t c) (\<lambda>_. run_callbacks lib t cs)"

text \<open>
  What nghttp2 documents of \<open>nghttp2_session_mem_recv2\<close> and \<open>nghttp2_session_send\<close>: they
  touch the program only through the callbacks that were registered, any number of
  them, with header names and values as they came over the wire (a NUL is not legal in
  a name), and then return some code. An exception of a callback goes through.
\<close>

fun wire_callback :: "callback \<Rightarrow> bool" where
  "wire_callback (Cb_event ev) = wire_event ev"
| "wire_callback _ = True"

definition driven :: "('u, 'z) session_lib \<Rightarrow> tid \<Rightarrow> ('u, 'z, int) sop \<Rightarrow> bool" where
  "driven lib t m \<longleftrightarrow>
     (\<forall>se. \<exists>cs rv.
        (\<forall>c \<in> set cs. wire_callback c \<and>
           (\<exists>R. sess_nghttp2 (fst se) = Some R \<and> registered_as c \<in> R)) \<and>
        m se = bindc (run_callbacks lib t cs) (\<lambda>_. returnc rv) se)"

definition wired :: "('u, 'z) session_lib \<Rightarrow> tid \<Rightarrow> bool" where
  "wired lib t \<longleftrightarrow> (\<forall>bs. driven lib t (mem_recv lib bs)) \<and> driven lib t (session_send lib)"

section \<open>Callbacks of libevent\<close>

text \<open>
  The bufferevent of a session: bytes that arrive go to the end of the input buffer,
  bytes that were written leave the front of the output buffer, and everything else
  that happens to the connection is an event mask.
\<close>

datatype wire =
    Arrived "byte list"
  | Written nat
  | Happened "16 word"

fun session_io :: "('u, 'z) session_lib \<Rightarrow> tid \<Rightarrow> wire \<Rightarrow> ('u, 'z, unit) sop" where
  "session_io lib t (Arrived d) = thenc (deliver d) (read_cb lib t)"
| "session_io lib t (Written n) =
     thenc (upd_session (\<lambda>s. s\<lparr>sess_output := drop n (sess_output s)\<rparr>)) (write_cb lib t)"
| "session_io lib t (Happened evs) = event_cb lib t evs"

section \<open>What stays\<close>

text \<open>
  The part of the surroundings no session touches: the loop's own state apart from the
  queue, and whatever the client's record adds to \<open>io_env\<close>.
\<close>

definition loop_part :: "('j, 'z) event_loop_scheme \<Rightarrow>
    bool \<times> tid \<times> bool \<times> bool \<times> (caller_id \<rightharpoonup> wid list) \<times> (wid \<rightharpoonup> 'j ev_watcher)" where
  "loop_part e = (loop_running e, loop_thread_id e, loop_thread e, loop_joinable e, tickers e, watchers e)"

definition own_close :: "session \<Rightarrow> job" where
  "own_close s = (if sess_is_outbound s then Outbound_close (sess_this s) else Inbound_close (sess_this s))"

text \<open>
  The invariant of a live session, relative to the session \<open>s0\<close> and the surroundings
  \<open>e0\<close> a callback started in. What a session queues are closes of itself.
\<close>

definition streams_ok :: "session \<Rightarrow> bool" where
  "streams_ok s \<longleftrightarrow>
     (if sess_is_outbound s then sess_streams s = Map.empty \<and> sess_user_data s = Map.empty
      else wf_session s \<and> unpathed s)"

definition live_inv :: "tid \<Rightarrow> session \<Rightarrow> ('u, 'z) env \<Rightarrow> session \<times> ('u, 'z) env \<Rightarrow> bool" where
  "live_inv t s0 e0 se \<longleftrightarrow>
     in_event_loop t (snd se) \<and> streams_ok (fst se) \<and>
     sess_this (fst se) = sess_this s0 \<and> sess_is_outbound (fst se) = sess_is_outbound s0 \<and>
     path_remote (sess_path (fst se)) = path_remote (sess_path s0) \<and> sess_host (fst se) = sess_host s0 \<and>
     loop_part (snd se) = loop_part e0 \<and> io_env.more (snd se) = io_env.more e0 \<and>
     (\<exists>n. job_queue (snd se) = job_queue e0 @ replicate n (own_close s0))"

lemma live_inv_refl: "in_event_loop t e \<Longrightarrow> streams_ok s \<Longrightarrow> live_inv t s e (s, e)"
  by (simp add: live_inv_def exI [of _ 0])

lemma loop_part_ops [simp]:
  "loop_part (fd_open fd e) = loop_part e" "loop_part (fd_close fd e) = loop_part e"
  "loop_part (note_call c e) = loop_part e" "loop_part (e\<lparr>url_state := p\<rparr>) = loop_part e"
  "loop_part (call_soon j e) = loop_part e" "loop_part (stream_d st e) = loop_part e"
  by (simp_all add: loop_part_def fd_open_def fd_close_def note_call_def call_soon_def stream_d_def)

lemma more_ops [simp]:
  "io_env.more (fd_open fd e) = io_env.more e" "io_env.more (fd_close fd e) = io_env.more e"
  "io_env.more (note_call c e) = io_env.more e"
  "io_env.more (call_soon j e) = io_env.more e" "io_env.more (stream_d st e) = io_env.more e"
  by (simp_all add: fd_open_def fd_close_def note_call_def call_soon_def stream_d_def)

section \<open>Every operation of a session keeps it\<close>

lemma keeps_live_basic [keeps_intros]:
  "keeps (live_inv t s0 e0) this_session"
  "keeps (live_inv t s0 e0) (of_result r)"
  "keeps (live_inv t s0 e0) m \<Longrightarrow> keeps (live_inv t s0 e0) (in_loop t m)"
  "keeps (live_inv t s0 e0) (throw_about lib a err)"
  by (auto simp: keeps_def this_session_def of_result_def in_loop_def)

lemma keeps_live_session [keeps_intros]:
  "keeps (live_inv t s0 e0) (upd_session (\<lambda>s. s\<lparr>sess_input := f1 s\<rparr>))"
  "keeps (live_inv t s0 e0) (upd_session (\<lambda>s. s\<lparr>sess_output := f2 s\<rparr>))"
  "keeps (live_inv t s0 e0) (upd_session (\<lambda>s. s\<lparr>sess_nghttp2 := f3 s\<rparr>))"
  "keeps (live_inv t s0 e0) (upd_session (\<lambda>s. s\<lparr>sess_path := (sess_path s)\<lparr>path_local := a\<rparr>\<rparr>))"
  by (simp_all add: keeps_def upd_session_def live_inv_def streams_ok_def wf_session_def unpathed_def)

lemma live_inv_note: "live_inv t s0 e0 (s, e) \<Longrightarrow> live_inv t s0 e0 (s, note_call c e)"
  by (simp add: live_inv_def in_event_loop_def frame_simps)

lemma keeps_live_note [keeps_intros]: "keeps (live_inv t s0 e0) (upd_env (note_call c))"
  by (auto simp: keeps_def upd_env_def live_inv_note)

lemma live_inv_close:
  assumes "live_inv t s0 e0 (s, e)"
  shows "live_inv t s0 e0 (s, call_soon (own_close s) e)"
proof -
  obtain n where "job_queue e = job_queue e0 @ replicate n (own_close s0)"
    using assms by (auto simp: live_inv_def)
  moreover have "own_close s = own_close s0" using assms by (simp add: live_inv_def own_close_def)
  ultimately have "job_queue (call_soon (own_close s) e) = job_queue e0 @ replicate (Suc n) (own_close s0)"
    by (simp add: call_soon_def replicate_append_same)
  moreover have "in_event_loop t (call_soon (own_close s) e) = in_event_loop t e"
    by (simp add: in_event_loop_def call_soon_def)
  ultimately show ?thesis using assms unfolding live_inv_def fst_conv snd_conv loop_part_ops more_ops by blast
qed

lemma keeps_live_close [keeps_intros]:
  "keeps (live_inv t s0 e0) (close_session t)"
proof (rule keepsI)
  fix se assume i: "live_inv t s0 e0 se"
  then have "in_event_loop t (snd se)" by (simp add: live_inv_def)
  then have "close_session t se = (Inr (), (fst se, call_soon (own_close (fst se)) (snd se)))"
    by (cases se) (simp add: close_session_def this_session_def bindc_def inbound_close_session_def
        outbound_close_session_def upd_env_def own_close_def)
  then show "live_inv t s0 e0 (snd (close_session t se))"
    using i by (cases se) (simp add: live_inv_close)
qed

lemma keeps_live_driven:
  assumes "driven lib t m" and "\<And>cs. \<forall>c \<in> set cs. wire_callback c \<Longrightarrow> keeps I (run_callbacks lib t cs)"
  shows "keeps I m"
proof (rule keepsI)
  fix se assume "I se"
  obtain cs rv where c: "\<forall>c \<in> set cs. wire_callback c"
      and m: "m se = bindc (run_callbacks lib t cs) (\<lambda>_. returnc rv) se"
    using assms(1) unfolding driven_def by meson
  have "keeps I (bindc (run_callbacks lib t cs) (\<lambda>_. returnc rv))"
    by (intro keeps_intros assms(2) c)
  then show "I (snd (m se))" using \<open>I se\<close> unfolding m keeps_def by blast
qed

section \<open>The hooks keep it\<close>

definition env_frame :: "('u, 'z) env \<Rightarrow> ('u, 'z) env \<Rightarrow> bool" where
  "env_frame e e' \<longleftrightarrow> loop_part e' = loop_part e \<and> io_env.more e' = io_env.more e \<and> job_queue e' = job_queue e"

definition hook_frame :: "session \<Rightarrow> ('u, 'z) env \<Rightarrow> session \<times> ('u, 'z) env \<Rightarrow> bool" where
  "hook_frame s0 e0 se \<longleftrightarrow>
     sess_this (fst se) = sess_this s0 \<and> sess_is_outbound (fst se) = sess_is_outbound s0 \<and>
     sess_path (fst se) = sess_path s0 \<and> sess_host (fst se) = sess_host s0 \<and> env_frame e0 (snd se)"

lemma env_frame_trans: "env_frame e0 e1 \<Longrightarrow> env_frame e1 e2 \<Longrightarrow> env_frame e0 e2"
  by (simp add: env_frame_def)

lemma env_frame_ops:
  "env_frame e (fd_open fd e)" "env_frame e (fd_close fd e)" "env_frame e (note_call c e)"
  "env_frame e (e\<lparr>url_state := p\<rparr>)" "env_frame e (stream_d st e)" "env_frame e e"
  by (simp_all add: env_frame_def frame_simps)

lemma recv_frame_env:
  assumes "recv_frame be html lib st e = (rv, st', e')"
  shows "env_frame e e'"
  using assms
  by (auto simp: recv_frame_eq send_error_eq Let_def env_frame_def frame_simps
      split: option.splits if_splits)

lemma recv_path_header_env:
  assumes "recv_path_header ada path st e = (rv, st', e')"
  shows "env_frame e e'"
proof -
  obtain u p where "recv_path_header ada path st e = (Inr 0, st\<lparr>stream_req := u\<rparr>, e\<lparr>url_state := p\<rparr>)"
    using recv_path_header_ok by blast
  then show ?thesis using assms by (auto simp: env_frame_ops)
qed

lemma keeps_frame_basic:
  "keeps (hook_frame s0 e0) this_session"
  "keeps (hook_frame s0 e0) m \<Longrightarrow> keeps (hook_frame s0 e0) (in_loop t m)"
  "keeps (hook_frame s0 e0) (upd_session (\<lambda>s. s\<lparr>sess_streams := f1 s\<rparr>))"
  "keeps (hook_frame s0 e0) (upd_session (\<lambda>s. s\<lparr>sess_user_data := f2 s\<rparr>))"
  by (auto simp: keeps_def this_session_def in_loop_def upd_session_def hook_frame_def)

lemma keeps_frame_on_stream:
  assumes "keeps (hook_frame s0 e0) absent"
    and "\<And>st e rv st' e'. f st e = (rv, st', e') \<Longrightarrow> env_frame e e'"
  shows "keeps (hook_frame s0 e0) (on_stream k absent f)"
proof (rule keepsI)
  fix se assume h: "hook_frame s0 e0 se"
  show "hook_frame s0 e0 (snd (on_stream k absent f se))"
  proof (cases "sess_streams (fst se) k")
    case None
    then show ?thesis using assms(1) h by (cases se) (simp add: on_stream_def keeps_def)
  next
    case (Some st)
    obtain rv st' e' where r: "f st (snd se) = (rv, st', e')" by (metis surj_pair)
    then show ?thesis
      using Some h assms(2) [OF r] by (auto simp: on_stream_def hook_frame_def intro: env_frame_trans)
  qed
qed

lemma keeps_frame_erase: "keeps (hook_frame s0 e0) (erase_stream k)"
  by (auto simp: keeps_def erase_stream_def hook_frame_def env_frame_ops split: option.split
      intro: env_frame_trans)

lemma inbound_hooks_frame: "keeps (hook_frame s0 e0) (on_event (inbound_hooks lib t) ev)"
proof (cases ev)
  case (Ev_begin_headers f)
  then show ?thesis
    unfolding inbound_hooks_def inbound_begin_headers_hook_def Let_def
    by (simp only: on_event.simps hooks.select_convs) (intro keeps_intros keeps_frame_basic)
next
  case (Ev_header f n v)
  then show ?thesis
    unfolding inbound_hooks_def inbound_recv_header_hook_def
    by (simp only: on_event.simps hooks.select_convs) (intro keeps_intros keeps_frame_basic keeps_frame_on_stream recv_path_header_env)
next
  case (Ev_frame f)
  have "total_op g st e = (rv, st', e') \<Longrightarrow> g = recv_frame be html l \<Longrightarrow> env_frame e e'"
    for g be html l st e rv st' and e' :: "('u, 'z) env"
    by (auto simp: total_op_def split: prod.splits intro: recv_frame_env)
  then show ?thesis
    using Ev_frame
    unfolding inbound_hooks_def inbound_frame_recv_hook_def
    by (simp only: on_event.simps hooks.select_convs) (intro keeps_intros keeps_frame_basic keeps_frame_on_stream, blast)
next
  case (Ev_close i ec)
  then show ?thesis
    unfolding inbound_hooks_def inbound_stream_close_hook_def
    by (simp only: on_event.simps hooks.select_convs) (intro keeps_intros keeps_frame_basic keeps_frame_erase)
qed

lemma live_inv_hook:
  assumes "live_inv t s0 e0 se" and "hook_frame (fst se) (snd se) se'" and "streams_ok (fst se')"
  shows "live_inv t s0 e0 se'"
  using assms
  by (auto simp: live_inv_def hook_frame_def env_frame_def in_event_loop_def loop_part_def)

lemma keeps_live_event:
  assumes "wire_event ev"
  shows "keeps (live_inv t s0 e0) (bindc this_session (\<lambda>s. on_event (virtual_hooks lib t s) ev))"
proof (rule keepsI)
  fix se assume i: "live_inv t s0 e0 se"
  let ?m = "bindc this_session (\<lambda>s. on_event (virtual_hooks lib t s) ev)"
  have m: "?m se = on_event (virtual_hooks lib t (fst se)) ev se" by (simp add: bindc_def this_session_def)
  have t: "in_event_loop t (snd se)" and ok: "streams_ok (fst se)" using i by (simp_all add: live_inv_def)
  show "live_inv t s0 e0 (snd (?m se))"
  proof (cases "sess_is_outbound (fst se)")
    case True
    then have "outbound_inv t se" using t ok by (simp add: outbound_inv_def streams_ok_def)
    then obtain rv where "on_event (outbound_hooks lib t) ev se = (Inr rv, se)"
      using outb.step [where t = t and se = se and ev = ev and lib = lib] by auto
    then show ?thesis using True i unfolding m by (simp add: virtual_hooks_def)
  next
    case False
    then have "unpathed_inv t se"
      using t ok by (simp add: unpathed_inv_def inbound_inv_def streams_ok_def)
    then obtain rv se' where r: "on_event (inbound_hooks lib t) ev se = (Inr rv, se')" "unpathed_inv t se'"
      using wire.step [where t = t and se = se and ev = ev and lib = lib] assms by auto
    have f: "hook_frame (fst se) (snd se) se'"
      using keepsD [OF inbound_hooks_frame [of "fst se" "snd se"] _ r(1)]
      by (simp add: hook_frame_def env_frame_ops)
    have "streams_ok (fst se')"
      using False f r(2) by (simp add: hook_frame_def streams_ok_def unpathed_inv_def inbound_inv_def)
    then show ?thesis using False live_inv_hook [OF i f] r(1) unfolding m by (simp add: virtual_hooks_def)
  qed
qed

section \<open>Every callback of libevent keeps it\<close>

lemma keeps_live_chunk:
  "keeps (live_inv t s0 e0) (on_data_chunk_recv_callback i d)"
proof (rule keepsI)
  fix se assume i: "live_inv t s0 e0 se"
  have "snd (on_data_chunk_recv_callback i d se) = se"
    by (cases se) (auto simp: on_data_chunk_recv_callback_def bindc_def this_session_def on_stream_def
        total_op_def recv_data_def fun_upd_idem split: option.split)
  then show "live_inv t s0 e0 (snd (on_data_chunk_recv_callback i d se))" using i by simp
qed

lemma keeps_live_callback: "wire_callback c \<Longrightarrow> keeps (live_inv t s0 e0) (on_callback lib t c)"
proof (cases c)
  case (Cb_send d)
  then show ?thesis
    unfolding Cb_send on_callback.simps send_callback_def send_hook_def by (intro keeps_intros)
qed (simp_all add: keeps_live_event keeps_live_chunk)

lemma keeps_live_callbacks:
  "\<forall>c \<in> set cs. wire_callback c \<Longrightarrow> keeps (live_inv t s0 e0) (run_callbacks lib t cs)"
  by (induction cs) (auto intro!: keeps_intros keeps_live_callback)

lemma keeps_live_send:
  assumes "wired lib t"
  shows "keeps (live_inv t s0 e0) (send_session_data lib t)"
proof -
  have "keeps (live_inv t s0 e0) (session_send lib)"
    using assms unfolding wired_def by (blast intro: keeps_live_driven keeps_live_callbacks)
  then show ?thesis unfolding send_session_data_def by (intro keeps_intros)
qed

lemma keeps_live_read:
  assumes "wired lib t"
  shows "keeps (live_inv t s0 e0) (read_session_data lib t)"
proof -
  have "keeps (live_inv t s0 e0) (mem_recv lib bs)" for bs
    using assms unfolding wired_def by (blast intro: keeps_live_driven keeps_live_callbacks)
  then show ?thesis
    unfolding read_session_data_def Let_def by (intro keeps_intros keeps_live_send [OF assms])
qed

lemma keeps_live_init:
  assumes "wired lib t"
  shows "keeps (live_inv t s0 e0) (config_send_initial lib t)"
  unfolding config_send_initial_def outbound_initialize_session_def outbound_send_initial_def
    inbound_initialize_session_def inbound_send_initial_def submit_initial_def learn_local_def
  by (intro keeps_intros keeps_live_send [OF assms])

lemma keeps_live_io:
  assumes "wired lib t"
  shows "keeps (live_inv t s0 e0) (session_io lib t io)"
proof (cases io)
  case (Arrived d)
  then show ?thesis
    unfolding Arrived session_io.simps deliver_def read_cb_def
    by (intro keeps_intros keeps_live_read [OF assms])
next
  case (Written n)
  then show ?thesis
    unfolding Written session_io.simps write_cb_def write_session_data_def
    by (intro keeps_intros keeps_live_send [OF assms])
next
  case (Happened evs)
  then show ?thesis
    unfolding Happened session_io.simps event_cb_def
    by (intro keeps_intros keeps_live_init [OF assms])
qed

end
