(* ===== verification/System.thy ===== *)
theory System
  imports Endpoint_Props Wire
begin

text \<open>
  The whole program at work: the endpoint's operations, the jobs of its loop and the
  network traffic of every live session, as one transition system, with the invariant
  that ties the sessions to the objects that own them.
\<close>

section \<open>Traffic\<close>

text \<open>
  libevent calls back into a session while its bufferevent exists and has the
  callbacks. The session works on the world it is part of and is written back.
\<close>

definition inbound_io :: "'u ep_lib \<Rightarrow> tid \<Rightarrow> nat \<Rightarrow> wire \<Rightarrow> 'u world \<Rightarrow> exn option \<times> 'u world" where
  "inbound_io lib t sid io w =
     (case inbounds w sid of
        None \<Rightarrow> (None, w)
      | Some (s, lid) \<Rightarrow>
          if \<not> sess_bev_cbs s then (None, w)
          else (case session_io (el_session lib) t io (s, w) of
                  (r, s', w') \<Rightarrow> outcome_of (r, w'\<lparr>inbounds := (inbounds w')(sid \<mapsto> (s', lid))\<rparr>)))"

definition outbound_io :: "'u ep_lib \<Rightarrow> tid \<Rightarrow> nat \<Rightarrow> wire \<Rightarrow> 'u world \<Rightarrow> exn option \<times> 'u world" where
  "outbound_io lib t sid io w =
     (case outbounds w sid of
        None \<Rightarrow> (None, w)
      | Some (s, nid) \<Rightarrow>
          if \<not> sess_bev_cbs s then (None, w)
          else (case session_io (el_session lib) t io (s, w) of
                  (r, s', w') \<Rightarrow> outcome_of (r, w'\<lparr>outbounds := (outbounds w')(sid \<mapsto> (s', nid))\<rparr>)))"

text \<open>
  One step of the loop's thread, or of another thread that queues a job. What the
  libraries answer may differ from step to step; nghttp2 keeps to its documentation
  (\<open>wired\<close>). The error callback is made for a listener that exists.
\<close>

inductive sys_step :: "tid \<Rightarrow> 'u world \<Rightarrow> 'u world \<Rightarrow> bool" for t where
  listen: "endpoint_listen lib t p w = (b, w') \<Longrightarrow> sys_step t w w'"
| connect: "endpoint_connect lib t url local w = (b, w') \<Longrightarrow> sys_step t w w'"
| accept: "listeners w lid = Some l \<Longrightarrow> accept_cb lib t lid fd addr w = (r, w') \<Longrightarrow> sys_step t w w'"
| fails: "listeners w lid = Some l \<Longrightarrow> error_cb t lid w = (r, w') \<Longrightarrow> sys_step t w w'"
| traffic_in: "wired (el_session lib) t \<Longrightarrow> inbound_io lib t sid io w = (x, w') \<Longrightarrow> sys_step t w w'"
| traffic_out: "wired (el_session lib) t \<Longrightarrow> outbound_io lib t sid io w = (x, w') \<Longrightarrow> sys_step t w w'"
| shutdown: "t' \<noteq> t \<Longrightarrow> loop_call (run_job lib t') t' Close_all_listeners w = (x, w') \<Longrightarrow> sys_step t w w'"
| immediate: "sys_step t w (set_shutdown_immediate b w)"
| user: "from_user j \<Longrightarrow> sys_step t w (call_soon j w)"
| jobs: "process_job_queue (run_job lib t) t w = (x, w') \<Longrightarrow> sys_step t w w'"

section \<open>The invariant\<close>

definition inbound_ok :: "'u world \<Rightarrow> bool" where
  "inbound_ok w \<longleftrightarrow> (\<forall>sid s lid. inbounds w sid = Some (s, lid) \<longrightarrow>
     streams_ok s \<and> sess_this s = sid \<and> \<not> sess_is_outbound s)"

text \<open>
  The same for the other side, over the outbound sessions \<open>U\<close> and the nodes \<open>N\<close>: an
  outbound session lives exactly as long as the entry of its node's map under its host,
  a node exactly as long as one entry of the endpoint's map \<open>E\<close>.
\<close>

definition outbound_ok :: "(nat \<rightharpoonup> session \<times> nat) \<Rightarrow> (nat \<rightharpoonup> node) \<Rightarrow> nat \<Rightarrow> bool" where
  "outbound_ok U N n \<longleftrightarrow>
     (\<forall>sid s nid. U sid = Some (s, nid) \<longrightarrow> sid < n \<and> streams_ok s \<and> sess_this s = sid \<and>
        sess_is_outbound s \<and>
        (\<exists>k. N nid = Some k \<and> reg_find (sess_host s) (node_sessions k) = Some (Some sid))) \<and>
     (\<forall>nid k. N nid = Some k \<longrightarrow> nid < n) \<and>
     (\<forall>nid k h sid. N nid = Some k \<longrightarrow> reg_find h (node_sessions k) = Some (Some sid) \<longrightarrow>
        (\<exists>s. U sid = Some (s, nid) \<and> sess_host s = h))"

definition nodes_ok :: "(nat \<rightharpoonup> node) \<Rightarrow> (string, nat) registry \<Rightarrow> bool" where
  "nodes_ok N E \<longleftrightarrow>
     (\<forall>h nid. reg_find h E = Some (Some nid) \<longrightarrow> N nid \<noteq> None) \<and>
     (\<forall>nid. N nid \<noteq> None \<longrightarrow> (\<exists>!h. reg_find h E = Some (Some nid)))"

definition sys_inv :: "tid \<Rightarrow> 'u world \<Rightarrow> bool" where
  "sys_inv t w \<longleftrightarrow> in_event_loop t w \<and> wf_world w \<and> inbound_ok w \<and>
     outbound_ok (outbounds w) (nodes w) (next_obj w) \<and> nodes_ok (nodes w) (ep_nodes w)"

text \<open>The world's own fields are the part of the record that \<open>io_env\<close> does not know.\<close>

lemma world_more:
  assumes "io_env.more w' = io_env.more (w :: 'u world)"
  shows "inbounds w' = inbounds w" "outbounds w' = outbounds w" "listeners w' = listeners w"
    "nodes w' = nodes w" "ep_listeners w' = ep_listeners w" "ep_nodes w' = ep_nodes w"
    "next_obj w' = next_obj w" "ep_ctx w' = ep_ctx w" "ep_close_immediately w' = ep_close_immediately w"
    "ep_client_id w' = ep_client_id w"
  using assms by (cases w; cases w'; simp)+

text \<open>The inbound operations leave the outbound side alone.\<close>

definition outbound_side :: "'u world \<Rightarrow> 'u world \<Rightarrow> bool" where
  "outbound_side w w' \<longleftrightarrow>
     outbounds w' = outbounds w \<and> nodes w' = nodes w \<and> ep_nodes w' = ep_nodes w \<and>
     next_obj w \<le> next_obj w' \<and> loop_thread_id w' = loop_thread_id w"

lemma outbound_side_refl: "outbound_side w w"
  by (simp add: outbound_side_def)

lemma outbound_side_trans: "outbound_side u v \<Longrightarrow> outbound_side v w \<Longrightarrow> outbound_side u w"
  by (simp add: outbound_side_def)

lemma outbound_okI:
  assumes "\<And>sid s nid. U sid = Some (s, nid) \<Longrightarrow>
      sid < n \<and> streams_ok s \<and> sess_this s = sid \<and> sess_is_outbound s"
    and "\<And>sid s nid. U sid = Some (s, nid) \<Longrightarrow>
      \<exists>k. N nid = Some k \<and> reg_find (sess_host s) (node_sessions k) = Some (Some sid)"
    and "\<And>nid k. N nid = Some k \<Longrightarrow> nid < n"
    and "\<And>nid k h sid. N nid = Some k \<Longrightarrow> reg_find h (node_sessions k) = Some (Some sid) \<Longrightarrow>
      \<exists>s. U sid = Some (s, nid) \<and> sess_host s = h"
  shows "outbound_ok U N n"
  unfolding outbound_ok_def using assms by blast

lemma outbound_okD:
  assumes "outbound_ok U N n"
  shows "U sid = Some (s, nid) \<Longrightarrow> sid < n \<and> streams_ok s \<and> sess_this s = sid \<and> sess_is_outbound s"
    "U sid = Some (s, nid) \<Longrightarrow>
       \<exists>k. N nid = Some k \<and> reg_find (sess_host s) (node_sessions k) = Some (Some sid)"
    "N nid = Some k \<Longrightarrow> nid < n"
    "N nid = Some k \<Longrightarrow> reg_find h (node_sessions k) = Some (Some sid) \<Longrightarrow>
       \<exists>s. U sid = Some (s, nid) \<and> sess_host s = h"
  using assms unfolding outbound_ok_def by blast+

lemma outbound_ok_mono: "outbound_ok U N n \<Longrightarrow> n \<le> m \<Longrightarrow> outbound_ok U N m"
  by (rule outbound_okI) (fastforce dest: outbound_okD)+

lemma sys_inv_outbound_side:
  assumes "sys_inv t w" and "outbound_side w w'" and "wf_world w'" and "inbound_ok w'"
  shows "sys_inv t w'"
  using assms outbound_ok_mono [of "outbounds w" "nodes w" "next_obj w" "next_obj w'"]
  by (simp add: sys_inv_def outbound_side_def in_event_loop_def)

lemma inbound_ok_sub:
  assumes "inbound_ok w" and "inbounds w' \<subseteq>\<^sub>m inbounds w"
  shows "inbound_ok w'"
  using assms unfolding inbound_ok_def map_le_def by (metis domI)

lemma inbound_okD:
  "inbound_ok w \<Longrightarrow> inbounds w sid = Some (s, lid) \<Longrightarrow> streams_ok s \<and> sess_this s = sid \<and> \<not> sess_is_outbound s"
  unfolding inbound_ok_def by blast

lemma inbound_ok_upd:
  assumes "inbound_ok w" and "inbounds w' = (inbounds w)(sid \<mapsto> (s, lid))"
    and "streams_ok s" and "sess_this s = sid" and "\<not> sess_is_outbound s"
  shows "inbound_ok w'"
  unfolding inbound_ok_def assms(2)
proof (intro allI impI)
  fix i x j assume "((inbounds w)(sid \<mapsto> (s, lid))) i = Some (x, j)"
  then show "streams_ok x \<and> sess_this x = i \<and> \<not> sess_is_outbound x"
    using assms(3-5) inbound_okD [OF assms(1)] by (cases "i = sid") auto
qed

section \<open>Accepting and listening\<close>

lemma inbound_session_make_ok:
  assumes "inbound_session_make lib t this remote fd e = (Inr s, e')"
  shows "streams_ok s \<and> sess_this s = this \<and> \<not> sess_is_outbound s"
  using assms
  by (auto simp: inbound_session_make_def inbound_init_internals_def new_ssl_def thenc_def bindc_def
      upd_session_def guardc_def guard_def of_result_def learn_local_def this_session_def session_new_def
      in_loop_def streams_ok_def wf_session_def unpathed_def split: if_splits sum.splits)

lemma create_inbound_effect:
  assumes "create_inbound_session lib t lid remote fd w = (r, w')"
  shows "outbound_side w w'"
    and "inbounds w' \<subseteq>\<^sub>m inbounds w \<or>
         (\<exists>s. inbounds w' = (inbounds w)(next_obj w \<mapsto> (s, lid)) \<and> streams_ok s \<and>
              sess_this s = next_obj w \<and> \<not> sess_is_outbound s)"
proof -
  have "outbound_side w w' \<and> (inbounds w' \<subseteq>\<^sub>m inbounds w \<or>
         (\<exists>s. inbounds w' = (inbounds w)(next_obj w \<mapsto> (s, lid)) \<and> streams_ok s \<and>
              sess_this s = next_obj w \<and> \<not> sess_is_outbound s))"
  proof (cases "in_event_loop t w \<and> listeners w lid \<noteq> None")
    case False
    then have "w' = w"
      using assms by (auto simp: create_inbound_session_def world_in_loop_def split: if_splits option.splits)
    then show ?thesis by (simp add: outbound_side_refl)
  next
    case True
    then obtain l where t: "in_event_loop t w" and l: "listeners w lid = Some l" by auto
    obtain b R where b: "reg_try_emplace (ip_key remote) (lst_sessions l) = (b, R)" by fastforce
    obtain m w2 where m: "inbound_session_make (el_session lib) t (next_obj w) remote fd (set_sessions lid R w) = (m, w2)"
      by fastforce
    obtain F where w2: "w2 = (set_sessions lid R w)\<lparr>open_fds := F\<rparr>" using inbound_session_make_env [OF m] by blast
    show ?thesis
    proof (cases "b \<and> (\<exists>s. m = Inr s)")
      case True
      then obtain s where s: "m = Inr s" by blast
      then have "streams_ok s \<and> sess_this s = next_obj w \<and> \<not> sess_is_outbound s"
        using inbound_session_make_ok m by blast
      then show ?thesis
        using assms t l b m s True
        by (auto simp: create_inbound_session_def world_in_loop_def w2 outbound_side_def set_sessions_def Let_def)
    next
      case False
      then show ?thesis
        using assms t l b m
        by (auto simp: create_inbound_session_def world_in_loop_def w2 outbound_side_def set_sessions_def
            release_def destroy_inbound_eq map_le_def Let_def split: if_splits sum.splits option.splits)
    qed
  qed
  then show "outbound_side w w'" "inbounds w' \<subseteq>\<^sub>m inbounds w \<or>
         (\<exists>s. inbounds w' = (inbounds w)(next_obj w \<mapsto> (s, lid)) \<and> streams_ok s \<and>
              sess_this s = next_obj w \<and> \<not> sess_is_outbound s)" by blast+
qed

lemma sys_create_inbound:
  assumes i: "sys_inv t w" and r: "create_inbound_session lib t lid remote fd w = (r, w')"
  shows "sys_inv t w'"
proof -
  have ok: "inbound_ok w" and wf: "wf_world w" using i by (simp_all add: sys_inv_def)
  have "inbound_ok w'"
    using create_inbound_effect(2) [OF r]
  proof
    assume "inbounds w' \<subseteq>\<^sub>m inbounds w"
    then show ?thesis by (rule inbound_ok_sub [OF ok])
  next
    assume "\<exists>s. inbounds w' = (inbounds w)(next_obj w \<mapsto> (s, lid)) \<and> streams_ok s \<and>
        sess_this s = next_obj w \<and> \<not> sess_is_outbound s"
    then show ?thesis using inbound_ok_upd [OF ok] by blast
  qed
  then show ?thesis
    using sys_inv_outbound_side [OF i create_inbound_effect(1) [OF r]] wf_create_inbound [OF wf r] by blast
qed

lemma listen_effect:
  assumes "endpoint_listen lib t p w = (b, w')"
  shows "outbound_side w w' \<and> inbounds w' = inbounds w"
proof -
  obtain c R where c: "reg_try_emplace p (ep_listeners w) = (c, R)" by fastforce
  obtain m w2 where m: "listener_make lib t p (w\<lparr>ep_listeners := R\<rparr>) = (m, w2)" by fastforce
  obtain F where "w2 = w\<lparr>ep_listeners := R, open_fds := F\<rparr>" using listener_make_frame [OF m] by auto
  then show ?thesis
    using assms c m by (auto simp: endpoint_listen_def Let_def outbound_side_def split: if_splits sum.splits)
qed

lemma sys_listen:
  assumes i: "sys_inv t w" and r: "endpoint_listen lib t p w = (b, w')"
  shows "sys_inv t w'"
proof -
  have "wf_world w'" using wf_listen [OF _ r] i by (simp add: sys_inv_def)
  moreover have "inbound_ok w'"
    using i listen_effect [OF r] by (simp add: sys_inv_def inbound_ok_def)
  ultimately show ?thesis using sys_inv_outbound_side [OF i] listen_effect [OF r] by blast
qed

section \<open>Traffic\<close>

lemma owned_upd_session:
  assumes o: "owned I L E n" and s: "I sid = Some (s, lid)" and k: "rkey s' = rkey s"
  shows "owned (I(sid \<mapsto> (s', lid))) L E n"
proof (rule ownedI)
  show "L i = Some l \<Longrightarrow> i < n \<and> wf_registry (lst_sessions l)" for i l
    using ownedD(1,2) [OF o] by blast
  show "(I(sid \<mapsto> (s', lid))) j = Some (x, i) \<Longrightarrow> j < n" for j x i
    using ownedD(3) [OF o] s by (auto split: if_splits)
  show "(I(sid \<mapsto> (s', lid))) j = Some (x, i) \<Longrightarrow>
      \<exists>l. L i = Some l \<and> reg_find (rkey x) (lst_sessions l) = Some (Some j)" for j x i
    using ownedD(4) [OF o] s k by (auto split: if_splits)
  show "L i = Some l \<Longrightarrow> reg_find k (lst_sessions l) = Some (Some j) \<Longrightarrow>
      \<exists>x. (I(sid \<mapsto> (s', lid))) j = Some (x, i) \<and> rkey x = k" for i l k j
    using ownedD(5) [OF o, of i l k j] s \<open>rkey s' = rkey s\<close> by auto
qed (use ownedD(6-8) [OF o] in blast)+

lemma outbound_ok_upd:
  assumes o: "outbound_ok U N n" and s: "U sid = Some (s, nid)" and h: "sess_host s' = sess_host s"
    and ok: "streams_ok s'" "sess_this s' = sid" "sess_is_outbound s'"
  shows "outbound_ok (U(sid \<mapsto> (s', nid))) N n"
proof (rule outbound_okI)
  show "(U(sid \<mapsto> (s', nid))) j = Some (x, i) \<Longrightarrow>
      j < n \<and> streams_ok x \<and> sess_this x = j \<and> sess_is_outbound x" for j x i
    using outbound_okD(1) [OF o] s ok by (auto split: if_splits)
  show "(U(sid \<mapsto> (s', nid))) j = Some (x, i) \<Longrightarrow>
      \<exists>k. N i = Some k \<and> reg_find (sess_host x) (node_sessions k) = Some (Some j)" for j x i
    using outbound_okD(2) [OF o] s h by (auto split: if_splits)
  show "N i = Some k \<Longrightarrow> i < n" for i k by (rule outbound_okD(3) [OF o])
  show "N i = Some k \<Longrightarrow> reg_find y (node_sessions k) = Some (Some j) \<Longrightarrow>
      \<exists>x. (U(sid \<mapsto> (s', nid))) j = Some (x, i) \<and> sess_host x = y" for i k y j
    using outbound_okD(4) [OF o, of i k y j] s h by auto
qed

lemma io_effect:
  assumes w: "wired lib t" and t: "in_event_loop t w" and s: "streams_ok s"
    and r: "session_io lib t io (s, w) = (r, s', w')"
  shows "live_inv t s w (s', w')"
  using keepsD [OF keeps_live_io [OF w] live_inv_refl [OF t s] r] .

lemma outcome_of_snd [simp]: "snd (outcome_of (r, w)) = w"
  by (simp add: outcome_of_def split: sum.split)

lemma sys_traffic_in:
  assumes w: "wired (el_session lib) t" and i: "sys_inv t w"
  shows "sys_inv t (snd (inbound_io lib t sid io w))"
proof (cases "\<exists>s lid. inbounds w sid = Some (s, lid) \<and> sess_bev_cbs s")
  case False
  then have "snd (inbound_io lib t sid io w) = w" by (auto simp: inbound_io_def split: option.split)
  then show ?thesis using i by simp
next
  case True
  then obtain s lid where s: "inbounds w sid = Some (s, lid)" "sess_bev_cbs s" by blast
  have ok: "inbound_ok w" and t: "in_event_loop t w" using i by (simp_all add: sys_inv_def)
  note so = inbound_okD [OF ok s(1)]
  obtain r s' w' where r: "session_io (el_session lib) t io (s, w) = (r, s', w')" by (metis surj_pair)
  have l: "live_inv t s w (s', w')" using io_effect [OF w t _ r] so by simp
  let ?w = "w'\<lparr>inbounds := (inbounds w')(sid \<mapsto> (s', lid))\<rparr>"
  have m: "io_env.more w' = io_env.more w" and t': "in_event_loop t w'"
    using l by (simp_all add: live_inv_def)
  have "rkey s' = rkey s" using l by (simp add: live_inv_def rkey_def)
  then have "wf_world ?w"
    using owned_upd_session s(1) i by (simp add: sys_inv_def wf_world_def world_more [OF m])
  moreover have "inbound_ok ?w"
    using l so inbound_ok_upd [OF ok, of ?w sid s' lid] by (simp add: world_more [OF m] live_inv_def)
  ultimately have "sys_inv t ?w"
    using i t' by (simp add: sys_inv_def world_more [OF m] in_event_loop_def)
  then show ?thesis using s r by (simp add: inbound_io_def)
qed

lemma sys_traffic_out:
  assumes w: "wired (el_session lib) t" and i: "sys_inv t w"
  shows "sys_inv t (snd (outbound_io lib t sid io w))"
proof (cases "\<exists>s nid. outbounds w sid = Some (s, nid) \<and> sess_bev_cbs s")
  case False
  then have "snd (outbound_io lib t sid io w) = w" by (auto simp: outbound_io_def split: option.split)
  then show ?thesis using i by simp
next
  case True
  then obtain s nid where s: "outbounds w sid = Some (s, nid)" "sess_bev_cbs s" by blast
  have ok: "outbound_ok (outbounds w) (nodes w) (next_obj w)" and t: "in_event_loop t w"
    using i by (simp_all add: sys_inv_def)
  have so: "streams_ok s" "sess_this s = sid" "sess_is_outbound s"
    using outbound_okD(1) [OF ok s(1)] by simp_all
  obtain r s' w' where r: "session_io (el_session lib) t io (s, w) = (r, s', w')" by (metis surj_pair)
  have l: "live_inv t s w (s', w')" using io_effect [OF w t so(1) r] .
  let ?w = "w'\<lparr>outbounds := (outbounds w')(sid \<mapsto> (s', nid))\<rparr>"
  have m: "io_env.more w' = io_env.more w" and t': "in_event_loop t w'"
    using l by (simp_all add: live_inv_def)
  have "outbound_ok (outbounds ?w) (nodes ?w) (next_obj ?w)"
    using l so outbound_ok_upd [OF ok s(1), of s'] by (simp add: world_more [OF m] live_inv_def)
  then have "sys_inv t ?w"
    using i t' by (simp add: sys_inv_def world_more [OF m] in_event_loop_def inbound_ok_def wf_world_def)
  then show ?thesis using s r by (simp add: outbound_io_def)
qed

section \<open>Connecting\<close>

lemma outbound_session_make_ok:
  assumes "outbound_session_make lib t this host fd local e = (Inr s, e')"
  shows "streams_ok s \<and> sess_this s = this \<and> sess_is_outbound s \<and> sess_host s = host"
  using assms
  by (auto simp: outbound_session_make_def outbound_init_internals_def node_new_ssl_def thenc_def bindc_def
      upd_session_def guardc_def guard_def this_session_def session_new_def in_loop_def streams_ok_def Let_def
      split: if_splits option.splits)

text \<open>A new node comes with its one session, or not at all.\<close>

definition fresh_node :: "nat \<Rightarrow> 'u world \<Rightarrow> 'u world \<Rightarrow> bool" where
  "fresh_node nid w w' \<longleftrightarrow>
     nid = next_obj w \<and> next_obj w' = Suc (Suc nid) \<and>
     (\<exists>s k. outbounds w' = (outbounds w)(Suc nid \<mapsto> (s, nid)) \<and> nodes w' = (nodes w)(nid \<mapsto> k) \<and>
        streams_ok s \<and> sess_this s = Suc nid \<and> sess_is_outbound s \<and>
        node_sessions k = [(sess_host s, Some (Suc nid))])"

lemma fresh_nodeI:
  assumes "nid = next_obj w" and "next_obj w' = Suc (Suc nid)"
    and "outbounds w' = (outbounds w)(Suc nid \<mapsto> (s, nid))" and "nodes w' = (nodes w)(nid \<mapsto> k)"
    and "streams_ok s" and "sess_this s = Suc nid" and "sess_is_outbound s"
    and "node_sessions k = [(sess_host s, Some (Suc nid))]"
  shows "fresh_node nid w w'"
  unfolding fresh_node_def using assms by blast

lemma create_first_outbound:
  assumes t: "in_event_loop t w" and n: "nodes w nid = Some k" "node_sessions k = []"
    and r: "create_outbound_session lib t nid w = (r, w')"
  shows "ep_nodes w' = ep_nodes w"
    and "case r of
           Inl x \<Rightarrow> outbounds w' = outbounds w \<and> next_obj w' = next_obj w \<and>
             nodes w' = (nodes w)(nid \<mapsto> k\<lparr>node_sessions := [(uri_host (node_uri k), None)]\<rparr>)
         | Inr _ \<Rightarrow> next_obj w' = Suc (next_obj w) \<and>
             (\<exists>s. outbounds w' = (outbounds w)(next_obj w \<mapsto> (s, nid)) \<and>
                nodes w' = (nodes w)(nid \<mapsto> k\<lparr>node_sessions := [(sess_host s, Some (next_obj w))]\<rparr>) \<and>
                streams_ok s \<and> sess_this s = next_obj w \<and> sess_is_outbound s)"
proof -
  let ?h = "uri_host (node_uri k)"
  obtain m F where m: "outbound_session_make (el_session lib) t (next_obj w) ?h (node_fd k) (node_local k)
      (set_node_sessions nid [(?h, None)] w) = (m, (set_node_sessions nid [(?h, None)] w)\<lparr>open_fds := F\<rparr>)"
    using outbound_session_make_env by blast
  have e: "reg_try_emplace ?h (node_sessions k) = (True, [(?h, None)])"
    by (simp add: reg_try_emplace_def n)
  show "ep_nodes w' = ep_nodes w"
    using r t n e m
    by (auto simp: create_outbound_session_def world_in_loop_def set_node_sessions_def Let_def split: sum.splits)
  show "case r of
           Inl x \<Rightarrow> outbounds w' = outbounds w \<and> next_obj w' = next_obj w \<and>
             nodes w' = (nodes w)(nid \<mapsto> k\<lparr>node_sessions := [(uri_host (node_uri k), None)]\<rparr>)
         | Inr _ \<Rightarrow> next_obj w' = Suc (next_obj w) \<and>
             (\<exists>s. outbounds w' = (outbounds w)(next_obj w \<mapsto> (s, nid)) \<and>
                nodes w' = (nodes w)(nid \<mapsto> k\<lparr>node_sessions := [(sess_host s, Some (next_obj w))]\<rparr>) \<and>
                streams_ok s \<and> sess_this s = next_obj w \<and> sess_is_outbound s)"
  proof (cases m)
    case (Inl x)
    then show ?thesis
      using r t n e m by (auto simp: create_outbound_session_def world_in_loop_def set_node_sessions_def Let_def)
  next
    case (Inr s)
    then have "streams_ok s \<and> sess_this s = next_obj w \<and> sess_is_outbound s \<and> sess_host s = ?h"
      using outbound_session_make_ok m by blast
    then show ?thesis
      using Inr r t n e m
      by (auto simp: create_outbound_session_def world_in_loop_def set_node_sessions_def reg_assign_def Let_def
          intro!: exI [of _ s])
  qed
qed

lemma node_init_frame:
  assumes "node_init_internals lib t local w = (r, w')"
  shows "\<exists>F. w' = w\<lparr>open_fds := F\<rparr>"
proof -
  have id: "\<exists>F. w = w\<lparr>open_fds := F\<rparr>" by (rule exI [of _ "open_fds w"]) simp
  then show ?thesis
    using assms
    by (auto simp: node_init_internals_def world_in_loop_def fd_open_def Let_def
        split: if_splits option.splits sum.splits)
qed

lemma node_make_fresh:
  assumes t: "in_event_loop t w" and n: "nodes w (next_obj w) = None"
    and r: "node_make lib t u local w = (r, w')"
  shows "ep_nodes w' = ep_nodes w"
    and "case r of
           Inl x \<Rightarrow> outbounds w' = outbounds w \<and> nodes w' = nodes w
         | Inr nid \<Rightarrow> fresh_node nid w w'"
proof -
  obtain m w1 where m: "node_init_internals lib t local w = (m, w1)" by fastforce
  obtain F where w1: "w1 = w\<lparr>open_fds := F\<rparr>" using node_init_frame [OF m] by blast
  have "ep_nodes w' = ep_nodes w \<and> (case r of
           Inl x \<Rightarrow> outbounds w' = outbounds w \<and> nodes w' = nodes w
         | Inr nid \<Rightarrow> fresh_node nid w w')"
  proof (cases m)
    case (Inl x)
    then show ?thesis using r m w1 by (auto simp: node_make_def bindc_def)
  next
    case (Inr fd)
    let ?k = "\<lparr>node_local = local, node_fd = fd, node_uri = u, node_sessions = []\<rparr>"
    let ?w2 = "w1\<lparr>nodes := (nodes w1)(next_obj w \<mapsto> ?k), next_obj := Suc (next_obj w)\<rparr>"
    obtain y w3 where c: "create_outbound_session lib t (next_obj w) ?w2 = (y, w3)" by fastforce
    have t2: "in_event_loop t ?w2" using t by (simp add: in_event_loop_def w1)
    have n2: "nodes ?w2 (next_obj w) = Some ?k" "node_sessions ?k = []" by simp_all
    note e = create_first_outbound [OF t2 n2 c]
    show ?thesis
    proof (cases y)
      case (Inl x)
      have "w' = destroy_node lib (next_obj w) w3 \<and> r = Inl x"
        using r m c Inl Inr by (simp add: node_make_def bindc_def thenc_def Let_def w1)
      then show ?thesis
        using e Inl n by (auto simp: w1 destroy_node_def reg_objects_def List.map_filter_simps)
    next
      case (Inr z)
      have "w' = w3 \<and> r = Inr (next_obj w)"
        using r m c Inr \<open>m = Inr fd\<close> by (simp add: node_make_def bindc_def thenc_def Let_def w1)
      then show ?thesis using e Inr by (auto simp: w1 intro: fresh_nodeI)
    qed
  qed
  then show "ep_nodes w' = ep_nodes w" "case r of
           Inl x \<Rightarrow> outbounds w' = outbounds w \<and> nodes w' = nodes w
         | Inr nid \<Rightarrow> fresh_node nid w w'" by blast+
qed

lemma fresh_node_ok:
  assumes o: "outbound_ok (outbounds w) (nodes w) (next_obj w)" and f: "fresh_node nid w w'"
  shows "outbound_ok (outbounds w') (nodes w') (next_obj w')"
proof -
  obtain s k where U: "outbounds w' = (outbounds w)(Suc nid \<mapsto> (s, nid))"
    and N: "nodes w' = (nodes w)(nid \<mapsto> k)" and n: "nid = next_obj w" "next_obj w' = Suc (Suc nid)"
    and s: "streams_ok s" "sess_this s = Suc nid" "sess_is_outbound s"
    and k: "node_sessions k = [(sess_host s, Some (Suc nid))]"
    using f by (auto simp: fresh_node_def)
  have old: "outbounds w i = Some (x, j) \<Longrightarrow> i < nid \<and> j < nid" for i x j
    using outbound_okD(1,2,3) [OF o] n by blast
  show ?thesis
    unfolding U N n(2)
  proof (rule outbound_okI)
    show "((outbounds w)(Suc nid \<mapsto> (s, nid))) i = Some (x, j) \<Longrightarrow>
        i < Suc (Suc nid) \<and> streams_ok x \<and> sess_this x = i \<and> sess_is_outbound x" for i x j
      using outbound_okD(1) [OF o, of i x j] s old [of i x j] n(1) by (auto split: if_splits)
    show "((outbounds w)(Suc nid \<mapsto> (s, nid))) i = Some (x, j) \<Longrightarrow>
        \<exists>y. ((nodes w)(nid \<mapsto> k)) j = Some y \<and> reg_find (sess_host x) (node_sessions y) = Some (Some i)" for i x j
      using outbound_okD(2) [OF o, of i x j] k old [of i x j] by (auto simp: reg_find_def split: if_splits)
    show "((nodes w)(nid \<mapsto> k)) j = Some y \<Longrightarrow> j < Suc (Suc nid)" for j y
      using outbound_okD(3) [OF o, of j y] n by (auto split: if_splits)
    show "((nodes w)(nid \<mapsto> k)) j = Some y \<Longrightarrow> reg_find h (node_sessions y) = Some (Some i) \<Longrightarrow>
        \<exists>x. ((outbounds w)(Suc nid \<mapsto> (s, nid))) i = Some (x, j) \<and> sess_host x = h" for j y h i
    proof (cases "j = nid")
      case False
      assume "((nodes w)(nid \<mapsto> k)) j = Some y" "reg_find h (node_sessions y) = Some (Some i)"
      then obtain x where "outbounds w i = Some (x, j) \<and> sess_host x = h"
        using outbound_okD(4) [OF o, of j y h i] False by auto
      then show ?thesis using old by fastforce
    qed (use k in \<open>auto simp: reg_find_def split: if_splits\<close>)
  qed
qed

lemma nodes_ok_take:
  assumes N: "nodes_ok N E"
  shows "nodes_ok N (snd (reg_try_emplace h E))"
proof -
  have "reg_find k (snd (reg_try_emplace h E)) = Some (Some i) \<longleftrightarrow> reg_find k E = Some (Some i)" for k i
    by (auto simp: reg.look_emplace)
  then show ?thesis using N by (simp add: nodes_ok_def)
qed

lemma nodes_ok_fill:
  assumes N: "nodes_ok N E" and n: "N nid = None" and h: "reg_find h E = None"
    and E': "\<And>k. reg_find k E' = (if k = h then Some (Some nid) else reg_find k E)"
  shows "nodes_ok (N(nid \<mapsto> y)) E'"
proof -
  have none: "reg_find k E \<noteq> Some (Some nid)" for k using N n unfolding nodes_ok_def by blast
  then have eq: "reg_find k E' = Some (Some i) \<longleftrightarrow> (if i = nid then k = h else reg_find k E = Some (Some i))" for k i
    using h by (simp add: E')
  show ?thesis using N by (auto simp: nodes_ok_def eq)
qed

lemma sys_connect:
  assumes i: "sys_inv t w" and r: "endpoint_connect lib t url local w = (b, w')"
  shows "sys_inv t w'"
proof -
  have t: "in_event_loop t w" and O: "outbound_ok (outbounds w) (nodes w) (next_obj w)"
    and N: "nodes_ok (nodes w) (ep_nodes w)" and I: "inbound_ok w" and wf: "wf_world w"
    using i by (simp_all add: sys_inv_def)
  have side: "inbound_side w w'" by (rule connect_side [OF r])
  obtain u p where u: "uri_parse (sl_ada (el_session lib)) url (url_state w) = (Inr u, p)"
    using that by (cases "accepted_url (sl_ada (el_session lib)) url") (auto simp: uri_parse_eq)
  let ?h = "uri_host u"
  let ?w1 = "w\<lparr>url_state := p, ep_nodes := snd (reg_try_emplace ?h (ep_nodes w))\<rparr>"
  obtain m w2 where m: "node_make lib t u local ?w1 = (m, w2)" by fastforce
  have fresh: "nodes w (next_obj w) = None"
    using outbound_okD(3) [OF O, of "next_obj w"] by (cases "nodes w (next_obj w)") auto
  have t1: "in_event_loop t ?w1" using t by (simp add: in_event_loop_def)
  note e = node_make_fresh [OF t1 _ m, simplified, OF fresh]
  have "outbound_ok (outbounds w') (nodes w') (next_obj w') \<and> nodes_ok (nodes w') (ep_nodes w')"
  proof (cases "uri_bool u \<and> fst (reg_try_emplace ?h (ep_nodes w)) \<and> (\<exists>nid. m = Inr nid)")
    case True
    then obtain nid where nid: "m = Inr nid" by blast
    then have f: "fresh_node nid ?w1 w2" using e by simp
    have w': "w' = w2\<lparr>ep_nodes := reg_assign ?h (Some nid) (ep_nodes w2)\<rparr>"
      using r u m True nid by (auto simp: endpoint_connect_def Let_def split: prod.splits)
    have "outbound_ok (outbounds w2) (nodes w2) (next_obj w2)"
      by (rule fresh_node_ok [OF _ f]) (simp add: O)
    moreover have "reg_find k (ep_nodes w') = (if k = ?h then Some (Some nid) else reg_find k (ep_nodes w))" for k
      using True e by (simp add: w' reg.look_fill reg.look_emplace reg.emplace_ok)
    moreover obtain k where "nodes w' = (nodes w)(nid \<mapsto> k)" "nid = next_obj w"
      using f by (auto simp: w' fresh_node_def)
    ultimately show ?thesis
      using nodes_ok_fill [OF N fresh, of ?h "ep_nodes w'" k] True by (simp add: w' reg.emplace_ok)
  next
    case False
    then have "outbounds w' = outbounds w \<and> nodes w' = nodes w \<and>
        (ep_nodes w' = ep_nodes w \<or> ep_nodes w' = snd (reg_try_emplace ?h (ep_nodes w)))"
      using r u m e by (auto simp: endpoint_connect_def Let_def split: prod.splits if_splits sum.splits)
    moreover have "next_obj w \<le> next_obj w'" using side by (simp add: inbound_side_def)
    moreover have "nodes_ok (nodes w) (snd (reg_try_emplace ?h (ep_nodes w)))"
      by (rule nodes_ok_take [OF N])
    ultimately show ?thesis using N O outbound_ok_mono by auto
  qed
  moreover have "in_event_loop t w'" "inbound_ok w'"
    using t I side by (simp_all add: inbound_side_def in_event_loop_def inbound_ok_def)
  ultimately show ?thesis using inbound_side_wf [OF side wf] by (simp add: sys_inv_def)
qed

section \<open>Jobs\<close>

text \<open>Every job but the close of an outbound session only takes away from the inbound side.\<close>

definition takes :: "'u world \<Rightarrow> 'u world \<Rightarrow> bool" where
  "takes w w' \<longleftrightarrow> outbound_side w w' \<and> inbounds w' \<subseteq>\<^sub>m inbounds w \<and>
     dom (listeners w') \<subseteq> dom (listeners w) \<and> job_queue w' = job_queue w"

lemma takes_refl: "takes w w"
  by (simp add: takes_def outbound_side_refl)

lemma takes_trans: "takes u v \<Longrightarrow> takes v w \<Longrightarrow> takes u w"
  unfolding takes_def using outbound_side_trans map_le_trans by (metis subset_trans)

lemma map_le_take: "m(k := None) \<subseteq>\<^sub>m m" "m |` S \<subseteq>\<^sub>m m"
  by (auto simp: map_le_def restrict_map_def)

lemma takes_close_listener: "takes w (close_listener lib p w)"
proof -
  have d: "takes v (destroy_listener lib i v)" for i and v :: "'a world"
  proof -
    obtain F where "destroy_listener lib i v = (case listeners v i of None \<Rightarrow> v
        | Some l \<Rightarrow> v\<lparr>open_fds := F, inbounds := inbounds v |` (- set (reg_objects (lst_sessions l))),
                      listeners := (listeners v)(i := None)\<rparr>)"
      using destroy_listener_eq by blast
    then show ?thesis
      by (auto simp: takes_def outbound_side_def map_le_take split: option.split)
  qed
  have "takes w (w\<lparr>ep_listeners := r\<rparr>)" for r by (simp add: takes_def outbound_side_def)
  then show ?thesis
    by (auto simp: close_listener_def release_def takes_refl split: option.split prod.split
        intro: takes_trans [OF _ d])
qed

lemma takes_drop_entry: "takes w (drop_entry lib lid l k w)"
proof -
  have "takes w (set_sessions lid r w)" for r
    by (auto simp: takes_def outbound_side_def set_sessions_def split: if_splits)
  moreover have "takes v (destroy_inbound lib sid v)" for sid and v :: "'a world"
    by (simp add: takes_def outbound_side_def destroy_inbound_eq map_le_take)
  ultimately show ?thesis
    unfolding drop_entry_def release_def by (auto split: option.split intro: takes_trans)
qed

lemma takes_close_all: "takes w (snd (close_all_listeners lib t ls w))"
proof (induction lib t ls w rule: close_all_listeners.induct)
  case (3 lib t l ls w)
  obtain r w1 where r: "listener_close_all lib t l w = (r, w1)" by fastforce
  have "takes w w1"
  proof (cases "in_event_loop t w \<and> listeners w l \<noteq> None")
    case True
    then obtain k where "in_event_loop t w" "listeners w l = Some k" by auto
    from close_all_eq [OF this, of lib] r show ?thesis
      by (auto simp: takes_def outbound_side_def set_sessions_def map_le_take split: if_splits)
  next
    case False
    then have "w1 = w"
      using r by (auto simp: listener_close_all_def world_in_loop_def split: if_splits option.splits)
    then show ?thesis by (simp add: takes_refl)
  qed
  then show ?case using 3 [OF r [symmetric]] r takes_trans by (cases r) auto
qed (simp_all add: takes_refl)

lemma takes_run_job:
  assumes "in_event_loop t w" and "\<And>sid. j \<noteq> Outbound_close sid" and "\<And>js x. j \<noteq> User_closure js x"
  shows "takes w (snd (run_job lib t j w))"
proof (cases j)
  case (Inbound_close sid)
  show ?thesis
  proof (cases "inbounds w sid")
    case (Some x)
    obtain s lid where x: "x = (s, lid)" by fastforce
    show ?thesis
    proof (cases "listeners w lid")
      case None
      then show ?thesis
        using Inbound_close Some x assms(1)
        by (simp add: listener_close_session_def world_in_loop_def takes_refl)
    next
      case (Some l)
      then show ?thesis
        using Inbound_close \<open>inbounds w sid = _\<close> x listener_close_session_eq [OF assms(1) Some]
        by (simp add: takes_refl takes_drop_entry)
    qed
  qed (simp add: Inbound_close takes_refl)
qed (use assms in \<open>auto simp: takes_refl takes_close_listener takes_close_all split: option.split\<close>)

lemma outbound_ok_close:
  assumes o: "outbound_ok U N n" and k: "N nid = Some k"
  shows "outbound_ok (case reg_find h (node_sessions k) of Some (Some sid) \<Rightarrow> U(sid := None) | _ \<Rightarrow> U)
           (N(nid \<mapsto> k\<lparr>node_sessions := snd (reg_erase h (node_sessions k))\<rparr>)) n"
    (is "outbound_ok ?U ?N n")
proof (rule outbound_okI)
  have sub: "?U j = Some x \<Longrightarrow> U j = Some x \<and> reg_find h (node_sessions k) \<noteq> Some (Some j)" for j x
    by (auto split: option.splits if_splits)
  show "?U j = Some (s, i) \<Longrightarrow> j < n \<and> streams_ok s \<and> sess_this s = j \<and> sess_is_outbound s" for j s i
    using sub outbound_okD(1) [OF o] by blast
  show "?U j = Some (s, i) \<Longrightarrow> \<exists>y. ?N i = Some y \<and> reg_find (sess_host s) (node_sessions y) = Some (Some j)" for j s i
  proof -
    assume a: "?U j = Some (s, i)"
    then obtain y where "N i = Some y" "reg_find (sess_host s) (node_sessions y) = Some (Some j)"
      using sub outbound_okD(2) [OF o] by blast
    then show ?thesis using sub [OF a] k by (cases "i = nid") (auto simp: reg.look_erase)
  qed
  show "?N i = Some y \<Longrightarrow> i < n" for i y
    using outbound_okD(3) [OF o] k by (auto split: if_splits)
  show "?N i = Some y \<Longrightarrow> reg_find h' (node_sessions y) = Some (Some j) \<Longrightarrow> \<exists>s. ?U j = Some (s, i) \<and> sess_host s = h'"
    for i y h' j
  proof -
    assume a: "?N i = Some y" "reg_find h' (node_sessions y) = Some (Some j)"
    then have b: "\<exists>z. N i = Some z \<and> reg_find h' (node_sessions z) = Some (Some j) \<and> (i = nid \<longrightarrow> h' \<noteq> h)"
      using k by (auto simp: reg.look_erase split: if_splits)
    then obtain s where s: "U j = Some (s, i)" "sess_host s = h'" using outbound_okD(4) [OF o] by blast
    have "reg_find h (node_sessions k) \<noteq> Some (Some j)"
      using b s outbound_okD(4) [OF o k, of h j] by auto
    then have "?U j = U j" by (auto split: option.split)
    then show ?thesis using s by simp
  qed
qed

lemma outbound_close_effect:
  assumes t: "in_event_loop t w" and k: "nodes w nid = Some k"
  shows "\<exists>F. node_close_session lib t nid h w = (Inr (),
     if reg_find h (node_sessions k) = None then w
     else w\<lparr>open_fds := F,
            outbounds := (case reg_find h (node_sessions k) of Some (Some sid) \<Rightarrow> (outbounds w)(sid := None) | _ \<Rightarrow> outbounds w),
            nodes := (nodes w)(nid \<mapsto> k\<lparr>node_sessions := snd (reg_erase h (node_sessions k))\<rparr>)\<rparr>)"
proof -
  obtain b R where e: "reg_erase h (node_sessions k) = (b, R)" by fastforce
  then have b: "b \<longleftrightarrow> reg_find h (node_sessions k) \<noteq> None"
    using reg.erase_found [of h "node_sessions k"] by simp
  have id: "w\<lparr>outbounds := outbounds w\<rparr> = w" by simp
  show ?thesis
  proof (cases "reg_find h (node_sessions k)")
    case None
    then show ?thesis using t k b e by (simp add: node_close_session_def world_in_loop_def)
  next
    case (Some x)
    then have r: "node_close_session lib t nid h w =
        (Inr (), release (destroy_outbound lib) (Some x) (set_node_sessions nid R w))"
      using t k b e by (simp add: node_close_session_def world_in_loop_def)
    show ?thesis
    proof (cases x)
      case None
      then show ?thesis
        using Some e unfolding r by (intro exI [of _ "open_fds w"]) (simp add: release_def set_node_sessions_def k)
    next
      case (Some sid)
      then show ?thesis
        using \<open>reg_find h (node_sessions k) = Some x\<close> e unfolding r
        by (intro exI [of _ "open_fds (destroy_outbound lib sid (set_node_sessions nid R w))"])
          (simp add: release_def set_node_sessions_def destroy_outbound_eq k)
    qed
  qed
qed

lemma sys_takes:
  assumes i: "sys_inv t w" and k: "takes w w'" and wf: "wf_world w'"
  shows "sys_inv t w'"
  using sys_inv_outbound_side [OF i _ wf] inbound_ok_sub [of w w'] i k
  by (simp add: takes_def sys_inv_def)

lemma sys_inv_queue [simp]: "sys_inv t (w\<lparr>job_queue := q, waker_active := a\<rparr>) = sys_inv t w"
  "sys_inv t (w\<lparr>job_queue := q\<rparr>) = sys_inv t w"
  by (simp_all add: sys_inv_def wf_world_def inbound_ok_def in_event_loop_def)

lemma sys_call_soon [simp]: "sys_inv t (call_soon j w) = sys_inv t w"
  by (simp add: call_soon_def)

lemma sys_run_job:
  assumes i: "sys_inv t w" and r: "run_job lib t j w = (x, w')"
  shows "sys_inv t w'" and "job_queue w' = job_queue w @ queued_by j"
proof -
  have t: "in_event_loop t w" and O: "outbound_ok (outbounds w) (nodes w) (next_obj w)"
    and N: "nodes_ok (nodes w) (ep_nodes w)"
    using i by (simp_all add: sys_inv_def)
  have wf: "wf_world w'" using wf_run_job [OF _ r] i by (simp add: sys_inv_def)
  have "sys_inv t w' \<and> job_queue w' = job_queue w @ queued_by j"
  proof (cases "(\<exists>sid. j = Outbound_close sid) \<or> (\<exists>js y. j = User_closure js y)")
    case False
    then have "takes w w'" using takes_run_job [OF t, of j lib] r by simp
    then show ?thesis using sys_takes [OF i _ wf] False by (cases j) (simp_all add: takes_def)
  next
    case True
    then consider js y where "j = User_closure js y" | sid where "j = Outbound_close sid" by blast
    then show ?thesis
    proof cases
      case 1
      then show ?thesis using r i by (auto simp: fold_call_soon)
    next
      case (2 sid)
      note j = 2
      show ?thesis
      proof (cases "outbounds w sid")
        case None
        then show ?thesis using r j i by simp
      next
        case (Some y)
        obtain s nid where y: "y = (s, nid)" by fastforce
        then obtain k where k: "nodes w nid = Some k"
          and e: "reg_find (sess_host s) (node_sessions k) = Some (Some sid)"
          using outbound_okD(2) [OF O] Some by blast
        let ?k = "k\<lparr>node_sessions := snd (reg_erase (sess_host s) (node_sessions k))\<rparr>"
        have o: "outbound_ok ((outbounds w)(sid := None)) ((nodes w)(nid \<mapsto> ?k)) (next_obj w)"
          using outbound_ok_close [OF O k, of "sess_host s"] e by simp
        have n: "nodes_ok ((nodes w)(nid \<mapsto> k')) (ep_nodes w)" for k'
          using N k by (auto simp: nodes_ok_def)
        obtain F where "w' = w\<lparr>open_fds := F, outbounds := (outbounds w)(sid := None), nodes := (nodes w)(nid \<mapsto> ?k)\<rparr>"
          using outbound_close_effect [OF t k, of lib "sess_host s"] e r j Some y
          by (auto simp: outcome_of_def)
        then show ?thesis
          using i o n j by (simp add: sys_inv_def wf_world_def inbound_ok_def in_event_loop_def)
      qed
    qed
  qed
  then show "sys_inv t w'" "job_queue w' = job_queue w @ queued_by j" by simp_all
qed

lemma sys_run_jobs:
  "sys_inv t w \<Longrightarrow> run_jobs (run_job lib t) js w = (x, w') \<Longrightarrow> sys_inv t w'"
proof (induction js arbitrary: w)
  case (Cons j js)
  obtain y w1 where j: "run_job lib t j w = (y, w1)" by fastforce
  note k = sys_run_job(1) [OF Cons.prems(1) j]
  show ?case
  proof (cases y)
    case None
    then show ?thesis using Cons.prems(2) Cons.IH [OF k] j by simp
  next
    case (Some e)
    then show ?thesis using Cons.prems(2) j k by simp
  qed
qed simp

text \<open>What is queued after some jobs ran, of which the last one may have thrown.\<close>

lemma run_jobs_queue:
  "sys_inv t w \<Longrightarrow> run_jobs (run_job lib t) js w = (x, w') \<Longrightarrow>
   x = None \<or> fst (run_jobs (run_job lib t) (butlast js) w) = None \<Longrightarrow>
     job_queue w' = job_queue w @ concat (map queued_by js)"
proof (induction js arbitrary: w)
  case (Cons j js)
  obtain y w1 where j: "run_job lib t j w = (y, w1)" by fastforce
  note k = sys_run_job [OF Cons.prems(1) j]
  show ?case
  proof (cases y)
    case None
    have "x = None \<or> fst (run_jobs (run_job lib t) (butlast js) w1) = None"
      using Cons.prems(2,3) j None by (cases js) simp_all
    then show ?thesis using Cons.prems(2) Cons.IH [OF k(1)] j None k(2) by simp
  next
    case (Some e)
    then have "js = []" using Cons.prems(2,3) j by (cases js) auto
    then show ?thesis using Cons.prems(2) j k Some by simp
  qed
qed simp

lemma sys_process:
  assumes i: "sys_inv t w" and r: "process_job_queue (run_job lib t) t w = (x, w')"
  shows "sys_inv t w'"
proof -
  have "run_jobs (run_job lib t) (job_queue w) (w\<lparr>job_queue := []\<rparr>) = (x, w')"
    using r i by (simp add: process_job_queue_def sys_inv_def Let_def)
  from sys_run_jobs [OF _ this] i show "sys_inv t w'" by simp
qed

section \<open>Reachable states\<close>

lemma sys_step_inv: "sys_step t w w' \<Longrightarrow> sys_inv t w \<Longrightarrow> sys_inv t w'"
proof (induction rule: sys_step.induct)
  case (listen lib p w b w') then show ?case by (blast intro: sys_listen)
next
  case (connect lib url local w b w') then show ?case by (blast intro: sys_connect)
next
  case (accept w lid l lib fd addr r w')
  then show ?case by (auto simp: accept_cb_def split: sum.splits intro: sys_create_inbound)
next
  case (fails w lid l r w')
  then show ?case
    by (auto simp: error_cb_def listener_close_listener_def world_in_loop_def split: if_splits)
next
  case (traffic_in lib sid io w x w') then show ?case by (metis snd_conv sys_traffic_in)
next
  case (traffic_out lib sid io w x w') then show ?case by (metis snd_conv sys_traffic_out)
next
  case (shutdown t' lib w x w')
  then have "w' = call_soon Close_all_listeners w" by (auto simp: loop_call_def sys_inv_def in_event_loop_def)
  then show ?case using shutdown by simp
next
  case (immediate w b)
  then show ?case
    by (simp add: set_shutdown_immediate_def sys_inv_def wf_world_def inbound_ok_def in_event_loop_def)
next
  case (user j w) then show ?case by simp
next
  case (jobs lib w x w') then show ?case by (blast intro: sys_process)
qed

lemma sys_init: "endpoint_make ssl creds t c prs fds = (Inr w, c') \<Longrightarrow> sys_inv t w"
  using endpoint_make_wf [of ssl creds t c prs fds w c']
  by (auto simp: endpoint_make_def sys_inv_def in_event_loop_def inbound_ok_def outbound_ok_def nodes_ok_def
      reg_find_def split: sum.splits prod.splits)

lemma sys_reachable: "(sys_step t)\<^sup>*\<^sup>* w0 w \<Longrightarrow> sys_inv t w0 \<Longrightarrow> sys_inv t w"
  by (induction rule: rtranclp_induct) (auto intro: sys_step_inv)

end
