(* ===== verification/System_Props.thy ===== *)
theory System_Props
  imports System
begin

text \<open>
  What holds in every state the program can reach, and what its jobs do there.
\<close>

section \<open>What the jobs do\<close>

lemma close_all_gone:
  assumes "wf_world w" and "in_event_loop t w" and "None \<notin> set es"
    and "\<forall>l. Some l \<in> set es \<longrightarrow> l \<in> dom (listeners w)"
  shows "\<exists>w'. close_all_listeners lib t es w = (None, w') \<and>
           (\<forall>sid s lid. inbounds w' sid = Some (s, lid) \<longleftrightarrow>
              inbounds w sid = Some (s, lid) \<and> Some lid \<notin> set es)"
  using assms
proof (induction lib t es w rule: close_all_listeners.induct)
  case (3 lib t l ls w)
  obtain k where k: "listeners w l = Some k" using 3(5) by auto
  have o: "owned (inbounds w) (listeners w) (ep_listeners w) (next_obj w)"
    using 3(2) by (simp add: wf_world_def)
  obtain F where r: "listener_close_all lib t l w = (Inr (), (set_sessions l [] w)
      \<lparr>open_fds := F, inbounds := inbounds w |` (- set (reg_objects (lst_sessions k)))\<rparr>)" (is "_ = (_, ?w1)")
    using close_all_eq [OF 3(3) k] by blast
  have 1: "wf_world ?w1 \<and> loop_thread_id ?w1 = loop_thread_id w \<and> dom (listeners ?w1) = dom (listeners w)"
    by (rule wf_listener_close_all [OF 3(2) r])
  have 2: "inbounds ?w1 sid = Some (s, lid) \<longleftrightarrow> inbounds w sid = Some (s, lid) \<and> lid \<noteq> l" for sid s lid
    using listener_objects [OF o k, of sid] by (auto simp: restrict_map_def)
  have "in_event_loop t ?w1" using 1 3(3) by (simp add: in_event_loop_def)
  with 1 3(4,5) obtain w' where w': "close_all_listeners lib t ls ?w1 = (None, w')"
      "\<forall>sid s lid. inbounds w' sid = Some (s, lid) \<longleftrightarrow>
         inbounds ?w1 sid = Some (s, lid) \<and> Some lid \<notin> set ls"
    using 3(1) [OF r [symmetric] refl] by auto
  have "close_all_listeners lib t (Some l # ls) w = (None, w')" using r w'(1) by simp
  moreover have "inbounds w' sid = Some (s, lid) \<longleftrightarrow>
      inbounds w sid = Some (s, lid) \<and> Some lid \<notin> set (Some l # ls)" for sid s lid
    using w'(2) unfolding 2 by auto
  ultimately show ?case by blast
qed simp_all

lemma entries_live:
  assumes "wf_world w" and "Some l \<in> set (map snd (ep_listeners w))"
  shows "l \<in> dom (listeners w)"
proof -
  have o: "owned (inbounds w) (listeners w) (ep_listeners w) (next_obj w)"
    using assms(1) by (simp add: wf_world_def)
  obtain q where "(q, Some l) \<in> set (ep_listeners w)" using assms(2) by auto
  then have "reg_find q (ep_listeners w) = Some (Some l)"
    using ownedD(6) [OF o] by (simp add: reg_find_def wf_registry_def)
  then show ?thesis using ownedD(7) [OF o] by auto
qed

text \<open>
  The outcome of every job: it fails with a dangling pointer when the object that
  queued it is gone, and the shutdown through a null pointer when a \<open>listen\<close> has left
  one in the map; otherwise it succeeds and takes away exactly what it is for. Only a user's
  closure queues anything.
\<close>

definition job_spec :: "job \<Rightarrow> 'u world \<Rightarrow> exn option \<Rightarrow> 'u world \<Rightarrow> bool" where
  "job_spec j w x w' \<longleftrightarrow> job_queue w' = job_queue w @ queued_by j \<and>
     (case j of
        Inbound_close sid \<Rightarrow>
          x = (if inbounds w sid = None then Some use_after_free else None) \<and>
          inbounds w' = (inbounds w)(sid := None) \<and> outbounds w' = outbounds w
      | Outbound_close sid \<Rightarrow>
          x = (if outbounds w sid = None then Some use_after_free else None) \<and>
          outbounds w' = (outbounds w)(sid := None) \<and> inbounds w' = inbounds w
      | Listener_close lid \<Rightarrow>
          x = (if listeners w lid = None then Some use_after_free else None) \<and>
          outbounds w' = outbounds w
      | Close_all_listeners \<Rightarrow>
          x = (if None \<in> set (map snd (ep_listeners w)) then Some null_deref else None) \<and>
          (x = None \<longrightarrow> inbounds w' = Map.empty) \<and> outbounds w' = outbounds w
      | User_closure js y \<Rightarrow> x = y \<and> inbounds w' = inbounds w \<and> outbounds w' = outbounds w)"

lemma run_job_spec:
  assumes i: "sys_inv t w" and r: "run_job lib t j w = (x, w')"
  shows "job_spec j w x w'"
proof -
  have t: "in_event_loop t w" and wf: "wf_world w"
    and O: "outbound_ok (outbounds w) (nodes w) (next_obj w)"
    using i by (simp_all add: sys_inv_def)
  note q = sys_run_job(2) [OF i r]
  have side: "outbounds w' = outbounds w" if "\<And>sid. j \<noteq> Outbound_close sid" "\<And>js y. j \<noteq> User_closure js y"
    using takes_run_job [OF t that, of lib] r by (simp add: takes_def outbound_side_def)
  show ?thesis
  proof (cases j)
    case (Inbound_close sid)
    show ?thesis
    proof (cases "inbounds w sid")
      case None
      then show ?thesis using q Inbound_close r by (auto simp: job_spec_def fun_upd_idem)
    next
      case (Some a)
      obtain s lid where "a = (s, lid)" by fastforce
      then show ?thesis
        using inbound_close_runs [OF wf t, of sid s lid lib] Some r q Inbound_close side
        by (auto simp: job_spec_def simp del: run_job.simps)
    qed
  next
    case (Outbound_close sid)
    show ?thesis
    proof (cases "outbounds w sid")
      case None
      then show ?thesis using q Outbound_close r by (auto simp: job_spec_def fun_upd_idem)
    next
      case (Some a)
      obtain s nid where a: "a = (s, nid)" by fastforce
      obtain k where k: "nodes w nid = Some k"
        and e: "reg_find (sess_host s) (node_sessions k) = Some (Some sid)"
        using outbound_okD(2) [OF O] Some a by blast
      then show ?thesis
        using outbound_close_effect [OF t k, of lib "sess_host s"] e r q Outbound_close Some a
        by (auto simp: job_spec_def outcome_of_def)
    qed
  next
    case (Listener_close lid)
    then show ?thesis using r q side by (auto simp: job_spec_def split: option.splits)
  next
    case Close_all_listeners
    let ?es = "map snd (ep_listeners w)"
    have live: "\<forall>l. Some l \<in> set ?es \<longrightarrow> l \<in> dom (listeners w)"
      using entries_live [OF wf] by blast
    show ?thesis
    proof (cases "None \<in> set ?es")
      case True
      then show ?thesis
        using close_all_null [OF wf t live True, of lib] r q Close_all_listeners side
        by (simp add: job_spec_def)
    next
      case False
      have o: "owned (inbounds w) (listeners w) (ep_listeners w) (next_obj w)"
        using wf by (simp add: wf_world_def)
      obtain v where v: "close_all_listeners lib t ?es w = (None, v)"
        "\<forall>sid s lid. inbounds v sid = Some (s, lid) \<longleftrightarrow> inbounds w sid = Some (s, lid) \<and> Some lid \<notin> set ?es"
        using close_all_gone [OF wf t False live] by blast
      have "inbounds v sid = None" for sid
      proof (rule ccontr)
        assume "inbounds v sid \<noteq> None"
        then obtain s lid where a: "inbounds v sid = Some (s, lid)" by auto
        then have "inbounds w sid = Some (s, lid)" "Some lid \<notin> set ?es" using v(2) by blast+
        moreover from this(1) have "listeners w lid \<noteq> None" using ownedD(4) [OF o] by blast
        then obtain p where "reg_find p (ep_listeners w) = Some (Some lid)" using ownedD(8) [OF o] by blast
        then have "Some lid \<in> set ?es" by (force simp: reg_find_def dest: map_of_SomeD)
        ultimately show False by blast
      qed
      then have "inbounds v = Map.empty" by auto
      then show ?thesis
        using v(1) r q False Close_all_listeners side by (auto simp: job_spec_def)
    qed
  next
    case (User_closure js y)
    then show ?thesis using r q by (auto simp: job_spec_def fold_call_soon)
  qed
qed

lemma run_jobs_split:
  "run_jobs run js s = (x, s') \<Longrightarrow>
     \<exists>ran lost. js = ran @ lost \<and> run_jobs run ran s = (x, s') \<and> (lost = [] \<or> x \<noteq> None) \<and>
       (x = None \<or> ran \<noteq> [] \<and> fst (run_jobs run (butlast ran) s) = None)"
proof (induction js arbitrary: s)
  case (Cons j js)
  obtain y s1 where j: "run j s = (y, s1)" by fastforce
  show ?case
  proof (cases y)
    case None
    then have "run_jobs run js s1 = (x, s')" using Cons.prems j by simp
    from Cons.IH [OF this] obtain ran lost where
      "js = ran @ lost" "run_jobs run ran s1 = (x, s')" "lost = [] \<or> x \<noteq> None"
      "x = None \<or> ran \<noteq> [] \<and> fst (run_jobs run (butlast ran) s1) = None" by blast
    then show ?thesis using j None by (intro exI [of _ "j # ran"] exI [of _ lost]) auto
  next
    case (Some e)
    then show ?thesis using Cons.prems j by (intro exI [of _ "[j]"] exI [of _ js]) auto
  qed
qed simp

section \<open>A session closes itself twice\<close>

lemma garbage_closes:
  assumes "in_event_loop t w" and "inbounds w sid = Some (s, lid)" and "sess_bev_cbs s"
    and "sess_this s = sid" and "\<not> sess_is_outbound s"
    and "\<And>bs se. mem_recv (el_session lib) bs se = (Inr rv, se)" and "rv < 0"
  shows "inbound_io lib t sid (Arrived d) w =
     (None, (call_soon (Inbound_close sid) (note_call (Session_mem_recv (sess_input s @ d)) w))
        \<lparr>inbounds := (inbounds w)(sid \<mapsto> (s\<lparr>sess_input := sess_input s @ d\<rparr>, lid))\<rparr>)"
  using assms
  by (simp add: inbound_io_def deliver_def read_cb_def read_session_data_def thenc_def bindc_def
      upd_session_def upd_env_def this_session_def close_session_def inbound_close_session_def in_loop_def
      in_event_loop_def frame_simps outcome_of_def call_soon_def note_call_def Let_def)

lemma event_closes:
  assumes "in_event_loop t w" and "inbounds w sid = Some (s, lid)" and "sess_bev_cbs s"
    and "sess_this s = sid" and "\<not> sess_is_outbound s"
    and "path_to_string (sl_net (el_session lib)) (sl_big_endian (el_session lib)) (sess_path s) = Inr msg"
    and "events AND BEV_EVENT_CONNECTED = 0"
  shows "inbound_io lib t sid (Happened events) w = (None, call_soon (Inbound_close sid) w)"
  using assms
  by (simp add: inbound_io_def event_cb_def bindc_def of_result_def
      upd_env_def this_session_def close_session_def inbound_close_session_def in_loop_def
      outcome_of_def call_soon_def fun_upd_idem)

section \<open>A run for the witnesses\<close>

text \<open>
  A library whose nghttp2 reports the head of a request on each delivery once the
  session is set up, and takes whatever comes before for garbage.
\<close>

definition demo_events :: "callback list" where
  "demo_events = [Cb_event (Ev_begin_headers toy_frame),
     Cb_event (Ev_header toy_frame (bytes_of_string '':path'') (bytes_of_string ''/index.html''))]"

definition demo_lib :: "(string \<times> string) ep_lib" where
  "demo_lib = toy_ep_lib\<lparr>conn_bind := (\<lambda>_. Some 3),
     el_session := (toy_session_lib [])\<lparr>mem_recv := (\<lambda>bs se.
       if sess_nghttp2 (fst se) = Some server_callbacks
       then bindc (run_callbacks (toy_session_lib []) 7 demo_events) (\<lambda>_. returnc 0) se
       else (Inr (- 1), se))\<rparr>\<rparr>"

definition demo_garbage :: "(string \<times> string) ep_lib" where
  "demo_garbage = demo_lib\<lparr>el_session := (el_session demo_lib)\<lparr>mem_recv := (\<lambda>bs se. (Inr (- 1), se))\<rparr>\<rparr>"

lemma head_events_same:
  assumes "sl_ada L = sl_ada L'"
  shows "on_event (virtual_hooks L t s) (Ev_begin_headers f) = on_event (virtual_hooks L' t s) (Ev_begin_headers f)"
    "on_event (virtual_hooks L t s) (Ev_header f n v) = on_event (virtual_hooks L' t s) (Ev_header f n v)"
  using assms
  by (cases "sess_is_outbound s"; simp add: virtual_hooks_def inbound_hooks_def outbound_hooks_def
      inbound_recv_header_hook_def)+

lemma demo_same: "run_callbacks (el_session demo_lib) 7 demo_events = run_callbacks (toy_session_lib []) 7 demo_events"
proof -
  have "sl_ada (el_session demo_lib) = sl_ada (toy_session_lib [] :: (string \<times> string, unit world_ext) session_lib)"
    by (simp add: demo_lib_def)
  from head_events_same [OF this] show ?thesis
    unfolding demo_events_def run_callbacks.simps on_callback.simps by simp
qed

lemma driven_return: "driven lib t (\<lambda>se. (Inr rv, se))"
  unfolding driven_def by (intro allI exI [of _ "[]"] exI [of _ rv]) (simp add: bindc_def)

lemma demo_wired: "wired (el_session demo_lib) 7" "wired (el_session demo_garbage) 7"
proof -
  have "session_send (el_session demo_lib) = (\<lambda>se. (Inr 0, se))"
    "session_send (el_session demo_garbage) = (\<lambda>se. (Inr 0, se))"
    "mem_recv (el_session demo_garbage) bs = (\<lambda>se. (Inr (- 1), se))" for bs
    by (simp_all add: demo_lib_def demo_garbage_def toy_ep_lib_def toy_session_lib_def)
  moreover have "driven (el_session demo_lib) 7 (mem_recv (el_session demo_lib) bs)" for bs
    unfolding driven_def
  proof
    fix se :: "session \<times> (job, string \<times> string, unit world_ext) io_env_scheme"
    show "\<exists>cs rv. (\<forall>c\<in>set cs. wire_callback c \<and> (\<exists>R. sess_nghttp2 (fst se) = Some R \<and> registered_as c \<in> R)) \<and>
        mem_recv (el_session demo_lib) bs se = bindc (run_callbacks (el_session demo_lib) 7 cs) (\<lambda>_. returnc rv) se"
    proof (cases "sess_nghttp2 (fst se) = Some server_callbacks")
      case True
      have "\<forall>c\<in>set demo_events. wire_callback c \<and> registered_as c \<in> server_callbacks"
        by (simp add: demo_events_def server_callbacks_def bytes_of_string_def byte_of_char_def)
      moreover have "mem_recv (el_session demo_lib) bs se =
          bindc (run_callbacks (el_session demo_lib) 7 demo_events) (\<lambda>_. returnc 0) se"
        using True unfolding demo_same by (simp add: demo_lib_def)
      ultimately show ?thesis
        using True by (intro exI [of _ demo_events] exI [of _ 0] conjI) simp_all
    next
      case False
      then show ?thesis
        by (intro exI [of _ "[]"] exI [of _ "- 1"]) (simp add: demo_lib_def bindc_def)
    qed
  qed
  ultimately show "wired (el_session demo_lib) 7" "wired (el_session demo_garbage) 7"
    by (simp_all add: wired_def driven_return)
qed

definition demo0 :: "(string \<times> string) world" where
  "demo0 = projr (fst (endpoint_make toy_ssl (Some \<lparr>keyfile = ''k'', certfile = ''c''\<rparr>) 7 0 parser_new {}))"

definition demo1 :: "(string \<times> string) world" where
  "demo1 = snd (accept_cb demo_lib 7 0 5 (sockaddr_in \<lparr>s_addr = 1\<rparr> 9) (snd (endpoint_listen demo_lib 7 443 demo0)))"

lemma demo0: "endpoint_make toy_ssl (Some \<lparr>keyfile = ''k'', certfile = ''c''\<rparr>) 7 0 parser_new {} = (Inr demo0, 1)"
  by (simp add: demo0_def endpoint_make_def take_client_id_def context_defs toy_ssl_def)

lemma demo0_fields:
  "ep_listeners demo0 = []" "listeners demo0 = Map.empty" "next_obj demo0 = 0" "loop_thread_id demo0 = 7"
  "job_queue demo0 = []" "inbounds demo0 = Map.empty" "open_fds demo0 = {}"
  by (simp_all add: demo0_def endpoint_make_def take_client_id_def context_defs toy_ssl_def)

lemma demo_listen:
  "\<exists>l w. endpoint_listen demo_lib 7 443 demo0 = (Inr True, w) \<and> listeners w 0 = Some l \<and> lst_sessions l = [] \<and>
     next_obj w = 1 \<and> loop_thread_id w = 7 \<and> job_queue w = [] \<and> inbounds w = Map.empty \<and> open_fds w = {3}"
  by (simp add: endpoint_listen_def reg_try_emplace_def listener_make_def world_in_loop_def demo0_fields
      in_event_loop_def demo_lib_def toy_ep_lib_def toy_session_lib_def fd_open_def ip_address_of_sockaddr_def Let_def)

lemma v4_path_prints:
  "\<exists>msg. path_to_string net be \<lparr>path_local = \<lparr>ip = V4 x, ip_port = p, is_v4 = True\<rparr>,
      path_remote = \<lparr>ip = V4 y, ip_port = q, is_v4 = True\<rparr>\<rparr> = Inr msg"
  by (simp add: path_to_string_def ip_to_string_def get_ipv4_def)

lemma demo_session:
  "\<exists>s. inbound_session_make (el_session demo_lib) 7 1 \<lparr>ip = V4 y, ip_port = q, is_v4 = True\<rparr> 5 e = (Inr s, e) \<and>
     sess_bev_cbs s \<and> sess_nghttp2 s = None \<and> sess_streams s = Map.empty \<and> sess_this s = 1 \<and>
     \<not> sess_is_outbound s \<and> (\<exists>msg. path_to_string net be (sess_path s) = Inr msg)"
  if "in_event_loop 7 e"
  using that v4_path_prints
  by (simp add: inbound_session_make_def inbound_init_internals_def new_ssl_def thenc_def bindc_def
      upd_session_def guardc_def guard_def of_result_def learn_local_def this_session_def session_new_def
      in_loop_def demo_lib_def toy_ep_lib_def toy_session_lib_def ip_address_of_sockaddr_def)

lemma demo1:
  "(sys_step 7)\<^sup>*\<^sup>* demo0 demo1"
  "\<exists>s. inbounds demo1 1 = Some (s, 0) \<and> sess_bev_cbs s \<and> sess_nghttp2 s = None \<and>
     sess_streams s = Map.empty \<and> sess_this s = 1 \<and> \<not> sess_is_outbound s \<and>
     (\<exists>msg. path_to_string net be (sess_path s) = Inr msg)"
  "job_queue demo1 = []" "loop_thread_id demo1 = 7" "inbounds demo1 2 = None" "open_fds demo1 = {3}"
proof -
  obtain l w where w: "endpoint_listen demo_lib 7 443 demo0 = (Inr True, w)" "listeners w 0 = Some l"
    "lst_sessions l = []" "next_obj w = 1" "loop_thread_id w = 7" "job_queue w = []" "inbounds w = Map.empty"
    "open_fds w = {3}"
    using demo_listen by blast
  then have s1: "sys_step 7 demo0 w" using sys_step.listen by blast
  obtain r w' where r: "accept_cb demo_lib 7 0 5 (sockaddr_in \<lparr>s_addr = 1\<rparr> 9) w = (r, w')" by fastforce
  then have s2: "sys_step 7 w w'" using sys_step.accept w(2) by blast
  have d: "demo1 = w'" using w(1) r by (simp add: demo1_def)
  show "(sys_step 7)\<^sup>*\<^sup>* demo0 demo1" unfolding d using s1 s2 by (meson converse_rtranclp_into_rtranclp r_into_rtranclp)
  obtain y q where a: "ip_address_of_sockaddr (sl_big_endian (el_session demo_lib)) (sockaddr_in \<lparr>s_addr = 1\<rparr> 9) =
      Inr \<lparr>ip = V4 y, ip_port = q, is_v4 = True\<rparr>" (is "_ = Inr ?a")
    by (simp add: ip_address_of_sockaddr_def)
  let ?w = "set_sessions 0 [(ip_key ?a, None)] w"
  have "in_event_loop 7 ?w" using w(5) by (simp add: in_event_loop_def set_sessions_def)
  from demo_session [OF this, where net = net and be = be] obtain s where s:
    "inbound_session_make (el_session demo_lib) 7 1 ?a 5 ?w = (Inr s, ?w)"
    "sess_bev_cbs s" "sess_nghttp2 s = None" "sess_streams s = Map.empty" "sess_this s = 1"
    "\<not> sess_is_outbound s" "\<exists>msg. path_to_string net be (sess_path s) = Inr msg" by blast
  have "w' = set_sessions 0 [(ip_key ?a, Some 1)] (?w\<lparr>inbounds := (inbounds ?w)(1 \<mapsto> (s, 0)), next_obj := Suc 1\<rparr>)"
    using r a w s(1)
    by (simp add: accept_cb_def create_inbound_session_def world_in_loop_def in_event_loop_def
        reg_try_emplace_def reg_assign_def Let_def)
  then show "\<exists>s. inbounds demo1 1 = Some (s, 0) \<and> sess_bev_cbs s \<and> sess_nghttp2 s = None \<and>
     sess_streams s = Map.empty \<and> sess_this s = 1 \<and> \<not> sess_is_outbound s \<and>
     (\<exists>msg. path_to_string net be (sess_path s) = Inr msg)"
    "job_queue demo1 = []" "loop_thread_id demo1 = 7" "inbounds demo1 2 = None" "open_fds demo1 = {3}"
    unfolding d using w s by (simp_all add: set_sessions_def)
qed

text \<open>The session is set up and a request arrives.\<close>

definition demo2 :: "(string \<times> string) world" where
  "demo2 = snd (inbound_io demo_lib 7 1 (Arrived []) (snd (inbound_io demo_lib 7 1 (Happened BEV_EVENT_CONNECTED) demo1)))"

lemma demo_connected:
  assumes "in_event_loop 7 w" and "inbounds w 1 = Some (s, 0)" and "sess_bev_cbs s"
    and "sess_streams s = Map.empty" and "\<not> sess_is_outbound s"
    and "path_to_string (sl_net (el_session demo_lib)) (sl_big_endian (el_session demo_lib)) (sess_path s) = Inr msg"
  shows "\<exists>w' s'. inbound_io demo_lib 7 1 (Happened BEV_EVENT_CONNECTED) w = (None, w') \<and>
           inbounds w' 1 = Some (s', 0) \<and> sess_nghttp2 s' = Some server_callbacks \<and> sess_bev_cbs s' \<and>
           sess_streams s' = Map.empty \<and> \<not> sess_is_outbound s' \<and> in_event_loop 7 w'"
proof -
  have "alpn_selected (el_session demo_lib) = []" "nghttp2_option_new (el_session demo_lib) = 0"
    "nghttp2_server_new (el_session demo_lib) = 0" "nghttp2_submit_settings (el_session demo_lib) = 0"
    "session_send (el_session demo_lib) = (\<lambda>se. (Inr 0, se))"
    by (simp_all add: demo_lib_def toy_ep_lib_def toy_session_lib_def)
  then show ?thesis
    using assms
    by (simp add: inbound_io_def event_cb_def bindc_def thenc_def of_result_def this_session_def
        config_send_initial_def inbound_initialize_session_def inbound_send_initial_def submit_initial_def
        send_session_data_def guardc_def guard_def upd_session_def upd_env_def in_loop_def in_event_loop_def
        frame_simps outcome_of_def BEV_EVENT_CONNECTED_def)
qed

lemma demo_request:
  assumes "in_event_loop 7 w" and "inbounds w 1 = Some (s, 0)" and "sess_bev_cbs s"
    and "sess_nghttp2 s = Some server_callbacks" and "sess_streams s = Map.empty" and "\<not> sess_is_outbound s"
  shows "\<exists>w' s'. inbound_io demo_lib 7 1 (Arrived []) w = (None, w') \<and>
           inbounds w' 1 = Some (s', 0) \<and> sess_streams s' 1 = Some (make_stream 1)"
proof -
  have "fields_path \<noteq> bytes_of_string '':path''"
    using path_literal_has_nul [of "bytes_of_string '':path''"] by (simp add: bytes_of_string_def byte_of_char_def)
  moreover have "mem_recv (el_session demo_lib) bs se =
      (if sess_nghttp2 (fst se) = Some server_callbacks
       then bindc (run_callbacks (toy_session_lib []) 7 demo_events) (\<lambda>_. returnc 0) se else (Inr (- 1), se))" for bs se
    by (simp add: demo_lib_def)
  moreover have "session_send (el_session demo_lib) = (\<lambda>se. (Inr 0, se))"
    by (simp add: demo_lib_def toy_ep_lib_def toy_session_lib_def)
  ultimately show ?thesis
    using assms
    by (simp add: inbound_io_def deliver_def read_cb_def read_session_data_def bindc_def thenc_def
        this_session_def send_session_data_def upd_session_def upd_env_def in_loop_def in_event_loop_def
        frame_simps outcome_of_def demo_events_def virtual_hooks_def inbound_hooks_def
        inbound_begin_headers_hook_def inbound_recv_header_hook_def toy_frame_def is_headers_def stream_key_def
        span_eq_def const_defs Let_def returnc_def)
qed

section \<open>Properties\<close>

text \<open>
  C3. Ownership: whatever the sequence of operations, connections, callbacks of
  libevent and nghttp2, queued jobs and shutdowns, in every state the program reaches an
  inbound session lives exactly when the map of a live listener holds it, under the
  session's remote address; an outbound session exactly when the map of a live node
  holds it, under its host; a listener or node exactly when one entry of the
  endpoint's map holds it.
\<close>

theorem reachable_ownership:
  assumes "endpoint_make ssl creds t c prs fds = (Inr w0, c')" and "(sys_step t)\<^sup>*\<^sup>* w0 w"
  shows "((\<exists>s. inbounds w sid = Some (s, lid) \<and> rkey s = k) \<longleftrightarrow>
            (\<exists>l. listeners w lid = Some l \<and> reg_find k (lst_sessions l) = Some (Some sid))) \<and>
         ((\<exists>s. outbounds w sid = Some (s, nid) \<and> sess_host s = h) \<longleftrightarrow>
            (\<exists>n. nodes w nid = Some n \<and> reg_find h (node_sessions n) = Some (Some sid))) \<and>
         (listeners w lid \<noteq> None \<longleftrightarrow> (\<exists>!p. reg_find p (ep_listeners w) = Some (Some lid))) \<and>
         (nodes w nid \<noteq> None \<longleftrightarrow> (\<exists>!h. reg_find h (ep_nodes w) = Some (Some nid)))"
proof -
  have i: "sys_inv t w" using sys_reachable [OF assms(2) sys_init [OF assms(1)]] .
  then have o: "owned (inbounds w) (listeners w) (ep_listeners w) (next_obj w)"
    and O: "outbound_ok (outbounds w) (nodes w) (next_obj w)" and N: "nodes_ok (nodes w) (ep_nodes w)"
    by (simp_all add: sys_inv_def wf_world_def)
  have 1: "(\<exists>s. inbounds w sid = Some (s, lid) \<and> rkey s = k) \<longleftrightarrow>
            (\<exists>l. listeners w lid = Some l \<and> reg_find k (lst_sessions l) = Some (Some sid))"
    using ownedD(4,5) [OF o] by blast
  have 2: "(\<exists>s. outbounds w sid = Some (s, nid) \<and> sess_host s = h) \<longleftrightarrow>
            (\<exists>n. nodes w nid = Some n \<and> reg_find h (node_sessions n) = Some (Some sid))"
    using outbound_okD(2,4) [OF O] by blast
  have 3: "listeners w lid \<noteq> None \<longleftrightarrow> (\<exists>!p. reg_find p (ep_listeners w) = Some (Some lid))"
    using ownedD(7,8) [OF o] by blast
  have 4: "nodes w nid \<noteq> None \<longleftrightarrow> (\<exists>!h. reg_find h (ep_nodes w) = Some (Some nid))"
    using N unfolding nodes_ok_def by blast
  show ?thesis using 1 2 3 4 by (intro conjI)
qed

theorem reachable_ownership_witness:
  "(\<exists>s. inbounds demo1 1 = Some (s, 0)) \<and>
   (\<exists>l k. listeners demo1 0 = Some l \<and> reg_find k (lst_sessions l) = Some (Some 1))"
proof -
  obtain s where s: "inbounds demo1 1 = Some (s, 0)" using demo1(2) by blast
  then show ?thesis
    using reachable_ownership [OF demo0 demo1(1), of 1 0 "rkey s"] by blast
qed

text \<open>
  C7. In every state the program reaches, each stream of an inbound session is an
  inbound stream filed under its own id whose request is empty, so that the file it
  will be answered with never depends on what the peer asked for (header names come
  without the NUL byte the code compares with); and an outbound session never has a
  stream.
\<close>

theorem reachable_sessions:
  assumes "endpoint_make ssl creds t c prs fds = (Inr w0, c')" and "(sys_step t)\<^sup>*\<^sup>* w0 w"
    and "inbounds w sid = Some (s, lid) \<or> outbounds w sid = Some (s, lid)" and "sess_streams s k = Some st"
  shows "inbounds w sid = Some (s, lid) \<and> stream_dir st = INBOUND \<and> stream_key (stream_id st) = k \<and>
         stream_req st = uri_default \<and> requested_file st = []"
proof -
  have i: "sys_inv t w" using sys_reachable [OF assms(2) sys_init [OF assms(1)]] .
  then have I: "inbound_ok w" and O: "outbound_ok (outbounds w) (nodes w) (next_obj w)"
    by (simp_all add: sys_inv_def)
  have n: "outbounds w sid \<noteq> Some (s, lid)"
  proof
    assume "outbounds w sid = Some (s, lid)"
    then show False using outbound_okD(1) [OF O] assms(4) by (fastforce simp: streams_ok_def)
  qed
  then have s: "inbounds w sid = Some (s, lid)" using assms(3) by blast
  then have "wf_session s" "unpathed s" using inbound_okD [OF I s] by (simp_all add: streams_ok_def)
  then have "stream_dir st = INBOUND \<and> stream_key (stream_id st) = k \<and> stream_req st = uri_default"
    using assms(4) by (simp add: wf_session_def unpathed_def)
  then show ?thesis using s by (simp add: requested_file_def c_str_def)
qed



text \<open>
  C16. What a round of the queue leaves. In every state the program reaches,
  \<open>process_job_queue\<close> runs the queued jobs in order, all of them unless one throws, which is
  then the last to run and takes the ones behind it with it; and what is queued when it
  returns is exactly what the jobs that ran have queued themselves, in their order (beside
  what other threads have pushed since the swap): only the closures of the user queue
  any, so that the library's own jobs leave the queue empty.
\<close>

theorem reachable_queue_round:
  assumes "endpoint_make ssl creds t c prs fds = (Inr w0, c')" and "(sys_step t)\<^sup>*\<^sup>* w0 w"
  shows "\<exists>x w' ran lost. process_job_queue (run_job lib t) t w = (x, w') \<and>
           job_queue w = ran @ lost \<and> run_jobs (run_job lib t) ran (w\<lparr>job_queue := []\<rparr>) = (x, w') \<and>
           (lost = [] \<or> x \<noteq> None) \<and>
           (x = None \<or> ran \<noteq> [] \<and> fst (run_jobs (run_job lib t) (butlast ran) (w\<lparr>job_queue := []\<rparr>)) = None) \<and>
           job_queue w' = concat (map queued_by ran)"
proof -
  have i: "sys_inv t w" using sys_reachable [OF assms(2) sys_init [OF assms(1)]] .
  let ?w = "w\<lparr>job_queue := []\<rparr>"
  obtain x w' where p: "process_job_queue (run_job lib t) t w = (x, w')" by fastforce
  then have "run_jobs (run_job lib t) (job_queue w) ?w = (x, w')"
    using i by (simp add: process_job_queue_def sys_inv_def Let_def)
  from run_jobs_split [OF this] obtain ran lost where s: "job_queue w = ran @ lost"
    "run_jobs (run_job lib t) ran ?w = (x, w')" "lost = [] \<or> x \<noteq> None"
    "x = None \<or> ran \<noteq> [] \<and> fst (run_jobs (run_job lib t) (butlast ran) ?w) = None" by blast
  have "job_queue w' = job_queue ?w @ concat (map queued_by ran)"
    by (rule run_jobs_queue [OF _ s(2)]) (use i s(4) in auto)
  then show ?thesis using p s by auto
qed

theorem reachable_queue_round_witness:
  "\<exists>w w'. (sys_step 7)\<^sup>*\<^sup>* demo0 w \<and> job_queue w = [User_closure [User_closure [] None] None] \<and>
     process_job_queue (run_job demo_lib 7) 7 w = (None, w') \<and> job_queue w' = [User_closure [] None]"
proof -
  let ?j = "User_closure [User_closure [] None] None"
  let ?w = "call_soon ?j demo1"
  have "sys_step 7 demo1 ?w" by (rule sys_step.user) simp
  then have r: "(sys_step 7)\<^sup>*\<^sup>* demo0 ?w" using demo1(1) by (meson rtranclp.rtrancl_into_rtrancl)
  have q: "job_queue ?w = [?j]" using demo1(3) by (simp add: call_soon_def)
  obtain x w' ran lost where p: "process_job_queue (run_job demo_lib 7) 7 ?w = (x, w')"
    "job_queue ?w = ran @ lost" "run_jobs (run_job demo_lib 7) ran (?w\<lparr>job_queue := []\<rparr>) = (x, w')"
    "lost = [] \<or> x \<noteq> None" "x = None \<or> ran \<noteq> []" "job_queue w' = concat (map queued_by ran)"
    using reachable_queue_round [OF demo0 r, of demo_lib] by blast
  have "ran = [?j]" using p(2,4,5) q by (cases ran) auto
  then show ?thesis using r q p by (intro exI [of _ ?w] exI [of _ w']) auto
qed

lemma demo2:
  "(sys_step 7)\<^sup>*\<^sup>* demo0 demo2"
  "\<exists>s. inbounds demo2 1 = Some (s, 0) \<and> sess_streams s 1 = Some (make_stream 1)"
proof -
  obtain s msg where s: "inbounds demo1 1 = Some (s, 0)" "sess_bev_cbs s" "sess_streams s = Map.empty"
    "\<not> sess_is_outbound s"
    "path_to_string (sl_net (el_session demo_lib)) (sl_big_endian (el_session demo_lib)) (sess_path s) = Inr msg"
    using demo1(2) by blast
  have t: "in_event_loop 7 demo1" by (simp add: in_event_loop_def demo1(4))
  obtain w s1 where w: "inbound_io demo_lib 7 1 (Happened BEV_EVENT_CONNECTED) demo1 = (None, w)"
    "inbounds w 1 = Some (s1, 0)" "sess_nghttp2 s1 = Some server_callbacks" "sess_bev_cbs s1"
    "sess_streams s1 = Map.empty" "\<not> sess_is_outbound s1" "in_event_loop 7 w"
    using demo_connected [OF t s] by blast
  obtain w' s2 where w': "inbound_io demo_lib 7 1 (Arrived []) w = (None, w')"
    "inbounds w' 1 = Some (s2, 0)" "sess_streams s2 1 = Some (make_stream 1)"
    using demo_request [OF w(7,2,4,3,5,6)] by blast
  have d: "demo2 = w'" using w(1) w'(1) by (simp add: demo2_def)
  have "sys_step 7 demo1 w" "sys_step 7 w w'"
    using sys_step.traffic_in [OF demo_wired(1)] w(1) w'(1) by blast+
  then show "(sys_step 7)\<^sup>*\<^sup>* demo0 demo2" unfolding d using demo1(1) by (meson rtranclp.rtrancl_into_rtrancl)
  show "\<exists>s. inbounds demo2 1 = Some (s, 0) \<and> sess_streams s 1 = Some (make_stream 1)"
    unfolding d using w'(2,3) by blast
qed

theorem reachable_sessions_witness:
  "\<exists>s st. inbounds demo2 1 = Some (s, 0) \<and> sess_streams s 1 = Some st \<and> requested_file st = []"
proof -
  obtain s where s: "inbounds demo2 1 = Some (s, 0)" "sess_streams s 1 = Some (make_stream 1)"
    using demo2(2) by blast
  from reachable_sessions [OF demo0 demo2(1) _ s(2)] s show ?thesis by blast
qed

text \<open>
  C10. A peer can make the server dereference a destroyed session: bytes nghttp2 refuses,
  followed by any event that ends the connection before the loop gets to its queue,
  leave two closes of the session in the queue, and the second runs on a freed object.
  (The closes are queued by the address of the session, not by an owner.)
\<close>

theorem garbage_then_hangup:
  assumes "endpoint_make ssl creds t c prs fds = (Inr w0, c')" and "(sys_step t)\<^sup>*\<^sup>* w0 w"
    and "inbounds w sid = Some (s, lid)" and "sess_bev_cbs s" and "job_queue w = []"
    and "wired (el_session lib) t" and "\<And>bs se. mem_recv (el_session lib) bs se = (Inr rv, se)" and "rv < 0"
    and "path_to_string (sl_net (el_session lib)) (sl_big_endian (el_session lib)) (sess_path s) = Inr msg"
    and "events AND BEV_EVENT_CONNECTED = 0"
    and "w2 = snd (inbound_io lib t sid (Happened events) (snd (inbound_io lib t sid (Arrived d) w)))"
  shows "(sys_step t)\<^sup>*\<^sup>* w0 w2 \<and> job_queue w2 = [Inbound_close sid, Inbound_close sid] \<and>
         inbounds w2 sid \<noteq> None \<and>
         fst (process_job_queue (run_job lib t) t w2) = Some use_after_free"
proof -
  have i: "sys_inv t w" using sys_reachable [OF assms(2) sys_init [OF assms(1)]] .
  then have t: "in_event_loop t w" and o: "sess_this s = sid" "\<not> sess_is_outbound s"
    using inbound_okD [of w sid s lid] assms(3) by (simp_all add: sys_inv_def)
  let ?s = "s\<lparr>sess_input := sess_input s @ d\<rparr>"
  obtain w1 where w1: "inbound_io lib t sid (Arrived d) w = (None, w1)"
    "inbounds w1 sid = Some (?s, lid)" "job_queue w1 = [Inbound_close sid]" "in_event_loop t w1"
    using garbage_closes [OF t assms(3,4) o assms(7,8), of d] assms(5) t
    by (simp add: in_event_loop_def call_soon_def note_call_def)
  have w2: "inbound_io lib t sid (Happened events) w1 = (None, w2)" "w2 = call_soon (Inbound_close sid) w1"
    using event_closes [OF w1(4,2) _ _ _ _ assms(10), of lib msg] assms(4,9,11) o w1(1) by simp_all
  have "sys_step t w w1" "sys_step t w1 w2"
    using sys_step.traffic_in [OF assms(6)] w1(1) w2(1) by blast+
  then have r: "(sys_step t)\<^sup>*\<^sup>* w0 w2" using assms(2) by (meson rtranclp.rtrancl_into_rtrancl)
  have q: "job_queue w2 = [Inbound_close sid, Inbound_close sid]" "inbounds w2 sid = Some (?s, lid)"
    using w1 by (simp_all add: w2(2) call_soon_def)
  have i2: "sys_inv t w2" using sys_reachable [OF r sys_init [OF assms(1)]] .
  let ?v = "w2\<lparr>job_queue := []\<rparr>"
  have iv: "sys_inv t ?v" using i2 by simp
  obtain x v1 where j: "run_job lib t (Inbound_close sid) ?v = (x, v1)" by fastforce
  then have "x = None" "inbounds v1 = (inbounds w2)(sid := None)"
    using run_job_spec [OF iv j] q(2) by (simp_all add: job_spec_def)
  then have "fst (run_jobs (run_job lib t) (job_queue w2) ?v) = Some use_after_free"
    using j by (simp add: q(1) del: run_job.simps) simp
  moreover have "in_event_loop t w2" using i2 by (simp add: sys_inv_def)
  ultimately show ?thesis using r q by (simp add: process_job_queue_def Let_def)
qed

theorem garbage_then_hangup_witness:
  "\<exists>w2. (sys_step 7)\<^sup>*\<^sup>* demo0 w2 \<and> fst (process_job_queue (run_job demo_garbage 7) 7 w2) = Some use_after_free"
proof -
  obtain s msg where s: "inbounds demo1 1 = Some (s, 0)" "sess_bev_cbs s"
    and p: "path_to_string (sl_net (el_session demo_garbage)) (sl_big_endian (el_session demo_garbage)) (sess_path s) = Inr msg"
    using demo1(2) by blast
  have m: "mem_recv (el_session demo_garbage) bs se = (Inr (- 1), se)" for bs se
    by (simp add: demo_garbage_def)
  have "BEV_EVENT_EOF AND BEV_EVENT_CONNECTED = 0" by (simp add: const_defs)
  from garbage_then_hangup [OF demo0 demo1(1) s demo1(3) demo_wired(2) m _ p this refl] show ?thesis by auto
qed

end
