(* ===== verification/Teardown.thy ===== *)
theory Teardown
  imports System_Props
begin

text \<open>
  The end of an endpoint: its destructor (\<open>src/endpoint.cpp\<close>), then its members in the
  reverse of the order in which \<open>include/wshttp/endpoint.hpp\<close> declares them, and what
  the closures still in the loop's queue would find.
\<close>

section \<open>The members\<close>

text \<open>\<open>_nodes\<close>, then \<open>_listeners\<close>, then the context; the loop lives on in its other owners.\<close>

definition endpoint_members_destroy :: "'u ep_lib \<Rightarrow> 'u world \<Rightarrow> 'u world" where
  "endpoint_members_destroy lib w =
     (let w1 = fold (destroy_node lib) (reg_objects (ep_nodes w)) (w\<lparr>ep_nodes := []\<rparr>);
          w2 = fold (destroy_listener lib) (reg_objects (ep_listeners w1)) (w1\<lparr>ep_listeners := []\<rparr>)
      in w2\<lparr>ep_ctx := None\<rparr>)"

section \<open>Nothing is left\<close>

definition sessions_held :: "'u world \<Rightarrow> bool" where
  "sessions_held w \<longleftrightarrow>
     (\<forall>sid s lid. inbounds w sid = Some (s, lid) \<longrightarrow>
        (\<exists>l. listeners w lid = Some l \<and> sid \<in> set (reg_objects (lst_sessions l)))) \<and>
     (\<forall>sid s nid. outbounds w sid = Some (s, nid) \<longrightarrow>
        (\<exists>n. nodes w nid = Some n \<and> sid \<in> set (reg_objects (node_sessions n))))"

lemma sessions_heldD:
  assumes "sessions_held w"
  shows "inbounds w sid = Some (s, lid) \<Longrightarrow>
      \<exists>l. listeners w lid = Some l \<and> sid \<in> set (reg_objects (lst_sessions l))"
    "outbounds w sid = Some (s, nid) \<Longrightarrow>
      \<exists>n. nodes w nid = Some n \<and> sid \<in> set (reg_objects (node_sessions n))"
  using assms unfolding sessions_held_def by blast+

lemma sessions_held_upd [simp]:
  "sessions_held (w\<lparr>ep_nodes := r\<rparr>) = sessions_held w"
  "sessions_held (w\<lparr>ep_listeners := q\<rparr>) = sessions_held w"
  "sessions_held (w\<lparr>watchers := x\<rparr>) = sessions_held w"
  by (simp_all add: sessions_held_def)

definition same_rest :: "'u world \<Rightarrow> 'u world \<Rightarrow> bool" where
  "same_rest w w' \<longleftrightarrow> job_queue w' = job_queue w \<and> loop_thread_id w' = loop_thread_id w \<and> ep_nodes w' = ep_nodes w"

lemma restrict_drop: "(\<lambda>a. if a = i then None else m a) |` (- S) = m |` (- insert i S)"
  by (auto simp: restrict_map_def)

lemma destroy_listener_held:
  assumes h: "sessions_held w"
  shows "sessions_held (destroy_listener lib i w) \<and> listeners (destroy_listener lib i w) = (listeners w)(i := None) \<and>
         nodes (destroy_listener lib i w) = nodes w \<and> same_rest w (destroy_listener lib i w)"
proof (cases "listeners w i")
  case None
  then show ?thesis using h by (simp add: destroy_listener_def same_rest_def fun_upd_idem)
next
  case (Some k)
  obtain F where d: "destroy_listener lib i w = w\<lparr>open_fds := F,
      inbounds := inbounds w |` (- set (reg_objects (lst_sessions k))), listeners := (listeners w)(i := None)\<rparr>"
    using destroy_listener_eq [of lib i w] Some by auto
  have "\<exists>l. ((listeners w)(i := None)) lid = Some l \<and> sid \<in> set (reg_objects (lst_sessions l))"
    if "(inbounds w |` (- set (reg_objects (lst_sessions k)))) sid = Some (s, lid)" for sid s lid
  proof -
    have s: "inbounds w sid = Some (s, lid)" "sid \<notin> set (reg_objects (lst_sessions k))"
      using that by (auto simp: restrict_map_def split: if_splits)
    obtain l where l: "listeners w lid = Some l" "sid \<in> set (reg_objects (lst_sessions l))"
      using sessions_heldD(1) [OF h s(1)] by blast
    then have "lid \<noteq> i" using s(2) Some by auto
    then show ?thesis using l by auto
  qed
  moreover have "outbounds w sid = Some (s, nid) \<Longrightarrow>
      \<exists>n. nodes w nid = Some n \<and> sid \<in> set (reg_objects (node_sessions n))" for sid s nid
    by (rule sessions_heldD(2) [OF h])
  ultimately show ?thesis unfolding d by (simp add: sessions_held_def same_rest_def)
qed

lemma destroy_outbounds_eq:
  "\<exists>F. fold (destroy_outbound lib) sids w = w\<lparr>open_fds := F, outbounds := outbounds w |` (- set sids)\<rparr>"
proof (induction sids arbitrary: w)
  case Nil
  have "w = w\<lparr>open_fds := open_fds w, outbounds := outbounds w |` (- set [])\<rparr>" by (simp add: restrict_map_def)
  then show ?case by (metis fold_simps(1))
next
  case (Cons sid sids)
  obtain F where "fold (destroy_outbound lib) sids (destroy_outbound lib sid w) =
      (destroy_outbound lib sid w)\<lparr>open_fds := F,
         outbounds := outbounds (destroy_outbound lib sid w) |` (- set sids)\<rparr>"
    using Cons.IH by blast
  moreover have "((outbounds w)(sid := None)) |` (- set sids) = outbounds w |` (- set (sid # sids))"
    by (auto simp: restrict_map_def)
  ultimately have "fold (destroy_outbound lib) (sid # sids) w =
      w\<lparr>open_fds := F, outbounds := outbounds w |` (- set (sid # sids))\<rparr>"
    by (simp add: destroy_outbound_eq [of lib sid w])
  then show ?case by blast
qed

lemma destroy_node_held:
  assumes h: "sessions_held w"
  shows "sessions_held (destroy_node lib i w) \<and> nodes (destroy_node lib i w) = (nodes w)(i := None) \<and>
         listeners (destroy_node lib i w) = listeners w \<and>
         ep_listeners (destroy_node lib i w) = ep_listeners w \<and> same_rest w (destroy_node lib i w)"
proof (cases "nodes w i")
  case None
  then show ?thesis using h by (simp add: destroy_node_def same_rest_def fun_upd_idem)
next
  case (Some k)
  obtain F where "fold (destroy_outbound lib) (reg_objects (node_sessions k)) w =
      w\<lparr>open_fds := F, outbounds := outbounds w |` (- set (reg_objects (node_sessions k)))\<rparr>"
    using destroy_outbounds_eq by blast
  then have d: "destroy_node lib i w = w\<lparr>open_fds := F,
      outbounds := outbounds w |` (- set (reg_objects (node_sessions k))), nodes := (nodes w)(i := None)\<rparr>"
    using Some by (simp add: destroy_node_def Let_def)
  have "\<exists>n. ((nodes w)(i := None)) nid = Some n \<and> sid \<in> set (reg_objects (node_sessions n))"
    if "(outbounds w |` (- set (reg_objects (node_sessions k)))) sid = Some (s, nid)" for sid s nid
  proof -
    have s: "outbounds w sid = Some (s, nid)" "sid \<notin> set (reg_objects (node_sessions k))"
      using that by (auto simp: restrict_map_def split: if_splits)
    obtain n where n: "nodes w nid = Some n" "sid \<in> set (reg_objects (node_sessions n))"
      using sessions_heldD(2) [OF h s(1)] by blast
    then have "nid \<noteq> i" using s(2) Some by auto
    then show ?thesis using n by auto
  qed
  moreover have "inbounds w sid = Some (s, lid) \<Longrightarrow>
      \<exists>l. listeners w lid = Some l \<and> sid \<in> set (reg_objects (lst_sessions l))" for sid s lid
    by (rule sessions_heldD(1) [OF h])
  ultimately show ?thesis unfolding d by (simp add: sessions_held_def same_rest_def)
qed

lemma destroy_listeners_held:
  "sessions_held w \<Longrightarrow> sessions_held (fold (destroy_listener lib) ls w) \<and>
     listeners (fold (destroy_listener lib) ls w) = listeners w |` (- set ls) \<and>
     nodes (fold (destroy_listener lib) ls w) = nodes w \<and> same_rest w (fold (destroy_listener lib) ls w)"
proof (induction ls arbitrary: w)
  case (Cons i ls)
  note d = destroy_listener_held [OF Cons.prems, of lib i]
  show ?case using Cons.IH [of "destroy_listener lib i w"] d by (simp add: same_rest_def fun_upd_def restrict_drop)
qed (simp add: same_rest_def restrict_map_def)

lemma destroy_nodes_held:
  "sessions_held w \<Longrightarrow> sessions_held (fold (destroy_node lib) ns w) \<and>
     nodes (fold (destroy_node lib) ns w) = nodes w |` (- set ns) \<and>
     listeners (fold (destroy_node lib) ns w) = listeners w \<and>
     ep_listeners (fold (destroy_node lib) ns w) = ep_listeners w \<and> same_rest w (fold (destroy_node lib) ns w)"
proof (induction ns arbitrary: w)
  case (Cons i ns)
  note d = destroy_node_held [OF Cons.prems, of lib i]
  show ?case using Cons.IH [of "destroy_node lib i w"] d by (simp add: same_rest_def fun_upd_def restrict_drop)
qed (simp add: same_rest_def restrict_map_def)

lemma sys_held: "sys_inv t w \<Longrightarrow> sessions_held w"
  unfolding sessions_held_def
proof (intro conjI allI impI)
  fix sid s lid assume i: "sys_inv t w" and s: "inbounds w sid = Some (s, lid)"
  have o: "owned (inbounds w) (listeners w) (ep_listeners w) (next_obj w)"
    using i by (simp add: sys_inv_def wf_world_def)
  then obtain l where "listeners w lid = Some l" using ownedD(4) [OF o s] by blast
  then show "\<exists>l. listeners w lid = Some l \<and> sid \<in> set (reg_objects (lst_sessions l))"
    using listener_objects [OF o] s by blast
next
  fix sid s nid assume i: "sys_inv t w" and s: "outbounds w sid = Some (s, nid)"
  then have "outbound_ok (outbounds w) (nodes w) (next_obj w)" by (simp add: sys_inv_def)
  from outbound_okD(2) [OF this s] obtain k where k: "nodes w nid = Some k"
    "reg_find (sess_host s) (node_sessions k) = Some (Some sid)" by blast
  then have "(sess_host s, Some sid) \<in> set (node_sessions k)" by (simp add: reg_find_def map_of_SomeD)
  then have "sid \<in> set (reg_objects (node_sessions k))"
    by (auto simp: reg_objects_def List.map_filter_def intro!: image_eqI [of _ _ "(sess_host s, Some sid)"])
  then show "\<exists>n. nodes w nid = Some n \<and> sid \<in> set (reg_objects (node_sessions n))" using k(1) by blast
qed

lemma restrict_none: "(\<And>i. m i \<noteq> None \<Longrightarrow> i \<in> S) \<Longrightarrow> m |` (- S) = Map.empty"
proof (rule ext)
  fix x assume "\<And>i. m i \<noteq> None \<Longrightarrow> i \<in> S"
  then show "(m |` (- S)) x = None" by (cases "m x = None") (auto simp: restrict_map_def)
qed

text \<open>What the members' destruction leaves, when every object still has its entry.\<close>

lemma members_gone:
  assumes h: "sessions_held w"
    and l: "\<And>i. listeners w i \<noteq> None \<Longrightarrow> i \<in> set (reg_objects (ep_listeners w))"
    and n: "\<And>i. nodes w i \<noteq> None \<Longrightarrow> i \<in> set (reg_objects (ep_nodes w))"
    and w': "w' = endpoint_members_destroy lib w"
  shows "inbounds w' = Map.empty \<and> outbounds w' = Map.empty \<and> listeners w' = Map.empty \<and>
         nodes w' = Map.empty \<and> job_queue w' = job_queue w"
proof -
  let ?w0 = "w\<lparr>ep_nodes := []\<rparr>"
  let ?w1 = "fold (destroy_node lib) (reg_objects (ep_nodes w)) ?w0"
  let ?w2 = "fold (destroy_listener lib) (reg_objects (ep_listeners ?w1)) (?w1\<lparr>ep_listeners := []\<rparr>)"
  have "sessions_held ?w0" using h by simp
  note a = destroy_nodes_held [OF this, of lib "reg_objects (ep_nodes w)"]
  have N1: "nodes ?w1 = Map.empty"
    using a restrict_none [of "nodes w" "set (reg_objects (ep_nodes w))", OF n] by simp
  have "sessions_held (?w1\<lparr>ep_listeners := []\<rparr>)" using a by simp
  note b = destroy_listeners_held [OF this, of lib "reg_objects (ep_listeners ?w1)"]
  have L: "listeners ?w2 = Map.empty"
    using a b restrict_none [of "listeners w" "set (reg_objects (ep_listeners w))", OF l] by simp
  have N: "nodes ?w2 = Map.empty" using b N1 by simp
  have held: "sessions_held ?w2" using b by blast
  have "inbounds ?w2 sid = None" for sid
  proof (cases "inbounds ?w2 sid")
    case (Some x)
    obtain s lid where "x = (s, lid)" by fastforce
    then show ?thesis using sessions_heldD(1) [OF held] Some L by fastforce
  qed
  moreover have "outbounds ?w2 sid = None" for sid
  proof (cases "outbounds ?w2 sid")
    case (Some x)
    obtain s nid where "x = (s, nid)" by fastforce
    then show ?thesis using sessions_heldD(2) [OF held] Some N by fastforce
  qed
  moreover have "job_queue ?w2 = job_queue w" using a b by (simp add: same_rest_def)
  moreover have "w' = ?w2\<lparr>ep_ctx := None\<rparr>" by (simp only: w' endpoint_members_destroy_def Let_def)
  ultimately show ?thesis using L N by (auto simp: fun_eq_iff)
qed

lemma stop_tickers_watchers: "\<exists>W. stop_tickers rc i s = s\<lparr>watchers := W\<rparr>"
proof -
  have "\<exists>W. stop_all rc ws s = s\<lparr>watchers := W\<rparr>" for ws
  proof (induction ws arbitrary: s)
    case Nil
    have "stop_all rc [] s = s\<lparr>watchers := watchers s\<rparr>" by simp
    then show ?case by blast
  next
    case (Cons v vs)
    show ?case
    proof (cases "watchers s v")
      case (Some t)
      then show ?thesis using Cons.IH [of "s\<lparr>watchers := (watchers s)(v \<mapsto> stop_watcher (rc v) t)\<rparr>"] by simp
    qed (use Cons.IH [of s] in simp)
  qed
  then show ?thesis
    by (cases "tickers s i") (simp_all add: stop_tickers_def exI [of _ "watchers s"])
qed

lemma reg_entry_object: "reg_find k r = Some (Some v) \<Longrightarrow> v \<in> set (reg_objects r)"
  by (auto simp: reg_find_def reg_objects_def List.map_filter_def dest!: map_of_SomeD
      intro!: image_eqI [of _ _ "(k, Some v)"])

lemma sys_entries:
  assumes i: "sys_inv t w"
  shows "listeners w l \<noteq> None \<Longrightarrow> l \<in> set (reg_objects (ep_listeners w))"
    "nodes w n \<noteq> None \<Longrightarrow> n \<in> set (reg_objects (ep_nodes w))"
proof -
  have o: "owned (inbounds w) (listeners w) (ep_listeners w) (next_obj w)" and N: "nodes_ok (nodes w) (ep_nodes w)"
    using i by (simp_all add: sys_inv_def wf_world_def)
  show "listeners w l \<noteq> None \<Longrightarrow> l \<in> set (reg_objects (ep_listeners w))"
    using ownedD(8) [OF o] reg_entry_object by metis
  show "nodes w n \<noteq> None \<Longrightarrow> n \<in> set (reg_objects (ep_nodes w))"
    using N reg_entry_object unfolding nodes_ok_def by metis
qed

lemma destroy_shape:
  assumes i: "sys_inv t w" and d: "endpoint_destroy lib del_rc False t w = (None, w1)"
  shows "sessions_held w1 \<and> listeners w1 = Map.empty \<and> job_queue w1 = job_queue w \<and>
         (\<forall>n. nodes w1 n \<noteq> None \<longrightarrow> n \<in> set (reg_objects (ep_nodes w1)))"
proof -
  have t: "in_event_loop t w" using i by (simp add: sys_inv_def)
  obtain x v where v: "(if ep_close_immediately w then (None, w) else shutdown_endpoint lib t w) = (x, v)"
    by fastforce
  have "x = None" using d v by (cases x) (simp_all add: endpoint_destroy_def)
  have vi: "sys_inv t v \<and> job_queue v = job_queue w"
  proof (cases "ep_close_immediately w")
    case True
    then show ?thesis using v i by simp
  next
    case False
    then have "run_job lib t Close_all_listeners w = (x, v)"
      using v t by (simp add: shutdown_endpoint_def loop_call_def)
    then show ?thesis using sys_run_job [OF i, of lib Close_all_listeners x v] by simp
  qed
  then have h: "sessions_held (v\<lparr>ep_listeners := []\<rparr>)" using sys_held [of t v] by simp
  let ?w2 = "fold (destroy_listener lib) (reg_objects (ep_listeners v)) (v\<lparr>ep_listeners := []\<rparr>)"
  note f = destroy_listeners_held [OF h, of lib "reg_objects (ep_listeners v)"]
  have "listeners ?w2 = Map.empty"
    using f restrict_none [of "listeners v" "set (reg_objects (ep_listeners v))", OF sys_entries(1) [of t v]] vi
    by simp
  moreover have "w1 = stop_tickers del_rc (ep_client_id ?w2) ?w2"
    using d v \<open>x = None\<close> by (simp add: endpoint_destroy_def Let_def)
  then obtain W where w1: "w1 = ?w2\<lparr>watchers := W\<rparr>" using stop_tickers_watchers by metis
  moreover have "nodes ?w2 = nodes v" "ep_nodes ?w2 = ep_nodes v" "job_queue ?w2 = job_queue w"
    using f vi by (simp_all add: same_rest_def)
  moreover have "sessions_held w1" using f w1 by simp
  moreover have "\<forall>n. nodes v n \<noteq> None \<longrightarrow> n \<in> set (reg_objects (ep_nodes v))"
    using sys_entries(2) vi by blast
  ultimately show ?thesis by simp
qed

section \<open>Properties\<close>

text \<open>
  C22. An endpoint whose destructor returns leaves nothing behind: after its members are
  gone no listener, node or session of either kind is left, whatever state it was in.
  The closures of the loop's queue are left, though, and each close of a session or
  listener among them then dereferences a destroyed object; those of the user run.
\<close>

theorem teardown_complete:
  assumes "endpoint_make ssl creds t c prs fds = (Inr w0, c')" and "(sys_step t)\<^sup>*\<^sup>* w0 w"
    and "endpoint_destroy lib del_rc False t w = (None, w1)"
    and "w2 = endpoint_members_destroy lib w1"
  shows "inbounds w2 = Map.empty \<and> outbounds w2 = Map.empty \<and> listeners w2 = Map.empty \<and>
         nodes w2 = Map.empty \<and> job_queue w2 = job_queue w \<and>
         (\<forall>j \<in> set (job_queue w) - {Close_all_listeners}. run_job lib' t j w2 =
            (case j of User_closure js x \<Rightarrow> (x, fold call_soon js w2) | _ \<Rightarrow> (Some use_after_free, w2)))"
proof -
  have i: "sys_inv t w" using sys_reachable [OF assms(2) sys_init [OF assms(1)]] .
  note d = destroy_shape [OF i assms(3)]
  have g: "inbounds w2 = Map.empty \<and> outbounds w2 = Map.empty \<and> listeners w2 = Map.empty \<and>
      nodes w2 = Map.empty \<and> job_queue w2 = job_queue w1"
    by (rule members_gone [OF _ _ _ assms(4)]) (use d in auto)
  have "run_job lib' t j w2 =
      (case j of User_closure js x \<Rightarrow> (x, fold call_soon js w2) | _ \<Rightarrow> (Some use_after_free, w2))"
    if "j \<noteq> Close_all_listeners" for j
    using that g by (cases j) simp_all
  then show ?thesis using g d by auto
qed

theorem teardown_complete_witness:
  "\<exists>w w1. (sys_step 7)\<^sup>*\<^sup>* demo0 w \<and> endpoint_destroy demo_garbage (\<lambda>_. 0) False 7 w = (None, w1) \<and>
     job_queue w = [Inbound_close 1] \<and> inbounds w 1 \<noteq> None \<and>
     inbounds (endpoint_members_destroy demo_garbage w1) = Map.empty \<and>
     fst (run_job demo_garbage 7 (Inbound_close 1) (endpoint_members_destroy demo_garbage w1)) = Some use_after_free"
proof -
  obtain s msg where s: "inbounds demo1 1 = Some (s, 0)" "sess_bev_cbs s" "sess_this s = 1" "\<not> sess_is_outbound s"
    and p: "path_to_string (sl_net (el_session demo_garbage)) (sl_big_endian (el_session demo_garbage)) (sess_path s) = Inr msg"
    using demo1(2) by blast
  have t: "in_event_loop 7 demo1" by (simp add: in_event_loop_def demo1(4))
  have "BEV_EVENT_EOF AND BEV_EVENT_CONNECTED = 0" by (simp add: const_defs)
  note e = event_closes [OF t s p this]
  let ?v = "call_soon (Inbound_close 1) demo1"
  let ?w = "set_shutdown_immediate True ?v"
  have "sys_step 7 demo1 ?v" by (rule sys_step.traffic_in [OF demo_wired(2) e])
  moreover have "sys_step 7 ?v ?w" by (rule sys_step.immediate)
  ultimately have r: "(sys_step 7)\<^sup>*\<^sup>* demo0 ?w" using demo1(1) by (meson rtranclp.rtrancl_into_rtrancl)
  obtain w1 where d: "endpoint_destroy demo_garbage (\<lambda>_. 0) False 7 ?w = (None, w1)"
    by (simp add: endpoint_destroy_def set_shutdown_immediate_def Let_def)
  have q: "job_queue ?w = [Inbound_close 1]" "inbounds ?w 1 \<noteq> None"
    using demo1(3) s(1) by (simp_all add: set_shutdown_immediate_def call_soon_def)
  from teardown_complete [OF demo0 r d refl] q r d show ?thesis by auto
qed

end
