(* ===== verification/Handles.thy ===== *)
theory Handles
  imports Session_Data
begin

text \<open>
  The C objects a session holds through \<open>unique_ptr\<close> and \<open>shared_ptr\<close>, the deleters
  they are given (\<open>include/wshttp/types.hpp\<close>), the order in which the members of a
  session are destroyed (\<open>include/wshttp/session.hpp\<close>), and what becomes of its \<open>SSL\<close>.
\<close>

section \<open>Deleters\<close>

datatype handle =
    H_event | H_session | H_evdns | H_evdns_port | H_bufferevent | H_evconnlistener | H_ssl_ctx | H_ssl

datatype native_call =
    Event_free | Nghttp2_session_del | Evdns_base_free int | Evdns_close_server_port
  | Bufferevent_free | Evconnlistener_free | Ssl_ctx_free | Ssl_shutdown

fun deleter :: "handle \<Rightarrow> native_call" where
  "deleter H_event = Event_free"
| "deleter H_session = Nghttp2_session_del"
| "deleter H_evdns = Evdns_base_free 1"
| "deleter H_evdns_port = Evdns_close_server_port"
| "deleter H_bufferevent = Bufferevent_free"
| "deleter H_evconnlistener = Evconnlistener_free"
| "deleter H_ssl_ctx = Ssl_ctx_free"
| "deleter H_ssl = Ssl_shutdown"

section \<open>The members of a session\<close>

text \<open>\<open>_ssl\<close>, \<open>_bev\<close> and \<open>_session\<close> in the order they are declared, those that are set.\<close>

definition session_handles :: "session \<Rightarrow> handle list" where
  "session_handles s =
     (if sess_ssl s then [H_ssl] else []) @ (if sess_bev s then [H_bufferevent] else []) @
     (if sess_nghttp2 s \<noteq> None then [H_session] else [])"

text \<open>Members are destroyed in the reverse of that order.\<close>

definition session_teardown :: "session \<Rightarrow> native_call list" where
  "session_teardown s = map deleter (rev (session_handles s))"

section \<open>The \<open>SSL\<close> object\<close>

text \<open>
  libevent documents that a bufferevent made with \<open>BEV_OPT_CLOSE_ON_FREE\<close> frees its
  \<open>SSL\<close> when it is freed itself; whether at once or in a later round of the loop
  (\<open>deferred\<close>), and whether the \<open>SSL\<close> goes when the bufferevent cannot be made
  (\<open>frees_on_failure\<close>), is the library's. OpenSSL documents that \<open>SSL_shutdown\<close> frees
  nothing.
\<close>

datatype ssl_state = Ssl_live | Ssl_dying | Ssl_gone

definition ssl_set_up :: "bool \<Rightarrow> session \<Rightarrow> ssl_state option" where
  "ssl_set_up frees_on_failure s =
     (if \<not> sess_ssl s then None
      else if \<not> sess_bev s \<and> frees_on_failure then Some Ssl_gone else Some Ssl_live)"

fun ssl_call :: "bool \<Rightarrow> native_call \<Rightarrow> ssl_state \<Rightarrow> ssl_state result" where
  "ssl_call deferred Bufferevent_free st = Inr (if deferred \<and> st = Ssl_live then Ssl_dying else Ssl_gone)"
| "ssl_call deferred Ssl_shutdown st = (if st = Ssl_gone then Inl use_after_free else Inr st)"
| "ssl_call deferred _ st = Inr st"

fun ssl_calls :: "bool \<Rightarrow> native_call list \<Rightarrow> ssl_state \<Rightarrow> ssl_state result" where
  "ssl_calls deferred [] st = Inr st"
| "ssl_calls deferred (c # cs) st = bind_result (ssl_call deferred c st) (ssl_calls deferred cs)"

datatype ssl_fate = Never_made | Freed_once | Leaked | Used_after_free

definition ssl_fate_of :: "bool \<Rightarrow> bool \<Rightarrow> session \<Rightarrow> ssl_fate" where
  "ssl_fate_of deferred frees_on_failure s =
     (case ssl_set_up frees_on_failure s of
        None \<Rightarrow> Never_made
      | Some st \<Rightarrow>
          (case ssl_calls deferred (session_teardown s) st of
             Inl _ \<Rightarrow> Used_after_free
           | Inr Ssl_live \<Rightarrow> Leaked
           | Inr _ \<Rightarrow> Freed_once))"

lemma ssl_fate_cases:
  "ssl_fate_of deferred frees s =
     (if \<not> sess_ssl s then Never_made
      else if sess_bev s then (if deferred then Freed_once else Used_after_free)
      else if frees then Used_after_free else Leaked)"
  by (simp add: ssl_fate_of_def ssl_set_up_def session_teardown_def session_handles_def)

lemma init_handles:
  assumes "in_event_loop t e"
  shows "inbound_init_internals lib t (session_new this fd p False [], e) = (r, s, e') \<Longrightarrow>
           sess_ssl s = SSL_new lib \<and> sess_bev s = (SSL_new lib \<and> bufferevent_new lib)"
    "outbound_init_internals lib t (session_new this fd p True host, e) = (r', s', e'') \<Longrightarrow>
           sess_ssl s' = SSL_new lib \<and> sess_bev s' = (SSL_new lib \<and> bufferevent_new lib)"
  using assms
  by (auto simp: inbound_init_internals_def outbound_init_internals_def new_ssl_def node_new_ssl_def thenc_def
      bindc_def upd_session_def guardc_def guard_def of_result_def learn_local_def this_session_def
      session_new_def in_loop_def split: if_splits sum.splits)

section \<open>Properties\<close>

text \<open>
  What becomes of the \<open>SSL\<close> object of a session, inbound or outbound, when the
  session goes, whether it was set up completely or not: it is freed once exactly when
  the bufferevent was made and libevent defers the free beyond the deleter of \<open>_ssl\<close>,
  which only calls \<open>SSL_shutdown\<close>. With a free at once that call works on a freed
  object; without a bufferevent nobody frees the object, unless libevent has, and then
  the deleter again works on a freed one.
\<close>

theorem ssl_fate:
  assumes "in_event_loop t e"
    and "inbound_init_internals lib t (session_new this fd p False [], e) = (r, s, e') \<or>
         outbound_init_internals lib t (session_new this fd p True host, e) = (r, s, e')"
  shows "ssl_fate_of deferred frees_on_failure s =
     (if \<not> SSL_new lib then Never_made
      else if bufferevent_new lib then (if deferred then Freed_once else Used_after_free)
      else if frees_on_failure then Used_after_free else Leaked)"
  using init_handles [OF assms(1)] assms(2) unfolding ssl_fate_cases by fastforce

theorem ssl_fate_witness:
  "\<exists>s e'. inbound_init_internals ((toy_session_lib []) \<lparr>bufferevent_new := False\<rparr>) 1
        (session_new 0 5 \<lparr>path_local = ip_address_of_port 0, path_remote = ip_address_of_port 9\<rparr> False [],
         toy_env :: (string \<times> string, unit) env) =
        (Inl (runtime_error ''Failed to create bufferevent socket for inbound TLS session''), s, e') \<and>
     ssl_fate_of True False s = Leaked"
proof -
  let ?lib = "(toy_session_lib []) \<lparr>bufferevent_new := False\<rparr> :: (string \<times> string, unit) session_lib"
  let ?n = "session_new 0 5 \<lparr>path_local = ip_address_of_port 0, path_remote = ip_address_of_port 9\<rparr> False []"
  have t: "in_event_loop 1 (toy_env :: (string \<times> string, unit) env)"
    using toy_unpathed by (simp add: unpathed_inv_def inbound_inv_def)
  obtain r s e' where m: "inbound_init_internals ?lib 1 (?n, toy_env) = (r, s, e')" by (metis surj_pair)
  have "r = Inl (runtime_error ''Failed to create bufferevent socket for inbound TLS session'')"
    using m t by (auto simp: inbound_init_internals_def new_ssl_def thenc_def bindc_def upd_session_def
        in_loop_def toy_session_lib_def)
  moreover have "ssl_fate_of True False s = Leaked"
    using ssl_fate [OF t disjI1 [OF m]] by (simp add: toy_session_lib_def)
  ultimately show ?thesis using m by blast
qed

end
