(* ===== verification/Logger.thy ===== *)
theory Logger
  imports Prelude
begin

text \<open>
  The logger of \<open>include/wshttp/format.hpp\<close> and \<open>src/format.cpp\<close>: level names,
  the choice of sink, the process-wide instance, and the elapsed-time prefix. What a log
  call passes on is in \<open>Log_Calls\<close>, the names of loggers in \<open>Log_Registry\<close>.
\<close>

section \<open>Levels\<close>

datatype level = trace | debug | info | warn | err | critical | off

definition level_names :: "(string \<times> level) list" where
  "level_names =
     [(''trace'', trace), (''debug'', debug), (''info'', info), (''warn'', warn),
      (''err'', err), (''critical'', critical), (''off'', off)]"

text \<open>The message of the exception, up to the quoted names.\<close>

definition bad_level_msg :: string where
  "bad_level_msg = ''Log level must be one of ''"

definition translate_level :: "string \<Rightarrow> level result" where
  "translate_level lvl =
     (if lvl = ''trace'' then Inr trace
      else if lvl = ''debug'' then Inr debug
      else if lvl = ''info'' then Inr info
      else if lvl = ''warn'' then Inr warn
      else if lvl = ''err'' then Inr err
      else if lvl = ''critical'' then Inr critical
      else if lvl = ''off'' then Inr off
      else Inl (invalid_argument bad_level_msg))"

section \<open>The logger object\<close>

datatype log_sink = stderr_sink | stdout_sink

record spd_logger =
  sink_kind :: log_sink
  formatter_set :: bool
  log_level :: level

definition spd_logger_new :: "log_sink \<Rightarrow> spd_logger" where
  "spd_logger_new k = \<lparr>sink_kind = k, formatter_set = False, log_level = info\<rparr>"

record Logger =
  logger_ptr :: "spd_logger option" \<comment> \<open>\<open>_logger\<close>\<close>

text \<open>
  \<open>_logger_init\<close>: a sink name that is neither of the two leaves \<open>_logger\<close> null,
  and the next statement calls through it.
\<close>

definition logger_init :: "string \<Rightarrow> string \<Rightarrow> (Logger, unit) comp" where
  "logger_init s lvl =
     thenc (modifyc (\<lambda>l. l\<lparr>logger_ptr :=
              (if s = ''stderr'' then Some (spd_logger_new stderr_sink)
               else if s = ''stdout'' then Some (spd_logger_new stdout_sink)
               else logger_ptr l)\<rparr>))
    (bindc getc (\<lambda>l. case logger_ptr l of
       None \<Rightarrow> throwc null_deref
     | Some p \<Rightarrow>
         thenc (modifyc (\<lambda>l. l\<lparr>logger_ptr := Some (p\<lparr>formatter_set := True\<rparr>)\<rparr>))
        (case translate_level lvl of
           Inl e \<Rightarrow> throwc e
         | Inr v \<Rightarrow>
             modifyc (\<lambda>l. l\<lparr>logger_ptr := Some (p\<lparr>formatter_set := True, log_level := v\<rparr>)\<rparr>))))"

definition logger_construct :: "string \<Rightarrow> string \<Rightarrow> unit result \<times> Logger" where
  "logger_construct sink lvl = logger_init sink lvl \<lparr>logger_ptr = None\<rparr>"

definition set_level :: "string \<Rightarrow> (Logger, unit) comp" where
  "set_level lvl l =
     (case translate_level lvl of
        Inl e \<Rightarrow> (Inl e, l)
      | Inr v \<Rightarrow>
          (case logger_ptr l of
             None \<Rightarrow> (Inl null_deref, l)
           | Some p \<Rightarrow> (Inr (), l\<lparr>logger_ptr := Some (p\<lparr>log_level := v\<rparr>)\<rparr>)))"

text \<open>
  \<open>make_logger\<close> keeps one instance in a function-local static: the argument and
  second result are that static, the first result what the call returns.
\<close>

definition make_logger :: "Logger option \<Rightarrow> Logger result \<times> Logger option" where
  "make_logger l =
     (case l of
        Some p \<Rightarrow> (Inr p, l)
      | None \<Rightarrow>
          (case logger_construct ''stderr'' ''trace'' of
             (Inl e, _) \<Rightarrow> (Inl e, None)
           | (Inr _, p) \<Rightarrow> (Inr p, Some p)))"

section \<open>The elapsed-time prefix\<close>

datatype elapsed_format = format_hours | format_minutes | format_seconds

record elapsed_fields =
  ef_format :: elapsed_format
  ef_hours :: int
  ef_minutes :: int
  ef_seconds :: int
  ef_millis :: int

text \<open>Durations are counts of nanoseconds; \<open>duration_cast\<close> truncates.\<close>

definition ns_per_ms :: int where "ns_per_ms = 1000000"
definition ns_per_s :: int where "ns_per_s = 1000000000"
definition ns_per_min :: int where "ns_per_min = 60 * ns_per_s"
definition ns_per_h :: int where "ns_per_h = 60 * ns_per_min"

lemmas ns_defs = ns_per_ms_def ns_per_s_def ns_per_min_def ns_per_h_def

definition format_elapsed :: "int \<Rightarrow> elapsed_fields" where
  "format_elapsed elapsed =
     \<lparr>ef_format = (if ns_per_h \<le> elapsed then format_hours
                   else if ns_per_min \<le> elapsed then format_minutes else format_seconds),
      ef_hours = c_div elapsed ns_per_h,
      ef_minutes = c_mod (c_div elapsed ns_per_min) 60,
      ef_seconds = c_mod (c_div elapsed ns_per_s) 60,
      ef_millis = c_mod (c_div elapsed ns_per_ms) 1000\<rparr>"

text \<open>The fields the chosen format string prints, most significant first.\<close>

fun shown_fields :: "elapsed_fields \<Rightarrow> int list" where
  "shown_fields f =
     (case ef_format f of
        format_hours \<Rightarrow> [ef_hours f, ef_minutes f, ef_seconds f, ef_millis f]
      | format_minutes \<Rightarrow> [ef_minutes f, ef_seconds f, ef_millis f]
      | format_seconds \<Rightarrow> [ef_seconds f, ef_millis f])"

definition shown_millis :: "elapsed_fields \<Rightarrow> int" where
  "shown_millis f =
     (case shown_fields f of
        [h, m, s, ms] \<Rightarrow> ((h * 60 + m) * 60 + s) * 1000 + ms
      | [m, s, ms] \<Rightarrow> (m * 60 + s) * 1000 + ms
      | [s, ms] \<Rightarrow> s * 1000 + ms
      | _ \<Rightarrow> 0)"

lemma translate_level_map_of:
  "translate_level s =
     (case map_of level_names s of None \<Rightarrow> Inl (invalid_argument bad_level_msg) | Some l \<Rightarrow> Inr l)"
  by (auto simp: translate_level_def level_names_def)

lemma elapsed_split:
  fixes e :: int
  assumes "0 \<le> e"
  shows "e div 1000000 = ((e div 3600000000000 * 60 + e div 60000000000 mod 60) * 60
           + e div 1000000000 mod 60) * 1000 + e div 1000000 mod 1000"
proof -
  have s: "e div 1000000000 = e div 1000000 div 1000"
    and m: "e div 60000000000 = e div 1000000000 div 60"
    and h: "e div 3600000000000 = e div 60000000000 div 60"
    by (simp_all add: zdiv_zmult2_eq [symmetric])
  show ?thesis
    by (simp only: h m s div_mult_mod_eq)
qed

lemma div_int_nonneg: "0 \<le> (e::int) \<Longrightarrow> 0 < n \<Longrightarrow> 0 \<le> e div n"
  by (simp add: pos_imp_zdiv_nonneg_iff)

lemma div_small: "0 \<le> (e::int) \<Longrightarrow> e < n \<Longrightarrow> e div n = 0"
  by (simp add: div_pos_pos_trivial)

section \<open>Properties\<close>

text \<open>
  A level name is accepted exactly when it is one of the seven the error message
  lists, each name gives its own level, and setting an accepted level changes
  nothing but the level; a rejected name leaves the logger as it was.
\<close>

theorem set_level_spec:
  "set_level lvl \<lparr>logger_ptr = Some p\<rparr> =
     (case map_of level_names lvl of
        None \<Rightarrow> (Inl (invalid_argument bad_level_msg), \<lparr>logger_ptr = Some p\<rparr>)
      | Some v \<Rightarrow> (Inr (), \<lparr>logger_ptr = Some (p\<lparr>log_level := v\<rparr>)\<rparr>)) \<and>
   distinct (map fst level_names) \<and> distinct (map snd level_names)"
  by (auto simp: set_level_def translate_level_map_of level_names_def)

text \<open>
  For any elapsed time the fields are in range (minutes and seconds below 60,
  milliseconds below 1000) and the fields that the chosen format prints add up to
  the elapsed milliseconds exactly: the shorter formats drop only fields that are 0.
\<close>

theorem elapsed_prefix_exact:
  assumes "0 \<le> elapsed"
  shows "shown_millis (format_elapsed elapsed) = elapsed div ns_per_ms \<and>
         ef_minutes (format_elapsed elapsed) \<in> {0..<60} \<and>
         ef_seconds (format_elapsed elapsed) \<in> {0..<60} \<and>
         ef_millis (format_elapsed elapsed) \<in> {0..<1000}"
proof -
  let ?f = "format_elapsed elapsed"
  have fields: "ef_hours ?f = elapsed div 3600000000000"
    "ef_minutes ?f = elapsed div 60000000000 mod 60"
    "ef_seconds ?f = elapsed div 1000000000 mod 60"
    "ef_millis ?f = elapsed div 1000000 mod 1000"
    using assms by (simp_all add: format_elapsed_def ns_defs div_int_nonneg)
  have hours: "ef_format ?f \<noteq> format_hours \<Longrightarrow> ef_hours ?f = 0"
    and minutes: "ef_format ?f = format_seconds \<Longrightarrow> ef_minutes ?f = 0"
    using assms unfolding fields
    by (auto simp: format_elapsed_def ns_defs div_small split: if_splits)
  have "((ef_hours ?f * 60 + ef_minutes ?f) * 60 + ef_seconds ?f) * 1000 + ef_millis ?f
      = elapsed div ns_per_ms"
    unfolding fields using elapsed_split [OF assms] by (simp only: ns_defs)
  then have "shown_millis ?f = elapsed div ns_per_ms"
    using hours minutes by (cases "ef_format ?f") (simp_all add: shown_millis_def)
  then show ?thesis by (simp add: fields)
qed

theorem elapsed_prefix_exact_witness:
  "shown_millis (format_elapsed 3723004005006) = 3723004005006 div ns_per_ms \<and>
   ef_minutes (format_elapsed 3723004005006) \<in> {0..<60} \<and>
   ef_seconds (format_elapsed 3723004005006) \<in> {0..<60} \<and>
   ef_millis (format_elapsed 3723004005006) \<in> {0..<1000}"
  by (rule elapsed_prefix_exact) simp

end
