(* ===== verification/Log_Calls.thy ===== *)
theory Log_Calls
  imports Logger Spans
begin

text \<open>
  The log calls of \<open>include/wshttp/format.hpp\<close>, which lines of a run reach the sink,
  and the format literals \<open>""_format\<close>. Formatting itself (fmt) is the parameter
  \<open>fmt\<close>; the sink is the list of the lines it was given.
\<close>

section \<open>Format literals\<close>

text \<open>\<open>string_literal<N>\<close> copies the array with its NUL; \<open>sv()\<close> leaves the NUL out.\<close>

definition string_literal :: "string \<Rightarrow> char list" where
  "string_literal s = c_literal s"

definition string_literal_sv :: "char list \<Rightarrow> string" where
  "string_literal_sv str = take (length str - 1) str"

definition fmt_wrapper_call :: "(string \<Rightarrow> 'a list \<Rightarrow> string result) \<Rightarrow> char list \<Rightarrow> 'a list \<Rightarrow> string result" where
  "fmt_wrapper_call fmt Format args = fmt (string_literal_sv Format) args"

definition literal_format :: "(string \<Rightarrow> 'a list \<Rightarrow> string result) \<Rightarrow> string \<Rightarrow> 'a list \<Rightarrow> string result" where
  "literal_format fmt s args = fmt_wrapper_call fmt (string_literal s) args"

text \<open>The formatter of the types that have a \<open>to_string\<close>; \<open>fmt_sv\<close> formats a string view.\<close>

definition to_string_formatter :: "('a \<Rightarrow> string result) \<Rightarrow> (string \<Rightarrow> string result) \<Rightarrow> 'a \<Rightarrow> string result" where
  "to_string_formatter to_str fmt_sv v = bind_result (to_str v) fmt_sv"

lemma string_literal_sv_exact [simp]: "string_literal_sv (string_literal s) = s"
  by (simp add: string_literal_sv_def string_literal_def c_literal_def)

section \<open>The order of the levels\<close>

fun level_num :: "level \<Rightarrow> nat" where
  "level_num trace = 0"
| "level_num debug = 1"
| "level_num info = 2"
| "level_num warn = 3"
| "level_num err = 4"
| "level_num critical = 5"
| "level_num off = 6"

lemma level_num_inject: "level_num a = level_num b \<Longrightarrow> a = b"
  by (cases a; cases b) simp_all

instantiation level :: linorder
begin

definition less_eq_level :: "level \<Rightarrow> level \<Rightarrow> bool" where
  "less_eq_level a b \<longleftrightarrow> level_num a \<le> level_num b"

definition less_level :: "level \<Rightarrow> level \<Rightarrow> bool" where
  "less_level a b \<longleftrightarrow> level_num a < level_num b"

instance
  by standard (auto simp: less_eq_level_def less_level_def dest: level_num_inject)

end

section \<open>Log calls\<close>

text \<open>spdlog passes a message on when its level is at least the logger's.\<close>

type_synonym log_lines = "(level \<times> string) list"

definition log_at :: "level \<Rightarrow> string \<Rightarrow> (Logger \<times> log_lines, unit) comp" where
  "log_at lv msg s =
     (case logger_ptr (fst s) of
        None \<Rightarrow> (Inl null_deref, s)
      | Some p \<Rightarrow> (Inr (), (fst s, if log_level p \<le> lv then snd s @ [(lv, msg)] else snd s)))"

definition log_trace :: "string \<Rightarrow> (Logger \<times> log_lines, unit) comp" where
  "log_trace = log_at trace"

definition log_debug :: "string \<Rightarrow> (Logger \<times> log_lines, unit) comp" where
  "log_debug = log_at debug"

definition log_info :: "string \<Rightarrow> (Logger \<times> log_lines, unit) comp" where
  "log_info = log_at info"

definition log_warn :: "string \<Rightarrow> (Logger \<times> log_lines, unit) comp" where
  "log_warn = log_at warn"

definition log_critical :: "string \<Rightarrow> (Logger \<times> log_lines, unit) comp" where
  "log_critical = log_at critical"

definition log_error :: "string \<Rightarrow> (Logger \<times> log_lines, unit) comp" where
  "log_error = log_at err"

text \<open>
  The overload with a format string: spdlog formats only what it passes on, and hands
  an exception of the formatting to its error handler: no line, no exception. An
  access outside the program's memory is no exception.
\<close>

definition log_fmt :: "level \<Rightarrow> string result \<Rightarrow> (Logger \<times> log_lines, unit) comp" where
  "log_fmt lv m s =
     (case logger_ptr (fst s) of
        None \<Rightarrow> (Inl null_deref, s)
      | Some p \<Rightarrow>
          (if log_level p \<le> lv
           then (case m of
                   Inr msg \<Rightarrow> log_at lv msg s
                 | Inl e \<Rightarrow> if catchable e then (Inr (), s) else (Inl e, s))
           else (Inr (), s)))"

section \<open>A run of a logger\<close>

datatype log_call = Log level string | Set_level string

fun log_step :: "log_call \<Rightarrow> (Logger \<times> log_lines, unit) comp" where
  "log_step (Log lv m) s = log_at lv m s"
| "log_step (Set_level n) s = (let (r, l) = set_level n (fst s) in (r, (l, snd s)))"

text \<open>A caller that survives a rejected level name.\<close>

fun log_run :: "log_call list \<Rightarrow> Logger \<times> log_lines \<Rightarrow> Logger \<times> log_lines" where
  "log_run [] s = s"
| "log_run (c # cs) s = log_run cs (snd (log_step c s))"

fun shown_lines :: "level \<Rightarrow> log_call list \<Rightarrow> log_lines" where
  "shown_lines v [] = []"
| "shown_lines v (Log lv m # cs) = (if v \<le> lv then [(lv, m)] else []) @ shown_lines v cs"
| "shown_lines v (Set_level n # cs) =
     shown_lines (case map_of level_names n of None \<Rightarrow> v | Some w \<Rightarrow> w) cs"

lemma log_run_lines:
  "snd (log_run cs (\<lparr>logger_ptr = Some p\<rparr>, out)) = out @ shown_lines (log_level p) cs"
proof (induction cs arbitrary: p out)
  case (Cons c cs)
  show ?case
  proof (cases c)
    case (Log lv m)
    then show ?thesis using Cons.IH by (simp add: log_at_def)
  next
    case (Set_level n)
    show ?thesis
    proof (cases "map_of level_names n")
      case None
      then show ?thesis
        using Set_level Cons.IH by (simp add: set_level_def translate_level_map_of)
    next
      case (Some v)
      then show ?thesis
        using Set_level Cons.IH by (simp add: set_level_def translate_level_map_of)
    qed
  qed
qed simp

section \<open>Properties\<close>

text \<open>
  What a run of the logger prints: starting from a logger at some level, exactly the
  messages whose level is at least the one last accepted by \<open>set_level\<close>, in order;
  a name that is refused changes nothing, and at level \<open>off\<close> nothing is printed.
\<close>

theorem log_lines_exact:
  "snd (log_run cs (\<lparr>logger_ptr = Some p\<rparr>, [])) = shown_lines (log_level p) cs \<and>
   shown_lines v (map (\<lambda>(lv, m). Log lv m) ms) = filter (\<lambda>(lv, m). v \<le> lv) ms \<and>
   (\<forall>lv. off \<le> lv \<longleftrightarrow> lv = off)"
proof -
  have "off \<le> lv \<longleftrightarrow> lv = off" for lv by (cases lv) (simp_all add: less_eq_level_def)
  moreover have "shown_lines v (map (\<lambda>(lv, m). Log lv m) ms) = filter (\<lambda>(lv, m). v \<le> lv) ms"
    by (induction ms) auto
  ultimately show ?thesis by (simp add: log_run_lines)
qed

text \<open>
  A \<open>""_format\<close> literal formats with exactly the text it spells, while a \<open>""_usp\<close>
  literal of the same text has one element more, its NUL.
\<close>

theorem format_literal_exact:
  "literal_format fmt s args = fmt s args \<and>
   length (usp s) = Suc (length (string_literal_sv (string_literal s)))"
  by (simp add: literal_format_def fmt_wrapper_call_def)

end
