(* ===== verification/Dns.thy ===== *)
theory Dns
  imports Stream Log_Calls
begin

text \<open>
  The DNS server (\<open>include/wshttp/dns.hpp\<close>, \<open>src/dns.cpp\<close>): the UDP socket it
  binds and the answers it gives. What libevent returns is the parameter \<open>dns_lib\<close>.
\<close>

section \<open>Requests and answers\<close>

record dns_question =
  q_name :: string
  q_type :: int
  q_class :: int

record dns_request =
  req_flags :: int
  req_questions :: "dns_question list"

text \<open>A call of \<open>evdns_server_request_add_a_reply\<close> or \<open>..._aaaa_reply\<close>: name, count, pointer, ttl.\<close>

datatype dns_reply =
    A_reply string int u64 int
  | AAAA_reply string int u64 int

datatype dns_end = Responded | Dropped

record dns_lib =
  add_reply :: "dns_reply \<Rightarrow> int"
  request_respond :: int
  udp_socket :: int
  udp_nonblocking :: int
  udp_bind_rc :: int
  add_server_port :: bool

section \<open>\<open>server\<close>\<close>

text \<open>
  \<open>main_lookup\<close> passes on the local pointer \<open>res\<close>, which nothing initialises: its
  value is the argument \<open>res\<close>.
\<close>

definition main_lookup :: "dns_lib \<Rightarrow> u64 \<Rightarrow> dns_question \<Rightarrow> dns_reply list \<Rightarrow> int \<times> dns_reply list" where
  "main_lookup lib res q sent =
     (let is_v6 = (q_type q = EVDNS_TYPE_AAAA);
          rep = (if is_v6 then AAAA_reply (q_name q) 1 res 10 else A_reply (q_name q) 1 res 10)
      in (add_reply lib rep, sent @ [rep]))"

text \<open>
  What the server prints about a request, read through the pointer libevent passed;
  \<open>sh\<close> is the conversion of an integer.
\<close>

abbreviation newline :: string where "newline \<equiv> [CHR 0x0A]"

fun question_lines :: "(int \<Rightarrow> string) \<Rightarrow> int \<Rightarrow> dns_question list \<Rightarrow> string" where
  "question_lines sh i [] = []"
| "question_lines sh i (q # qs) =
     ''Question #'' @ sh (i + 1) @ '':'' @ newline @ ''Name: '' @ q_name q @ '' -- Type: '' @
     translate_req_type (q_type q) @ '' -- Class: '' @ translate_dns_req_class (q_class q) @
     question_lines sh (i + 1) qs"

definition dns_req_message :: "(int \<Rightarrow> string) \<Rightarrow> dns_request \<Rightarrow> string" where
  "dns_req_message sh req =
     newline @ ''----- INCOMING REQUEST -----'' @ newline @ ''Flags: '' @ sh (req_flags req) @ newline @
     ''Num questions: '' @ sh (int (length (req_questions req))) @ newline @
     question_lines sh 0 (req_questions req)"

definition print_dns_req :: "(int \<Rightarrow> string) \<Rightarrow> dns_request option \<Rightarrow> (Logger \<times> log_lines, unit) comp" where
  "print_dns_req sh req =
     (case req of
        None \<Rightarrow> throwc null_deref
      | Some q \<Rightarrow> log_critical (dns_req_message sh q))"

text \<open>The loop of \<open>server_cb\<close>; \<open>r\<close> is overwritten by each reply.\<close>

fun answer_questions :: "dns_lib \<Rightarrow> u64 \<Rightarrow> dns_question list \<Rightarrow> int \<Rightarrow> dns_reply list \<Rightarrow>
    (Logger \<times> log_lines, int \<times> dns_reply list) comp" where
  "answer_questions lib res [] r sent = returnc (r, sent)"
| "answer_questions lib res (q # qs) r sent =
     (if q_type q = EVDNS_TYPE_A \<or> q_type q = EVDNS_TYPE_AAAA \<or> q_type q = EVDNS_TYPE_CNAME
      then (let (r', sent') = main_lookup lib res q sent in answer_questions lib res qs r' sent')
      else thenc (log_critical (''Server received invalid request type: '' @ translate_req_type (q_type q)))
             (answer_questions lib res qs r sent))"

text \<open>
  \<open>print_dns_req\<close> reads the request before \<open>server_cb\<close> tests it for null. The
  assertion of \<open>main_lookup\<close> is the one on the loop's thread, on which libevent makes
  the callback.
\<close>

definition server_cb :: "dns_lib \<Rightarrow> (int \<Rightarrow> string) \<Rightarrow> u64 \<Rightarrow> int \<Rightarrow> dns_request option \<Rightarrow>
    (Logger \<times> log_lines, dns_reply list \<times> dns_end) comp" where
  "server_cb lib sh res r0 req =
     thenc (print_dns_req sh req)
       (let questions = (case req of None \<Rightarrow> [] | Some q \<Rightarrow> req_questions q) in
        bindc (answer_questions lib res questions r0 []) (\<lambda>(r, sent).
          let r' = request_respond lib in
          if r' < 0
          then thenc (log_critical ''Server failed to respond to request... dropping like its hot'')
                 (returnc (sent, Dropped))
          else thenc (log_info ''Server successfully responded to request!'')
                 (returnc (sent, Responded))))"

text \<open>What \<open>evdns\<close> logs goes to the log, a warning as \<open>critical\<close>.\<close>

definition evdns_log_cb :: "int \<Rightarrow> string \<Rightarrow> (Logger \<times> log_lines, unit) comp" where
  "evdns_log_cb is_warning msg = (if is_warning \<noteq> 0 then log_critical msg else log_debug msg)"

record dns_server =
  udp_sock :: int
  udp_bound :: bool
  nameservers :: "string list"

text \<open>
  The constructor: what it asks of libevent. \<open>_udp_sock\<close> is left as it is, with some
  value \<open>g\<close>; \<open>make\<close> wraps the constructor.
\<close>

datatype evdns_call =
    Evdns_base_new_init_nameservers
  | Evdns_set_log_fn
  | Evdns_base_set_option string string

definition dns_server_new :: "int \<Rightarrow> dns_server \<times> evdns_call list" where
  "dns_server_new g =
     (\<lparr>udp_sock = g, udp_bound = False, nameservers = []\<rparr>,
      [Evdns_base_new_init_nameservers, Evdns_set_log_fn, Evdns_base_set_option ''randomize-case:'' ''0''])"

definition dns_server_make :: "int \<Rightarrow> dns_server \<times> evdns_call list" where
  "dns_server_make g = dns_server_new g"

definition DNS_PORT :: u16 where "DNS_PORT = 4400"

text \<open>\<open>initialize\<close>: the descriptor is kept in a plain integer that nothing closes on failure.\<close>

definition dns_initialize :: "dns_lib \<Rightarrow> dns_server \<Rightarrow> ('j, 'u, 'z) io_env_scheme \<Rightarrow>
    unit result \<times> dns_server \<times> ('j, 'u, 'z) io_env_scheme" where
  "dns_initialize lib s e =
     (let s1 = s\<lparr>udp_sock := udp_socket lib\<rparr> in
      if udp_sock s1 < 0 then (Inl (runtime_error ''UDP socket is fucked''), s1, e)
      else
        (let e1 = fd_open (udp_sock s1) e in
         if udp_nonblocking lib < 0 then (Inl (runtime_error ''Failed to non-block UDP socket''), s1, e1)
         else if udp_bind_rc lib < 0 then (Inl (runtime_error ''DNS server failed to bind UDP port''), s1, e1)
         else if \<not> add_server_port lib
         then (Inl (runtime_error ''DNS server failed to add UDP port''), s1\<lparr>udp_bound := False\<rparr>, e1)
         else (Inr (), s1\<lparr>udp_bound := True\<rparr>, e1)))"

definition register_nameserver :: "fmt_ops \<Rightarrow> u16 \<Rightarrow> dns_server \<Rightarrow> dns_server" where
  "register_nameserver fmt port s = s\<lparr>nameservers := nameservers s @ [localhost_ip fmt port]\<rparr>"

section \<open>Lemmas\<close>

definition answered :: "dns_question \<Rightarrow> bool" where
  "answered q \<longleftrightarrow> q_type q \<in> {EVDNS_TYPE_A, EVDNS_TYPE_AAAA, EVDNS_TYPE_CNAME}"

definition reply_to :: "u64 \<Rightarrow> dns_question \<Rightarrow> dns_reply" where
  "reply_to res q =
     (if q_type q = EVDNS_TYPE_AAAA then AAAA_reply (q_name q) 1 res 10 else A_reply (q_name q) 1 res 10)"

fun invalid_lines :: "dns_question list \<Rightarrow> string list" where
  "invalid_lines [] = []"
| "invalid_lines (q # qs) =
     (if answered q then invalid_lines qs
      else (''Server received invalid request type: '' @ translate_req_type (q_type q)) # invalid_lines qs)"

lemma log_at_Some [simp]:
  "log_at lv m (\<lparr>logger_ptr = Some p\<rparr>, out) =
     (Inr (), \<lparr>logger_ptr = Some p\<rparr>, if log_level p \<le> lv then out @ [(lv, m)] else out)"
  by (simp add: log_at_def)

lemma answer_questions_run:
  "\<exists>r'. answer_questions lib res qs r sent (\<lparr>logger_ptr = Some p\<rparr>, out) =
     (Inr (r', sent @ map (reply_to res) (filter answered qs)), \<lparr>logger_ptr = Some p\<rparr>,
      out @ (if log_level p \<le> critical then map (Pair critical) (invalid_lines qs) else []))"
proof (induction qs arbitrary: r sent out)
  case (Cons q qs)
  show ?case
  proof (cases "answered q")
    case True
    then show ?thesis
      using Cons.IH [of "fst (main_lookup lib res q sent)" "sent @ [reply_to res q]" out]
      by (auto simp: main_lookup_def answered_def reply_to_def Let_def)
  next
    case False
    then show ?thesis
      using Cons.IH [of r sent "out @ [(critical, ''Server received invalid request type: '' @ translate_req_type (q_type q))]"]
        Cons.IH [of r sent out]
      by (auto simp: answered_def thenc_def bindc_def log_critical_def)
  qed
qed (simp add: returnc_def)

section \<open>Properties\<close>

text \<open>
  The DNS server answers each A, AAAA and CNAME question of a request once, in
  order, and no other; a CNAME question gets an address record; every answer points to
  the same uninitialised pointer. Then the request is finished exactly once, dropped
  only when responding fails, whatever became of the answers. A null request is
  dereferenced before it is tested.
\<close>

theorem dns_answers:
  "server_cb lib sh res r (Some q) (\<lparr>logger_ptr = Some p\<rparr>, []) =
     (Inr (map (reply_to res) (filter answered (req_questions q)),
           if request_respond lib < 0 then Dropped else Responded),
      \<lparr>logger_ptr = Some p\<rparr>,
      filter (\<lambda>(lv, _). log_level p \<le> lv)
        ([(critical, dns_req_message sh q)] @ map (Pair critical) (invalid_lines (req_questions q)) @
         [if request_respond lib < 0
          then (critical, ''Server failed to respond to request... dropping like its hot'')
          else (info, ''Server successfully responded to request!'')])) \<and>
   fst (server_cb lib sh res r None s) = Inl null_deref"
proof -
  let ?out = "if log_level p \<le> critical then [(critical, dns_req_message sh q)] else []"
  obtain r' where run: "answer_questions lib res (req_questions q) r [] (\<lparr>logger_ptr = Some p\<rparr>, ?out) =
     (Inr (r', map (reply_to res) (filter answered (req_questions q))), \<lparr>logger_ptr = Some p\<rparr>,
      ?out @ (if log_level p \<le> critical then map (Pair critical) (invalid_lines (req_questions q)) else []))"
    using answer_questions_run [of lib res "req_questions q" r "[]" p ?out] by auto
  have f: "filter (\<lambda>(lv, _). log_level p \<le> lv) (map (Pair critical) ms) =
     (if log_level p \<le> critical then map (Pair critical) ms else [])" for ms :: "string list"
    by (induction ms) auto
  show ?thesis
    using run
    by (cases "log_level p \<le> critical"; cases "log_level p \<le> info"; cases "request_respond lib < 0")
      (simp_all add: server_cb_def print_dns_req_def thenc_def bindc_def throwc_def returnc_def
        log_critical_def log_info_def f)
qed

end
