(* ===== verification/Buffer_Printer.thy ===== *)
theory Buffer_Printer
  imports Utils
begin

text \<open>
  The hex dump of a buffer, \<open>buffer_printer::to_string\<close> of \<open>src/internal.hpp\<close>.
  The result is a \<open>std::string\<close>: its characters are bytes, and the three drawing
  characters are written as the UTF-8 sequences the source file holds. Offsets are
  natural numbers: a buffer whose size is within 31 of \<open>2 ^ 64\<close>, where
  \<open>i + 32\<close> would wrap, does not exist.
\<close>

definition utf8_bar :: string where
  "utf8_bar = [CHR 0xE2, CHR 0x94, CHR 0x83]"

definition utf8_empty_set :: string where
  "utf8_empty_set = [CHR 0xE2, CHR 0x88, CHR 0x85]"

definition utf8_middle_dot :: string where
  "utf8_middle_dot = [CHR 0xC2, CHR 0xB7]"

text \<open>\<open>std::to_integer<char>\<close>: \<open>char\<close> may be signed or not.\<close>

definition char_value :: "bool \<Rightarrow> byte \<Rightarrow> int" where
  "char_value char_signed b = (if char_signed then sint b else uint b)"

definition glyph :: "bool \<Rightarrow> byte \<Rightarrow> string" where
  "glyph char_signed b =
     (let c = char_value char_signed b in
      if c = 0 then utf8_empty_set
      else if c < 0x20 \<or> c > 0x7e then utf8_middle_dot
      else [char_of_byte b])"

definition hex_cell :: "fmt_ops \<Rightarrow> byte list \<Rightarrow> nat \<Rightarrow> nat \<Rightarrow> nat \<Rightarrow> string" where
  "hex_cell fmt b i stop j =
     (if j mod 4 = 0 then '' '' else []) @
     (if stop \<le> i + j then ''  '' else fmt_02x fmt (unat (b ! (i + j))))"

definition hex_column :: "fmt_ops \<Rightarrow> byte list \<Rightarrow> nat \<Rightarrow> string" where
  "hex_column fmt b i =
     (let stop = min (length b) (i + 32) in concat (map (hex_cell fmt b i stop) [0..<32]))"

definition text_column :: "bool \<Rightarrow> byte list \<Rightarrow> nat \<Rightarrow> string" where
  "text_column char_signed b i =
     (let stop = min (length b) (i + 32) in
      concat (map (\<lambda>j. glyph char_signed (b ! j)) [i..<stop]))"

definition dump_row :: "fmt_ops \<Rightarrow> bool \<Rightarrow> byte list \<Rightarrow> nat \<Rightarrow> string" where
  "dump_row fmt char_signed b i =
     [CHR 0x0A] @ fmt_04x fmt i @ '' '' @ hex_column fmt b i @
     ''  '' @ utf8_bar @ text_column char_signed b i @ utf8_bar"

text \<open>\<open>for (size_t i = 0; i < b.size(); i += 32)\<close>\<close>

function dump_rows :: "fmt_ops \<Rightarrow> bool \<Rightarrow> byte list \<Rightarrow> nat \<Rightarrow> string list" where
  "dump_rows fmt char_signed b i =
     (if i < length b then dump_row fmt char_signed b i # dump_rows fmt char_signed b (i + 32)
      else [])"
  by pat_completeness auto
termination
  by (relation "measure (\<lambda>(_, _, b, i). length b - i)") auto

declare dump_rows.simps [simp del]

definition buffer_to_string :: "fmt_ops \<Rightarrow> bool \<Rightarrow> byte list \<Rightarrow> string" where
  "buffer_to_string fmt char_signed b =
     ''Buffer['' @ fmt_d fmt (length b) @ ''/'' @ fmt_hash_x fmt (length b) @ '' bytes]:'' @
     concat (dump_rows fmt char_signed b 0)"

section \<open>Reading a dump back\<close>

text \<open>The two digits of column \<open>j\<close>: two per cell and a space before each group of four.\<close>

definition cell_pos :: "nat \<Rightarrow> nat" where
  "cell_pos j = 2 * j + j div 4 + 1"

definition read_row :: "(string \<Rightarrow> byte) \<Rightarrow> string \<Rightarrow> nat \<Rightarrow> byte list" where
  "read_row unhex col n = map (\<lambda>j. unhex (take 2 (drop (cell_pos j) col))) [0..<n]"

text \<open>A row starts with a newline, the offset and a space; a dump of \<open>n\<close> bytes has 32 per row.\<close>

definition read_dump :: "fmt_ops \<Rightarrow> (string \<Rightarrow> byte) \<Rightarrow> string list \<Rightarrow> nat \<Rightarrow> byte list" where
  "read_dump fmt unhex rows n =
     concat (map (\<lambda>k.
       read_row unhex (drop (length (fmt_04x fmt (32 * k)) + 2) (rows ! k)) (min 32 (n - 32 * k)))
       [0..<length rows])"

lemma length_cells:
  assumes "\<And>x. x < 256 \<Longrightarrow> length (fmt_02x fmt x) = 2"
  shows "length (concat (map (hex_cell fmt b i stop) [0..<j])) = 2 * j + (j + 3) div 4"
proof (induction j)
  case (Suc j)
  have "length (hex_cell fmt b i stop j) = 2 + (if j mod 4 = 0 then 1 else 0)"
    using assms [of "unat (b ! (i + j))"] unsigned_less [of "b ! (i + j)", where 'a = nat]
    by (simp add: hex_cell_def)
  moreover have "(Suc j + 3) div 4 = (j + 3) div 4 + (if j mod 4 = 0 then 1 else 0)"
    by presburger
  ultimately show ?case using Suc by simp
qed simp

lemma hex_column_cell:
  assumes two: "\<And>x. x < 256 \<Longrightarrow> length (fmt_02x fmt x) = 2"
    and j: "j < 32" "i + j < length b"
  shows "take 2 (drop (cell_pos j) (hex_column fmt b i)) = fmt_02x fmt (unat (b ! (i + j)))"
proof -
  define stop where "stop = min (length b) (i + 32)"
  let ?c = "hex_cell fmt b i stop"
  let ?pre = "concat (map ?c [0..<j])" and ?post = "concat (map ?c [Suc j..<32])"
  let ?sep = "if j mod 4 = 0 then '' '' else []"
  have "[0..<32] = [0..<j] @ j # [Suc j..<32]"
    using j(1) by (metis le_add1 less_imp_le_nat plus_nat.add_0 upt_add_eq_append
        upt_conv_Cons le_add_diff_inverse)
  moreover have "\<not> stop \<le> i + j"
    using j by (simp add: stop_def)
  ultimately have col: "hex_column fmt b i =
      (?pre @ ?sep) @ fmt_02x fmt (unat (b ! (i + j))) @ ?post"
    by (simp add: hex_column_def Let_def stop_def [symmetric] hex_cell_def [of _ _ _ _ j])
  have "j mod 4 = 0 \<longrightarrow> (j + 3) div 4 = j div 4"
    and "0 < j mod 4 \<longrightarrow> (j + 3) div 4 = Suc (j div 4)"
    by presburger+
  then have pos: "length (?pre @ ?sep) = cell_pos j"
    using length_cells [OF two, of b i stop j] by (simp add: cell_pos_def)
  have "length (fmt_02x fmt (unat (b ! (i + j)))) = 2"
    using two unsigned_less [of "b ! (i + j)", where 'a = nat] by simp
  then show ?thesis unfolding col pos [symmetric] by simp
qed

lemma length_hex_column:
  assumes "\<And>x. x < 256 \<Longrightarrow> length (fmt_02x fmt x) = 2"
  shows "length (hex_column fmt b i) = 72"
  using length_cells [OF assms, of b i "min (length b) (i + 32)" 32]
  by (simp add: hex_column_def Let_def)

lemma read_row_hex_column:
  assumes two: "\<And>x. x < 256 \<Longrightarrow> length (fmt_02x fmt x) = 2"
    and inv: "\<And>v. unhex (fmt_02x fmt (unat v)) = v"
    and "i \<le> length b"
  shows "read_row unhex (hex_column fmt b i @ rest) (min 32 (length b - i)) = take 32 (drop i b)"
proof -
  have "take 2 (drop (cell_pos j) (hex_column fmt b i @ rest)) = fmt_02x fmt (unat (b ! (i + j)))"
    if "j < 32" "i + j < length b" for j
  proof -
    have "j div 4 \<le> 7" using that(1) by simp
    then have "cell_pos j + 2 \<le> length (hex_column fmt b i)"
      using that(1) by (simp add: length_hex_column [OF two] cell_pos_def)
    then show ?thesis using hex_column_cell [OF two that] by simp
  qed
  then have cells: "map (\<lambda>j. unhex (take 2 (drop (cell_pos j) (hex_column fmt b i @ rest)))) [0..<m]
      = map (\<lambda>j. b ! (i + j)) [0..<m]" if "m = min 32 (length b - i)" for m
    using that by (auto simp: inv simp del: drop_append take_append)
  show ?thesis
    unfolding read_row_def cells [OF refl]
    using assms(3) by (auto intro!: nth_equalityI)
qed

lemma chunk_count:
  assumes "0 < (n::nat)"
  shows "(n + 31) div 32 = Suc ((n - 32 + 31) div 32)"
proof -
  from assms obtain m where n: "n = Suc m" by (cases n) auto
  have "(n + 31) div 32 = Suc (m div 32)" by (simp add: n)
  moreover have "(n - 32 + 31) div 32 = m div 32"
    by (cases "m < 31") (simp_all add: n)
  ultimately show ?thesis by simp
qed

lemma row_count:
  "length (dump_rows fmt sg b i) = (length b - i + 31) div 32"
proof (induction fmt sg b i rule: dump_rows.induct)
  case (1 fmt sg b i)
  show ?case
  proof (cases "i < length b")
    case True
    then have "(length b - i + 31) div 32 = Suc ((length b - (i + 32) + 31) div 32)"
      using chunk_count [of "length b - i"] by simp
    moreover have "length (dump_rows fmt sg b (i + 32)) = (length b - (i + 32) + 31) div 32"
      using True by (rule "1.IH")
    ultimately show ?thesis using True by (simp only: dump_rows.simps [of fmt sg b i]) simp
  qed (simp add: dump_rows.simps [of fmt sg b i])
qed

lemma row_nth:
  "k < length (dump_rows fmt sg b i) \<Longrightarrow>
     dump_rows fmt sg b i ! k = dump_row fmt sg b (i + 32 * k) \<and> i + 32 * k < length b"
proof (induction fmt sg b i arbitrary: k rule: dump_rows.induct)
  case (1 fmt sg b i)
  show ?case
  proof (cases "i < length b")
    case True
    then show ?thesis using 1
      by (cases k) (simp_all add: dump_rows.simps [of fmt sg b i] algebra_simps)
  qed (use "1.prems" in \<open>simp add: dump_rows.simps [of fmt sg b i]\<close>)
qed

lemma concat_chunks:
  "concat (map (\<lambda>k. take 32 (drop (32 * k) xs)) [0..<m]) = take (32 * m) xs"
  by (induction m) (simp_all add: take_add [symmetric] algebra_simps)

lemma sint_byte: "sint (b :: byte) = (uint b + 128) mod 256 - 128"
  by (simp add: sint_uint signed_take_bit_eq_take_bit_shift take_bit_eq_mod)

lemma high_half: "128 \<le> (x::int) \<Longrightarrow> x < 256 \<Longrightarrow> (x + 128) mod 256 = x - 128"
  using mod_pos_pos_trivial [of "x - 128" 256] mod_add_self2 [of "x - 128" "256::int"]
  by (simp add: algebra_simps)

lemma glyph_sign_irrelevant: "glyph True b = glyph False b"
proof (cases "uint b < 128")
  case True
  then have "sint b = uint b" by (simp add: sint_byte)
  then show ?thesis by (simp add: glyph_def char_value_def)
next
  case False
  then have "(uint b + 128) mod 256 = uint b - 128"
    using uint_lt2p [of b] high_half [of "uint b"] by simp
  then have "sint b = uint b - 256" by (simp add: sint_byte)
  then have "sint b < 0" and "uint b > 0x7e"
    using False uint_lt2p [of b] by simp_all
  then show ?thesis using False by (simp add: glyph_def char_value_def)
qed

lemma dump_row_drop:
  "drop (length (fmt_04x fmt i) + 2) (dump_row fmt sg b i) =
     hex_column fmt b i @ ''  '' @ utf8_bar @ text_column sg b i @ utf8_bar"
  by (simp add: dump_row_def)

text \<open>A concrete two-digit conversion, for the witness.\<close>

definition hex_digit :: "nat \<Rightarrow> char" where
  "hex_digit d = (if d < 10 then char_of (48 + d) else char_of (87 + d))"

definition hex_value :: "char \<Rightarrow> nat" where
  "hex_value c = (let n = of_char c in if n < 58 then n - 48 else n - 87)"

definition hex_fmt :: fmt_ops where
  "hex_fmt = \<lparr>fmt_d = (\<lambda>n. [hex_digit (n mod 10)]),
     fmt_02x = (\<lambda>n. [hex_digit (n div 16), hex_digit (n mod 16)]),
     fmt_04x = (\<lambda>n. [hex_digit (n div 4096 mod 16), hex_digit (n div 256 mod 16),
                      hex_digit (n div 16 mod 16), hex_digit (n mod 16)]),
     fmt_hash_x = (\<lambda>n. ''0x'' @ [hex_digit (n div 16 mod 16), hex_digit (n mod 16)])\<rparr>"

definition hex_byte :: "string \<Rightarrow> byte" where
  "hex_byte s = of_nat (16 * hex_value (s ! 0) + hex_value (s ! 1))"

lemma hex_value_digit: "d < 16 \<Longrightarrow> hex_value (hex_digit d) = d"
  by (auto simp: hex_value_def hex_digit_def)

lemma hex_byte_fmt: "hex_byte (fmt_02x hex_fmt (unat v)) = v"
proof -
  have "unat v < 256" using unsigned_less [of v, where 'a = nat] by simp
  then have "16 * hex_value (hex_digit (unat v div 16)) + hex_value (hex_digit (unat v mod 16)) = unat v"
    by (simp add: hex_value_digit)
  then show ?thesis by (simp add: hex_byte_def hex_fmt_def)
qed

section \<open>Properties\<close>

text \<open>
  C38. The hex dump loses nothing: when the two-digit conversion is two characters
  wide and can be read back, the bytes of the buffer are recovered, in order, from
  the hex columns of the rows that \<open>to_string\<close> appends to its header line.
\<close>

theorem hex_dump_lossless:
  assumes two: "\<And>x. x < 256 \<Longrightarrow> length (fmt_02x fmt x) = 2"
    and inv: "\<And>v. unhex (fmt_02x fmt (unat v)) = v"
  shows "\<exists>header. buffer_to_string fmt sg b = header @ concat (dump_rows fmt sg b 0) \<and>
           read_dump fmt unhex (dump_rows fmt sg b 0) (length b) = b"
proof -
  let ?rows = "dump_rows fmt sg b 0"
  let ?row = "\<lambda>k. read_row unhex (drop (length (fmt_04x fmt (32 * k)) + 2) (?rows ! k))
                    (min 32 (length b - 32 * k))"
  have "?row k = take 32 (drop (32 * k) b)" if "k < length ?rows" for k
    using row_nth [OF that] dump_row_drop
    by (simp add: read_row_hex_column [OF two inv] del: add_2_eq_Suc')
  then have "read_dump fmt unhex ?rows (length b) =
      concat (map (\<lambda>k. take 32 (drop (32 * k) b)) [0..<length ?rows])"
    unfolding read_dump_def by (intro arg_cong [where f = concat] map_cong) auto
  also have "\<dots> = take (32 * length ?rows) b" by (rule concat_chunks)
  also have "\<dots> = b" by (simp add: row_count)
  finally show ?thesis by (simp add: buffer_to_string_def)
qed

theorem hex_dump_lossless_witness:
  "\<exists>header. buffer_to_string hex_fmt True [0x48, 0x69, 0, 0xff] =
       header @ concat (dump_rows hex_fmt True [0x48, 0x69, 0, 0xff] 0) \<and>
     read_dump hex_fmt hex_byte (dump_rows hex_fmt True [0x48, 0x69, 0, 0xff] 0)
       (length [0x48, 0x69, 0, 0xff :: byte]) = [0x48, 0x69, 0, 0xff]"
  by (rule hex_dump_lossless) (simp add: hex_fmt_def, rule hex_byte_fmt)

text \<open>
  The text column shows a byte as itself exactly when it is printable ASCII,
  and never emits a control character or a stray high byte: NUL and every other
  byte get their own placeholder. Whether \<open>char\<close> is signed makes no difference.
\<close>

theorem glyph_printable:
  "glyph sg b =
     (if b = 0 then utf8_empty_set
      else if 0x20 \<le> b \<and> b \<le> 0x7e then [char_of_byte b] else utf8_middle_dot)"
proof -
  have "glyph sg b = glyph False b"
    by (cases sg) (simp_all add: glyph_sign_irrelevant)
  also have "\<dots> = (if b = 0 then utf8_empty_set
      else if 0x20 \<le> b \<and> b \<le> 0x7e then [char_of_byte b] else utf8_middle_dot)"
    by (auto simp: glyph_def char_value_def word_le_def uint_0_iff)
  finally show ?thesis .
qed

end
