(* ===== verification/Reports.thy ===== *)
theory Reports
  imports Dns Buffer_Printer Session
begin

text \<open>
  What the program prints of its own data: \<open>uri::print_contents\<close>
  (\<open>src/address.cpp\<close>), the url parser's \<open>url\<close>, \<open>href_sv\<close> and
  \<open>print_aggregates\<close> (\<open>src/parser.cpp\<close>), \<open>headers::print\<close> (\<open>src/request.cpp\<close>)
  and \<open>endpoint::test_parse_method\<close> (\<open>src/endpoint.cpp\<close>); with the accessors of a
  session (\<open>include/wshttp/session.hpp\<close>). A string is formatted as itself.
\<close>

type_synonym 'a printing = "(Logger \<times> log_lines, 'a) comp"

section \<open>Urls\<close>

definition print_contents :: "uri \<Rightarrow> unit printing" where
  "print_contents u =
     thenc (log_fmt info (Inr (''scheme:'' @ uri_get F_scheme u)))
     (thenc (log_fmt info (Inr (''userinfo:'' @ uri_get F_userinfo u)))
     (thenc (log_fmt info (Inr (''host:'' @ uri_get F_host u)))
     (thenc (log_fmt info (Inr (''port:'' @ uri_get F_port u)))
     (thenc (log_fmt info (Inr (''pathname:'' @ uri_get F_pathname u)))
     (thenc (log_fmt info (Inr (''query:'' @ uri_get F_query u)))
     (log_fmt info (Inr (''fragment:'' @ uri_get F_fragment u))))))))"

text \<open>
  \<open>url\<close> wraps the unchecked access in a handler for \<open>std::exception\<close>;
  \<open>what\<close> is the text of an exception.
\<close>

definition url :: "(exn \<Rightarrow> string) \<Rightarrow> 'u url_parser \<Rightarrow> 'u result" where
  "url what p =
     (case parser_url p of
        Inr u \<Rightarrow> Inr u
      | Inl e \<Rightarrow> Inl (if catchable e then runtime_error (''Bad access to url parser result: '' @ what e) else e))"

definition href_sv :: "'u ada_api \<Rightarrow> 'u url_parser \<Rightarrow> string result" where
  "href_sv ada p =
     (if parser_res p \<noteq> None then bind_result (parser_url p) (\<lambda>u. Inr (get_href ada u)) else Inr [])"

definition liftc :: "'a result \<Rightarrow> ('s, 'a) comp" where
  "liftc r s = (r, s)"

definition print_aggregates :: "'u ada_api \<Rightarrow> ('u \<Rightarrow> nat) \<Rightarrow> fmt_ops \<Rightarrow> 'u url_parser \<Rightarrow> unit printing" where
  "print_aggregates ada get_special_port fmt p =
     (if parser_res p = None then log_fmt critical (Inr ''Parser has no ada::parse result to reference!'')
      else bindc (liftc (parser_extract ada p)) (\<lambda>u.
        thenc (log_fmt critical (Inr (''scheme: '' @ uri_get F_scheme u)))
        (thenc (log_fmt critical (Inr (''userinfo: '' @ uri_get F_userinfo u)))
        (thenc (log_fmt critical (Inr (''host: '' @ uri_get F_host u)))
        (thenc (log_fmt critical (Inr (''port: '' @ uri_get F_port u)))
        (bindc (liftc (parser_url p)) (\<lambda>a.
         thenc (log_fmt critical (Inr (''special port: '' @ fmt_d fmt (get_special_port a))))
        (thenc (log_fmt critical (Inr (''path: '' @ uri_get F_pathname u)))
        (thenc (log_fmt critical (Inr (''query: '' @ uri_get F_query u)))
        (thenc (log_fmt critical (Inr (''fragment: '' @ uri_get F_fragment u)))
        (log_fmt critical (Inr (''href: '' @ uri_get F_href u)))))))))))))"

text \<open>The job of \<open>test_parse_method\<close>, on the loop's thread; the parser is the global one.\<close>

definition test_parse_job :: "'u ada_api \<Rightarrow> ('u \<Rightarrow> nat) \<Rightarrow> fmt_ops \<Rightarrow> string \<Rightarrow>
    'u url_parser \<times> Logger \<times> log_lines \<Rightarrow> unit result \<times> 'u url_parser \<times> Logger \<times> log_lines" where
  "test_parse_job ada get_special_port fmt input s =
     (let (ok, p) = parser_read ada (fst s) input;
          (r, l) = (if ok
                    then thenc (bindc (liftc (href_sv ada p)) (\<lambda>h.
                           log_fmt critical (Inr (''Parser successfully read input: '' @ h))))
                         (print_aggregates ada get_special_port fmt p) (snd s)
                    else (Inr (), snd s))
      in (r, p, l))"

section \<open>Headers\<close>

text \<open>
  A name is formatted by the \<open>to_string\<close> of its span, which reads the address its
  length spells; the formatting happens when the line is to be printed.
\<close>

definition header_line :: "(u64 \<Rightarrow> string option) \<Rightarrow> fmt_ops \<Rightarrow> bool \<Rightarrow> byte list \<times> byte list \<Rightarrow> string result" where
  "header_line c_string_at fmt char_signed nv =
     bind_result (to_string_formatter (span_to_string c_string_at) Inr (fst nv)) (\<lambda>n.
       Inr (''Type: '' @ n @ '', Value: '' @ buffer_to_string fmt char_signed (snd nv)))"

fun headers_print_from :: "(u64 \<Rightarrow> string option) \<Rightarrow> fmt_ops \<Rightarrow> bool \<Rightarrow> headers \<Rightarrow> nat list \<Rightarrow> unit printing" where
  "headers_print_from c_string_at fmt char_signed h [] = returnc ()"
| "headers_print_from c_string_at fmt char_signed h (i # is) =
     bindc (liftc (headers_at h (of_nat i))) (\<lambda>nv.
       thenc (log_fmt info (header_line c_string_at fmt char_signed nv))
         (headers_print_from c_string_at fmt char_signed h is))"

definition headers_print :: "(u64 \<Rightarrow> string option) \<Rightarrow> fmt_ops \<Rightarrow> bool \<Rightarrow> headers \<Rightarrow> unit printing" where
  "headers_print c_string_at fmt char_signed h =
     headers_print_from c_string_at fmt char_signed h [0..<length (hdrs h)]"

section \<open>Accessors of a session\<close>

definition sess_is_inbound :: "session \<Rightarrow> bool" where
  "sess_is_inbound s \<longleftrightarrow> \<not> sess_is_outbound s"

definition session_local :: "session \<Rightarrow> ip_address" where
  "session_local s = path_local (sess_path s)"

definition session_remote :: "session \<Rightarrow> ip_address" where
  "session_remote s = path_remote (sess_path s)"

section \<open>Properties\<close>

text \<open>The lines that pass a level.\<close>

definition at_level :: "level \<Rightarrow> level \<Rightarrow> string list \<Rightarrow> log_lines" where
  "at_level v lv ms = (if v \<le> lv then map (Pair lv) ms else [])"

lemma log_fmt_line [simp]:
  "log_fmt lv (Inr m) (\<lparr>logger_ptr = Some p\<rparr>, out) =
     (Inr (), \<lparr>logger_ptr = Some p\<rparr>, out @ at_level (log_level p) lv [m])"
  by (simp add: log_fmt_def at_level_def)

lemma at_level_append: "at_level v lv ms @ at_level v lv ms' = at_level v lv (ms @ ms')"
  by (simp add: at_level_def)

lemma print_contents_lines:
  "print_contents u (\<lparr>logger_ptr = Some p\<rparr>, out) =
     (Inr (), \<lparr>logger_ptr = Some p\<rparr>, out @ at_level (log_level p) info
        [''scheme:'' @ uri_get F_scheme u, ''userinfo:'' @ uri_get F_userinfo u,
         ''host:'' @ uri_get F_host u, ''port:'' @ uri_get F_port u,
         ''pathname:'' @ uri_get F_pathname u, ''query:'' @ uri_get F_query u,
         ''fragment:'' @ uri_get F_fragment u])"
  by (simp add: print_contents_def thenc_def bindc_def at_level_append)

lemma print_aggregates_lines:
  assumes "parser_res q = Some (Some a)"
  shows "print_aggregates ada spp fmt q (\<lparr>logger_ptr = Some p\<rparr>, out) =
     (Inr (), \<lparr>logger_ptr = Some p\<rparr>, out @ at_level (log_level p) critical
        [''scheme: '' @ get_protocol ada a, ''userinfo: '' @ get_username ada a,
         ''host: '' @ get_host ada a, ''port: '' @ get_port ada a,
         ''special port: '' @ fmt_d fmt (spp a), ''path: '' @ get_pathname ada a,
         ''query: '' @ get_search ada a, ''fragment: '' @ get_hash ada a, ''href: '' @ get_href ada a])"
  using assms
  by (simp add: print_aggregates_def thenc_def bindc_def liftc_def parser_url_def parser_extract_def
      uri_make_def uri_get_def at_level_append)

text \<open>
  The handler in \<open>url\<close> never runs: the access it guards throws nothing, so an
  empty parser is read through a null pointer as without the handler.
\<close>

theorem url_handler_idle: "url what p = parser_url p"
  by (auto simp: url_def parser_url_def split: sum.split option.split)

lemma url_empty_parser: "url what parser_new = Inl null_deref"
  by (simp add: url_def parser_new_def parser_url_def)

text \<open>
  \<open>test_parse_method\<close> always returns normally, whatever the parser held: a url that is
  accepted is reported with nine of its parts, one that is rejected leaves the log as
  it was and the parser empty.
\<close>

theorem test_parse_reports:
  "case test_parse_job ada spp fmt input (q, \<lparr>logger_ptr = Some p\<rparr>, out) of
     (r, q', l, out') \<Rightarrow>
       r = Inr () \<and> l = \<lparr>logger_ptr = Some p\<rparr> \<and>
       (case parser_res q' of
          Some (Some a) \<Rightarrow> out' = out @ at_level (log_level p) critical
             [''Parser successfully read input: '' @ get_href ada a,
              ''scheme: '' @ get_protocol ada a, ''userinfo: '' @ get_username ada a,
              ''host: '' @ get_host ada a, ''port: '' @ get_port ada a,
              ''special port: '' @ fmt_d fmt (spp a), ''path: '' @ get_pathname ada a,
              ''query: '' @ get_search ada a, ''fragment: '' @ get_hash ada a, ''href: '' @ get_href ada a]
        | _ \<Rightarrow> out' = out \<and> q' = parser_new)"
proof -
  obtain ok q' where r: "parser_read ada q input = (ok, q')" by (cases "parser_read ada q input")
  have some: "\<exists>a. parser_res q' = Some (Some a)" if ok
    using r that by (auto simp: parser_read_def parser_parse_def Let_def split: option.splits prod.splits if_splits)
  have none: "q' = parser_new" if "\<not> ok"
    using r that by (auto simp: parser_read_def parser_reset_def parser_new_def Let_def split: prod.splits if_splits)
  show ?thesis
  proof (cases ok)
    case True
    with some obtain a where a: "parser_res q' = Some (Some a)" by blast
    show ?thesis
      using r True a
      by (simp add: test_parse_job_def href_sv_def parser_url_def thenc_def bindc_def liftc_def
          print_aggregates_lines [OF a] at_level_append)
  next
    case False
    then show ?thesis using r none by (simp add: test_parse_job_def parser_new_def)
  qed
qed

text \<open>
  Printing a header list is safe only when nothing is printed: above level \<open>info\<close> it
  does nothing; at \<open>info\<close> or below, it reads the memory at the address that the
  length of the first name spells, which no program owns.
\<close>

theorem headers_print_reads_memory:
  "info < log_level p \<Longrightarrow> length (hdrs h) < 2 ^ 64 \<Longrightarrow>
     headers_print c_string_at fmt sg h (\<lparr>logger_ptr = Some p\<rparr>, out) = (Inr (), \<lparr>logger_ptr = Some p\<rparr>, out)"
  "log_level p \<le> info \<Longrightarrow> hdrs h = nv # nvs \<Longrightarrow> c_string_at (of_nat (length (nv_name nv))) = None \<Longrightarrow>
     headers_print c_string_at fmt sg h (\<lparr>logger_ptr = Some p\<rparr>, out) =
       (Inl use_after_free, \<lparr>logger_ptr = Some p\<rparr>, out)"
proof -
  assume lv: "info < log_level p" and len: "length (hdrs h) < 2 ^ 64"
  have "headers_print_from c_string_at fmt sg h is (\<lparr>logger_ptr = Some p\<rparr>, out) =
      (Inr (), \<lparr>logger_ptr = Some p\<rparr>, out)" if "set is \<subseteq> {..<length (hdrs h)}" for "is"
    using that
  proof (induction "is")
    case (Cons i js)
    moreover have "unat (of_nat i :: u64) = i" using Cons.prems len by (simp add: unat_of_nat)
    ultimately show ?case
      using lv by (simp add: bindc_def thenc_def liftc_def headers_at_def log_fmt_def not_le [symmetric])
  qed (simp add: returnc_def)
  then show "headers_print c_string_at fmt sg h (\<lparr>logger_ptr = Some p\<rparr>, out) =
      (Inr (), \<lparr>logger_ptr = Some p\<rparr>, out)"
    by (simp add: headers_print_def atLeast0LessThan)
next
  assume "log_level p \<le> info" and "hdrs h = nv # nvs"
    and "c_string_at (of_nat (length (nv_name nv))) = None"
  then show "headers_print c_string_at fmt sg h (\<lparr>logger_ptr = Some p\<rparr>, out) =
       (Inl use_after_free, \<lparr>logger_ptr = Some p\<rparr>, out)"
    by (simp add: headers_print_def upt_conv_Cons bindc_def thenc_def liftc_def headers_at_def log_fmt_def
        header_line_def to_string_formatter_def span_to_string_def del: upt_Suc)
qed

end
