(* ===== verification/Replies.thy ===== *)
theory Replies
  imports System_Props
begin

text \<open>
  Requests from end to end: the events nghttp2 reports of an inbound session, through
  the hooks (\<open>Session_Hooks\<close>) and the streams (\<open>Stream\<close>), to the replies that are
  submitted and the descriptors they hold, as a refinement of a server that only knows
  which streams are open.
\<close>

section \<open>The code's side\<close>

text \<open>The system may answer differently at every event, so each comes with its own library.\<close>

fun serve :: "tid \<Rightarrow> (('u, 'z) session_lib \<times> event) list \<Rightarrow> ('u, 'z, int list) sop" where
  "serve t [] = returnc []"
| "serve t ((lib, ev) # evs) =
     bindc (on_event (inbound_hooks lib t) ev) (\<lambda>rv. bindc (serve t evs) (\<lambda>rvs. returnc (rv # rvs)))"

section \<open>The abstract server\<close>

record server =
  sv_open :: "u32 \<rightharpoonup> int"          \<comment> \<open>the open streams and their ids\<close>
  sv_calls :: "lib_call list"      \<comment> \<open>what nghttp2 was asked for\<close>
  sv_fds :: "int set"              \<comment> \<open>open descriptors\<close>
  sv_replied :: "(int \<times> CODE \<times> int) list"  \<comment> \<open>replies submitted: stream, status, data source\<close>

text \<open>The calls of one reply, the one that fails included.\<close>

definition reply_calls :: "bool \<Rightarrow> u64 \<times> u64 \<Rightarrow> stream_lib \<Rightarrow> string \<Rightarrow> int \<Rightarrow> lib_call list" where
  "reply_calls be html lib file i =
     (if sys_open lib file \<noteq> - 1 then [Submit_response i (make_status code_200) (sys_open lib file)]
      else case sys_pipe lib of
        None \<Rightarrow> [Submit_rst_stream i NGHTTP2_INTERNAL_ERROR]
      | Some (p0, p1) \<Rightarrow>
          (if sys_write lib (error_body be html) \<noteq> int errlen then []
           else [Submit_response i (make_status code_404) p0]))"

text \<open>
  A complete request on an open stream is answered with the file of the empty name;
  a reply that is submitted keeps its descriptor.
\<close>

definition answer_spec :: "('u, 'z) session_lib \<Rightarrow> int \<Rightarrow> server \<Rightarrow> int \<times> server" where
  "answer_spec lib i a =
     (let out = reply_spec (sl_big_endian lib) (sl_html lib) (sl_stream lib) [];
          a1 = a\<lparr>sv_calls := sv_calls a @ reply_calls (sl_big_endian lib) (sl_html lib) (sl_stream lib) [] i\<rparr>
      in case out of
           Replied c fd \<Rightarrow> (0, a1\<lparr>sv_fds := insert fd (sv_fds a), sv_replied := sv_replied a @ [(i, c, fd)]\<rparr>)
         | Reset \<Rightarrow> (0, a1)
         | Failed \<Rightarrow> (NGHTTP2_ERR_FATAL, a1))"

fun server_spec :: "('u, 'z) session_lib \<Rightarrow> event \<Rightarrow> server \<Rightarrow> int \<times> server" where
  "server_spec lib (Ev_begin_headers f) a =
     (let k = stream_key (hd_stream_id f) in
      (0, if is_headers f NGHTTP2_HCAT_REQUEST \<and> k \<notin> dom (sv_open a)
          then a\<lparr>sv_open := (sv_open a)(k \<mapsto> hd_stream_id f)\<rparr> else a))"
| "server_spec lib (Ev_header f n v) a = (0, a)"
| "server_spec lib (Ev_frame f) a =
     (if \<not> ends_request f then (0, a)
      else case sv_open a (stream_key (hd_stream_id f)) of
             None \<Rightarrow> (NGHTTP2_ERR_CALLBACK_FAILURE, a)
           | Some i \<Rightarrow> answer_spec lib i a)"
| "server_spec lib (Ev_close i ec) a = (0, a\<lparr>sv_open := (sv_open a)(stream_key i := None)\<rparr>)"

fun server_run :: "(('u, 'z) session_lib \<times> event) list \<Rightarrow> server \<Rightarrow> int list \<times> server" where
  "server_run [] a = ([], a)"
| "server_run ((lib, ev) # evs) a =
     (let (rv, a1) = server_spec lib ev a; (rvs, a2) = server_run evs a1 in (rv # rvs, a2))"

text \<open>At every event the system hands out descriptors that are not open, and proper ones.\<close>

definition proper_fds :: "stream_lib \<Rightarrow> int set \<Rightarrow> bool" where
  "proper_fds lib F \<longleftrightarrow> fresh_fds lib F \<and> (\<forall>p0 p1. sys_pipe lib = Some (p0, p1) \<longrightarrow> p0 \<noteq> - 1 \<and> p1 \<noteq> - 1)"

fun honest :: "(('u, 'z) session_lib \<times> event) list \<Rightarrow> server \<Rightarrow> bool" where
  "honest [] a = True"
| "honest ((lib, ev) # evs) a =
     (proper_fds (sl_stream lib) (sv_fds a) \<and> wire_event ev \<and> honest evs (snd (server_spec lib ev a)))"

section \<open>The refinement\<close>

text \<open>What the abstract server sees of a session; the replies so far are its own.\<close>

definition server_of :: "(int \<times> CODE \<times> int) list \<Rightarrow> session \<times> ('u, 'z) env \<Rightarrow> server" where
  "server_of rs se =
     \<lparr>sv_open = (\<lambda>k. map_option stream_id (sess_streams (fst se) k)), sv_calls = lib_calls (snd se),
      sv_fds = open_fds (snd se), sv_replied = rs\<rparr>"

lemma server_of_simps [simp]:
  "sv_open (server_of rs se) k = map_option stream_id (sess_streams (fst se) k)"
  "sv_calls (server_of rs se) = lib_calls (snd se)" "sv_fds (server_of rs se) = open_fds (snd se)"
  "sv_replied (server_of rs se) = rs"
  by (simp_all add: server_of_def)

definition serving :: "tid \<Rightarrow> session \<times> ('u, 'z) env \<Rightarrow> bool" where
  "serving t se \<longleftrightarrow> unpathed_inv t se \<and> - 1 \<notin> open_fds (snd se)"

lemma recv_frame_answers:
  assumes "proper_fds lib (open_fds e)" and "- 1 \<notin> open_fds e" and "requested_file st = []"
    and "recv_frame be html lib st e = (rv, st', e')"
  shows "lib_calls e' = lib_calls e @ reply_calls be html lib [] (stream_id st) \<and> - 1 \<notin> open_fds e' \<and>
         (case reply_spec be html lib [] of
            Replied c fd \<Rightarrow> rv = 0 \<and> open_fds e' = insert fd (open_fds e) \<and> fd \<notin> open_fds e
          | Reset \<Rightarrow> rv = 0 \<and> open_fds e' = open_fds e
          | Failed \<Rightarrow> rv = NGHTTP2_ERR_FATAL \<and> open_fds e' = open_fds e)"
  using assms
  by (auto simp: reply_spec_def reply_calls_def recv_frame_eq send_error_eq fresh_fds_def proper_fds_def Let_def
      split: option.splits if_splits)

text \<open>One lemma per kind of event: what the hook returns, and the state it leaves.\<close>

lemma serving_parts:
  assumes "serving t se"
  shows "in_event_loop t (snd se)" "wf_session (fst se)" "unpathed (fst se)" "- 1 \<notin> open_fds (snd se)"
  using assms by (simp_all add: serving_def unpathed_inv_def inbound_inv_def)

lemma servingI:
  "in_event_loop t e \<Longrightarrow> wf_session s \<Longrightarrow> unpathed s \<Longrightarrow> - 1 \<notin> open_fds e \<Longrightarrow> serving t (s, e)"
  by (simp add: serving_def unpathed_inv_def inbound_inv_def)

definition simulates :: "tid \<Rightarrow> ('u, 'z) session_lib \<Rightarrow> event \<Rightarrow> (int \<times> CODE \<times> int) list \<Rightarrow>
    session \<times> ('u, 'z) env \<Rightarrow> bool" where
  "simulates t lib ev rs se \<longleftrightarrow>
     (\<exists>se' rs'. on_event (inbound_hooks lib t) ev se = (Inr (fst (server_spec lib ev (server_of rs se))), se') \<and>
        snd (server_spec lib ev (server_of rs se)) = server_of rs' se' \<and> serving t se')"

lemma simulates_begin:
  assumes "serving t se"
  shows "simulates t lib (Ev_begin_headers f) rs se"
proof -
  obtain s e where se: "se = (s, e)" by fastforce
  let ?k = "stream_key (hd_stream_id f)"
  let ?s = "s\<lparr>sess_streams := (sess_streams s)(?k \<mapsto> make_stream (hd_stream_id f)),
               sess_user_data := (sess_user_data s)(hd_stream_id f \<mapsto> ?k)\<rparr>"
  note p = serving_parts [OF assms, unfolded se, simplified]
  show ?thesis
  proof (cases "is_headers f NGHTTP2_HCAT_REQUEST \<and> sess_streams s ?k = None")
    case True
    then have "on_event (inbound_hooks lib t) (Ev_begin_headers f) se = (Inr 0, ?s, e)"
      using p(1) by (simp add: se inbound_hooks_def inbound_begin_headers_hook_def thenc_def bindc_def
          this_session_def upd_session_def Let_def returnc_def)
    moreover have "serving t (?s, e)"
      using p by (intro servingI) (simp_all add: wf_session_def unpathed_def make_stream_def stream_new_def)
    moreover have "snd (server_spec lib (Ev_begin_headers f) (server_of rs se)) = server_of rs (?s, e)"
      using True by (simp add: se server_of_def Let_def domIff make_stream_def stream_new_def fun_eq_iff)
    ultimately show ?thesis by (simp add: simulates_def Let_def) blast
  next
    case False
    then have "on_event (inbound_hooks lib t) (Ev_begin_headers f) se = (Inr 0, se)"
      using p(1) by (auto simp: se inbound_hooks_def inbound_begin_headers_hook_def bindc_def
          this_session_def Let_def returnc_def)
    moreover have "snd (server_spec lib (Ev_begin_headers f) (server_of rs se)) = server_of rs se"
      using False by (auto simp: se Let_def domIff)
    ultimately show ?thesis using assms by (simp add: simulates_def Let_def) blast
  qed
qed

lemma simulates_header:
  assumes "serving t se" and "0 \<notin> set n"
  shows "simulates t lib (Ev_header f n v) rs se"
proof -
  have "inbound_recv_header_hook lib t f n v se = (Inr 0, se)"
    using serving_parts(1) [OF assms(1)] path_literal_has_nul [OF assms(2)]
    unfolding inbound_recv_header_hook_def by (auto simp: returnc_def)
  then show ?thesis using assms(1) by (simp add: simulates_def inbound_hooks_def) blast
qed

lemma simulates_frame:
  assumes "serving t se" and "proper_fds (sl_stream lib) (open_fds (snd se))"
  shows "simulates t lib (Ev_frame f) rs se"
proof (cases "ends_request f")
  case False
  then have "inbound_frame_recv_hook lib t f se = (Inr 0, se)"
    using serving_parts(1) [OF assms(1)]
    unfolding inbound_frame_recv_hook_def ends_request_def by (auto simp: returnc_def)
  then show ?thesis using assms(1) False by (simp add: simulates_def inbound_hooks_def) blast
next
  case True
  obtain s e where se: "se = (s, e)" by fastforce
  let ?k = "stream_key (hd_stream_id f)"
  note p = serving_parts [OF assms(1), unfolded se, simplified]
  show ?thesis
  proof (cases "sess_streams s ?k")
    case None
    then have "inbound_frame_recv_hook lib t f se = (Inr NGHTTP2_ERR_CALLBACK_FAILURE, se)"
      using True p(1) by (simp add: se inbound_frame_recv_hook_def ends_request_def on_stream_def returnc_def)
    then show ?thesis using assms(1) True None by (simp add: simulates_def inbound_hooks_def se) blast
  next
    case (Some st)
    obtain rv st' e' where r: "recv_frame (sl_big_endian lib) (sl_html lib) (sl_stream lib) st e = (rv, st', e')"
      by (metis surj_pair)
    let ?s = "s\<lparr>sess_streams := (sess_streams s)(?k \<mapsto> st')\<rparr>"
    have st: "stream_req st = uri_default" "stream_dir st = INBOUND" "stream_key (stream_id st) = ?k"
      using p(2,3) Some by (simp_all add: unpathed_def wf_session_def)
    then have "requested_file st = []" by (simp add: requested_file_def c_str_def)
    note a = recv_frame_answers [OF assms(2) [unfolded se, simplified] p(4) this r]
    note k = recv_frame_keeps [OF r]
    have h: "inbound_frame_recv_hook lib t f se = (Inr rv, ?s, e')"
      using True p(1) Some r
      by (simp add: se inbound_frame_recv_hook_def ends_request_def on_stream_def total_op_def)
    have v: "serving t (?s, e')"
      using p k st a by (intro servingI) (auto simp: in_event_loop_def unpathed_def intro!: wf_session_upd)
    have o: "sv_open (server_of rs' (?s, e')) = sv_open (server_of rs (s, e))" for rs'
      using Some k by (auto simp: fun_eq_iff)
    let ?out = "reply_spec (sl_big_endian lib) (sl_html lib) (sl_stream lib) []"
    let ?rs = "case ?out of Replied c fd \<Rightarrow> rs @ [(stream_id st, c, fd)] | _ \<Rightarrow> rs"
    have "server_spec lib (Ev_frame f) (server_of rs se) = answer_spec lib (stream_id st) (server_of rs se)"
      using True Some by (simp add: se)
    moreover have "answer_spec lib (stream_id st) (server_of rs se) = (rv, server_of ?rs (?s, e'))"
      using a o [of ?rs] by (cases ?out) (simp_all add: answer_spec_def server_of_def se)
    ultimately show ?thesis using h v by (simp add: simulates_def inbound_hooks_def) blast
  qed
qed

lemma simulates_close:
  assumes "serving t se"
  shows "simulates t lib (Ev_close i ec) rs se"
proof -
  obtain s e where se: "se = (s, e)" by fastforce
  note p = serving_parts [OF assms, unfolded se, simplified]
  show ?thesis
  proof (cases "sess_streams s (stream_key i)")
    case None
    then have "on_event (inbound_hooks lib t) (Ev_close i ec) se = (Inr 0, se)"
      using p(1) by (simp add: se inbound_hooks_def inbound_stream_close_hook_def bindc_def erase_stream_def returnc_def)
    moreover have "snd (server_spec lib (Ev_close i ec) (server_of rs se)) = server_of rs se"
      using None by (simp add: se server_of_def fun_eq_iff)
    ultimately show ?thesis using assms by (simp add: simulates_def) blast
  next
    case (Some st)
    let ?s = "s\<lparr>sess_streams := (sess_streams s)(stream_key i := None)\<rparr>"
    have "stream_d st e = e" using p(4) by (cases e) (simp add: stream_d_def fd_close_def)
    then have "on_event (inbound_hooks lib t) (Ev_close i ec) se = (Inr 0, ?s, e)"
      using Some p(1)
      by (simp add: se inbound_hooks_def inbound_stream_close_hook_def bindc_def erase_stream_def returnc_def)
    moreover have "serving t (?s, e)"
      using p by (intro servingI) (simp_all add: wf_session_def unpathed_def)
    moreover have "snd (server_spec lib (Ev_close i ec) (server_of rs se)) = server_of rs (?s, e)"
      by (simp add: se server_of_def fun_eq_iff)
    ultimately show ?thesis by (simp add: simulates_def) blast
  qed
qed

lemma simulates_event:
  assumes "serving t se" and "proper_fds (sl_stream lib) (open_fds (snd se))" and "wire_event ev"
  shows "simulates t lib ev rs se"
  using assms by (cases ev) (simp_all add: simulates_begin simulates_header simulates_frame simulates_close)

lemma server_run_Cons:
  "server_run ((lib, ev) # evs) a =
     (fst (server_spec lib ev a) # fst (server_run evs (snd (server_spec lib ev a))),
      snd (server_run evs (snd (server_spec lib ev a))))"
  by (simp add: case_prod_beta)

lemma serve_refines:
  assumes "serving t se" and "honest evs (server_of rs se)"
  shows "\<exists>se' rs'. serve t evs se = (Inr (fst (server_run evs (server_of rs se))), se') \<and>
           snd (server_run evs (server_of rs se)) = server_of rs' se' \<and> serving t se'"
  using assms
proof (induction evs arbitrary: rs se)
  case Nil
  then show ?case by (auto simp: returnc_def)
next
  case (Cons a evs)
  obtain lib ev where a: "a = (lib, ev)" by fastforce
  have h: "proper_fds (sl_stream lib) (open_fds (snd se))" "wire_event ev"
    "honest evs (snd (server_spec lib ev (server_of rs se)))"
    using Cons.prems(2) a by simp_all
  obtain se1 rs1 where 1: "on_event (inbound_hooks lib t) ev se =
      (Inr (fst (server_spec lib ev (server_of rs se))), se1)"
      "snd (server_spec lib ev (server_of rs se)) = server_of rs1 se1" "serving t se1"
    using simulates_event [OF Cons.prems(1) h(1,2), of rs] unfolding simulates_def by blast
  obtain se2 rs2 where 2: "serve t evs se1 = (Inr (fst (server_run evs (server_of rs1 se1))), se2)"
      "snd (server_run evs (server_of rs1 se1)) = server_of rs2 se2" "serving t se2"
    using Cons.IH [OF 1(3), of rs1] h(3) 1(2) by auto
  have "serve t (a # evs) se = (Inr (fst (server_run (a # evs) (server_of rs se))), se2)"
    unfolding a server_run_Cons using 1 2 by (simp add: bindc_def returnc_def)
  moreover have "snd (server_run (a # evs) (server_of rs se)) = server_of rs2 se2"
    unfolding a server_run_Cons using 1 2 by simp
  ultimately show ?case using 2(3) by blast
qed

section \<open>The descriptors\<close>

text \<open>What an abstract run adds: each reply takes a descriptor that was not open, and keeps it.\<close>

abbreviation reply_fds :: "(int \<times> CODE \<times> int) list \<Rightarrow> int list" where
  "reply_fds rs \<equiv> map (\<lambda>(_, _, fd). fd) rs"

definition keeps_fds :: "server \<Rightarrow> server \<Rightarrow> bool" where
  "keeps_fds a a' \<longleftrightarrow>
     (\<exists>rs. sv_replied a' = sv_replied a @ rs \<and> sv_fds a' = sv_fds a \<union> set (reply_fds rs) \<and>
        distinct (reply_fds rs) \<and> sv_fds a \<inter> set (reply_fds rs) = {})"

lemma keeps_fds_same: "sv_replied a' = sv_replied a \<Longrightarrow> sv_fds a' = sv_fds a \<Longrightarrow> keeps_fds a a'"
  by (simp add: keeps_fds_def)

lemma keeps_fds_trans: "keeps_fds a b \<Longrightarrow> keeps_fds b c \<Longrightarrow> keeps_fds a c"
proof -
  assume "keeps_fds a b" and "keeps_fds b c"
  then obtain rs rs' where "sv_replied b = sv_replied a @ rs" "sv_fds b = sv_fds a \<union> set (reply_fds rs)"
    "distinct (reply_fds rs)" "sv_fds a \<inter> set (reply_fds rs) = {}"
    "sv_replied c = sv_replied b @ rs'" "sv_fds c = sv_fds b \<union> set (reply_fds rs')"
    "distinct (reply_fds rs')" "sv_fds b \<inter> set (reply_fds rs') = {}"
    unfolding keeps_fds_def by blast
  then show ?thesis
    unfolding keeps_fds_def
    by (intro exI [of _ "rs @ rs'"]) (simp only: map_append set_append distinct_append append_assoc Un_assoc; blast)
qed

lemma answer_keeps:
  assumes "fresh_fds (sl_stream lib) (sv_fds a)"
  shows "keeps_fds a (snd (answer_spec lib i a))"
proof (cases "reply_spec (sl_big_endian lib) (sl_html lib) (sl_stream lib) []")
  case (Replied c fd)
  then have "fd \<notin> sv_fds a"
    using assms by (auto simp: reply_spec_def fresh_fds_def split: if_splits option.splits)
  then show ?thesis
    using Replied by (simp add: answer_spec_def keeps_fds_def Let_def exI [of _ "[(i, c, fd)]"])
qed (simp_all add: answer_spec_def keeps_fds_same Let_def)

lemma server_keeps:
  "fresh_fds (sl_stream lib) (sv_fds a) \<Longrightarrow> keeps_fds a (snd (server_spec lib ev a))"
  by (cases ev) (simp_all add: keeps_fds_same answer_keeps Let_def split: option.split)

lemma server_run_keeps: "honest evs a \<Longrightarrow> keeps_fds a (snd (server_run evs a))"
proof (induction evs a rule: server_run.induct)
  case (2 lib ev evs a)
  then have "keeps_fds a (snd (server_spec lib ev a))"
    by (simp add: server_keeps proper_fds_def)
  moreover have "keeps_fds (snd (server_spec lib ev a)) (snd (server_run evs (snd (server_spec lib ev a))))"
    using 2 by (cases "server_spec lib ev a") simp
  ultimately have "keeps_fds a (snd (server_run evs (snd (server_spec lib ev a))))" by (rule keeps_fds_trans)
  then show ?case unfolding server_run_Cons by simp
qed (simp add: keeps_fds_same)

section \<open>Properties\<close>

text \<open>
  C5. Requests, end to end. Take any inbound session of any state the program reaches and
  any events its peer can cause: the hooks never throw and return what the abstract
  server returns, and nghttp2 is asked for exactly the abstract server's replies, one per
  completed request on an open stream and nothing else. Every reply that is submitted
  holds a descriptor of its own, and every one of them is still open at the end, whatever
  streams were closed: the open descriptors grow by one for each reply.
\<close>

theorem requests_end_to_end:
  assumes "endpoint_make ssl creds t c prs fds = (Inr w0, c')" and "(sys_step t)\<^sup>*\<^sup>* w0 w"
    and "inbounds w sid = Some (s, lid)" and "- 1 \<notin> open_fds w" and "finite (open_fds w)"
    and "honest evs (server_of [] (s, w))" and "server_run evs (server_of [] (s, w)) = (rvs, a)"
  shows "\<exists>s' w'. serve t evs (s, w) = (Inr rvs, s', w') \<and> lib_calls w' = sv_calls a \<and>
           map_option stream_id \<circ> sess_streams s' = sv_open a \<and>
           open_fds w' = open_fds w \<union> set (reply_fds (sv_replied a)) \<and>
           card (open_fds w') = card (open_fds w) + length (sv_replied a)"
proof -
  have i: "sys_inv t w" using sys_reachable [OF assms(2) sys_init [OF assms(1)]] .
  then have "in_event_loop t w" "wf_session s" "unpathed s"
    using inbound_okD [of w sid s lid] assms(3) by (simp_all add: sys_inv_def streams_ok_def)
  then have "serving t (s, w)" using assms(4) by (simp add: servingI)
  from serve_refines [OF this assms(6)] obtain se' rs where
    r: "serve t evs (s, w) = (Inr rvs, se')" "a = server_of rs se'"
    using assms(7) by auto
  have "keeps_fds (server_of [] (s, w)) a" using server_run_keeps [OF assms(6)] assms(7) by simp
  then have f: "open_fds (snd se') = open_fds w \<union> set (reply_fds rs)" "distinct (reply_fds rs)"
    "open_fds w \<inter> set (reply_fds rs) = {}"
    unfolding r(2) keeps_fds_def by auto
  have "card (open_fds (snd se')) = card (open_fds w) + card (set (reply_fds rs))"
    unfolding f(1) using assms(5) f(3) by (intro card_Un_disjoint) simp_all
  also have "card (set (reply_fds rs)) = length rs" using distinct_card [OF f(2)] by simp
  finally have "card (open_fds (snd se')) = card (open_fds w) + length rs" .
  moreover have "map_option stream_id \<circ> sess_streams (fst se') = sv_open a"
    unfolding r(2) by (simp add: server_of_def fun_eq_iff)
  ultimately show ?thesis using r f(1) by (intro exI [of _ "fst se'"] exI [of _ "snd se'"]) simp
qed

definition two_requests :: "((string \<times> string, unit world_ext) session_lib \<times> event) list" where
  "two_requests =
     (let frm = (\<lambda>i. toy_frame\<lparr>hd_stream_id := i\<rparr>);
          lib = (\<lambda>p. (toy_session_lib [])\<lparr>sl_stream := toy_lib\<lparr>sys_pipe := Some (p, p + 1)\<rparr>\<rparr>)
      in [(lib 8, Ev_begin_headers (frm 1)), (lib 8, Ev_frame (frm 1)), (lib 9, Ev_close 1 0),
          (lib 10, Ev_begin_headers (frm 3)), (lib 10, Ev_frame (frm 3)), (lib 12, Ev_close 3 0)])"

theorem requests_end_to_end_witness:
  "\<exists>s s' w'. inbounds demo1 1 = Some (s, 0) \<and> serve 7 two_requests (s, demo1) = (Inr [0, 0, 0, 0, 0, 0], s', w') \<and>
     lib_calls w' = lib_calls demo1 @
       [Submit_response 1 (make_status code_404) 8, Submit_response 3 (make_status code_404) 10] \<and>
     sess_streams s' = Map.empty \<and> open_fds demo1 = {3} \<and> open_fds w' = {3, 8, 10}"
proof -
  obtain s where s: "inbounds demo1 1 = Some (s, 0)" "sess_streams s = Map.empty" using demo1(2) by blast
  let ?a = "server_of [] (s, demo1)"
  note d = two_requests_def Let_def toy_session_lib_def toy_lib_def toy_frame_def is_headers_def ends_request_def
    const_defs stream_key_def answer_spec_def reply_spec_def reply_calls_def errlen_def s(2) demo1(6)
  have run: "server_run two_requests ?a = ([0, 0, 0, 0, 0, 0],
     \<lparr>sv_open = Map.empty, sv_calls = lib_calls demo1 @
        [Submit_response 1 (make_status code_404) 8, Submit_response 3 (make_status code_404) 10],
      sv_fds = {3, 8, 10}, sv_replied = [(1, code_404, 8), (3, code_404, 10)]\<rparr>)"
    by (auto simp: d server_of_def error_body_def HTML_object_def)
  have ok: "honest two_requests ?a"
    by (simp add: d server_of_def proper_fds_def fresh_fds_def)
  have F: "- 1 \<notin> open_fds demo1" "finite (open_fds demo1)" using demo1(6) by simp_all
  obtain s' w' where r: "serve 7 two_requests (s, demo1) = (Inr [0, 0, 0, 0, 0, 0], s', w')"
    "lib_calls w' = lib_calls demo1 @
       [Submit_response 1 (make_status code_404) 8, Submit_response 3 (make_status code_404) 10]"
    "map_option stream_id \<circ> sess_streams s' = Map.empty" "open_fds w' = {3} \<union> {8, 10}"
    using requests_end_to_end [OF demo0 demo1(1) s(1) F ok run] demo1(6) by auto
  have "sess_streams s' = Map.empty"
  proof
    fix k show "sess_streams s' k = None" using fun_cong [OF r(3), of k] by simp
  qed
  moreover have "open_fds w' = {3, 8, 10}" using r(4) by auto
  ultimately show ?thesis using s(1) r(1,2) demo1(6) by blast
qed

end
