(* ===== verification/Connections.thy ===== *)
theory Connections
  imports System_Props
begin

text \<open>
  The connections of an endpoint as its user sees them: a table from connection ids to
  the peer each belongs to. The program refines it: whatever the loop's thread does opens
  one connection under a new id, or only closes some.
\<close>

section \<open>The abstract table\<close>

text \<open>An inbound connection belongs to a listener and a remote address, an outbound one to a node and a host.\<close>

datatype peer = From nat "ip_v \<times> u16" | To nat string

record conn_table =
  conns :: "IO \<times> nat \<rightharpoonup> peer"
  used_ids :: nat

definition table_step :: "conn_table \<Rightarrow> conn_table \<Rightarrow> bool" where
  "table_step T T' \<longleftrightarrow> used_ids T \<le> used_ids T' \<and>
     (conns T' \<subseteq>\<^sub>m conns T \<or>
      (\<exists>d i c. used_ids T \<le> i \<and> i < used_ids T' \<and> conns T' = (conns T)((d, i) \<mapsto> c)))"

definition wf_table :: "conn_table \<Rightarrow> bool" where
  "wf_table T \<longleftrightarrow>
     (\<forall>d i. conns T (d, i) \<noteq> None \<longrightarrow> i < used_ids T) \<and>
     (\<forall>x y. conns T x \<noteq> None \<longrightarrow> conns T x = conns T y \<longrightarrow> x = y)"

definition empty_table :: conn_table where
  "empty_table = \<lparr>conns = Map.empty, used_ids = 0\<rparr>"

section \<open>Its implementation\<close>

definition in_peer :: "session \<times> nat \<Rightarrow> peer" where
  "in_peer x = From (snd x) (rkey (fst x))"

definition out_peer :: "session \<times> nat \<Rightarrow> peer" where
  "out_peer x = To (snd x) (sess_host (fst x))"

fun peer_at :: "'u world \<Rightarrow> IO \<times> nat \<Rightarrow> peer option" where
  "peer_at w (INBOUND, i) = map_option in_peer (inbounds w i)"
| "peer_at w (OUTBOUND, i) = map_option out_peer (outbounds w i)"

definition table_of :: "'u world \<Rightarrow> conn_table" where
  "table_of w = \<lparr>conns = peer_at w, used_ids = next_obj w\<rparr>"

lemma table_of_fields [simp]: "conns (table_of w) = peer_at w" "used_ids (table_of w) = next_obj w"
  by (simp_all add: table_of_def)

lemma peer_at_eqI:
  assumes "\<And>i. map_option in_peer (inbounds w' i) = map_option in_peer (inbounds w i)"
    and "\<And>i. map_option out_peer (outbounds w' i) = map_option out_peer (outbounds w i)"
  shows "peer_at w' = peer_at w"
proof
  fix x :: "IO \<times> nat"
  obtain d i where x: "x = (d, i)" by fastforce
  show "peer_at w' x = peer_at w x" unfolding x using assms by (cases d) simp_all
qed

lemma peer_at_closes:
  assumes "inbounds w' \<subseteq>\<^sub>m inbounds w" and "outbounds w' \<subseteq>\<^sub>m outbounds w"
  shows "peer_at w' \<subseteq>\<^sub>m peer_at w"
  unfolding map_le_def
proof
  fix x :: "IO \<times> nat" assume d: "x \<in> dom (peer_at w')"
  obtain a i where x: "x = (a, i)" by fastforce
  have "i \<in> dom (inbounds w') \<Longrightarrow> inbounds w' i = inbounds w i" "i \<in> dom (outbounds w') \<Longrightarrow> outbounds w' i = outbounds w i"
    using assms by (auto simp: map_le_def)
  moreover have "case a of INBOUND \<Rightarrow> i \<in> dom (inbounds w') | OUTBOUND \<Rightarrow> i \<in> dom (outbounds w')"
    using d unfolding x by (cases a) auto
  ultimately show "peer_at w' x = peer_at w x" unfolding x by (cases a) simp_all
qed

lemma peer_at_opens:
  "inbounds w' = (inbounds w)(i \<mapsto> x) \<Longrightarrow> outbounds w' = outbounds w \<Longrightarrow>
     peer_at w' = (peer_at w)((INBOUND, i) \<mapsto> in_peer x)"
  "inbounds w' = inbounds w \<Longrightarrow> outbounds w' = (outbounds w)(i \<mapsto> x) \<Longrightarrow>
     peer_at w' = (peer_at w)((OUTBOUND, i) \<mapsto> out_peer x)"
proof -
  show "peer_at w' = (peer_at w)((INBOUND, i) \<mapsto> in_peer x)"
    if "inbounds w' = (inbounds w)(i \<mapsto> x)" "outbounds w' = outbounds w"
  proof
    fix y :: "IO \<times> nat"
    obtain d j where y: "y = (d, j)" by fastforce
    show "peer_at w' y = ((peer_at w)((INBOUND, i) \<mapsto> in_peer x)) y" unfolding y using that by (cases d) simp_all
  qed
  show "peer_at w' = (peer_at w)((OUTBOUND, i) \<mapsto> out_peer x)"
    if "inbounds w' = inbounds w" "outbounds w' = (outbounds w)(i \<mapsto> x)"
  proof
    fix y :: "IO \<times> nat"
    obtain d j where y: "y = (d, j)" by fastforce
    show "peer_at w' y = ((peer_at w)((OUTBOUND, i) \<mapsto> out_peer x)) y" unfolding y using that by (cases d) simp_all
  qed
qed

text \<open>The three ways in which an operation changes the table.\<close>

lemma table_quiet:
  "peer_at w' = peer_at w \<Longrightarrow> next_obj w \<le> next_obj w' \<Longrightarrow> table_step (table_of w) (table_of w')"
  by (simp add: table_step_def)

lemma table_closes:
  "inbounds w' \<subseteq>\<^sub>m inbounds w \<Longrightarrow> outbounds w' \<subseteq>\<^sub>m outbounds w \<Longrightarrow> next_obj w \<le> next_obj w' \<Longrightarrow>
     table_step (table_of w) (table_of w')"
  by (simp add: table_step_def peer_at_closes)

lemma table_opens:
  "peer_at w' = (peer_at w)((d, i) \<mapsto> c) \<Longrightarrow> next_obj w \<le> i \<Longrightarrow> i < next_obj w' \<Longrightarrow>
     table_step (table_of w) (table_of w')"
  unfolding table_step_def by auto

section \<open>Every step of the program is a step of the table\<close>

lemma table_traffic_in:
  assumes w: "wired (el_session lib) t" and i: "sys_inv t w"
  shows "table_step (table_of w) (table_of (snd (inbound_io lib t sid io w)))"
proof (cases "\<exists>s lid. inbounds w sid = Some (s, lid) \<and> sess_bev_cbs s")
  case False
  then have "snd (inbound_io lib t sid io w) = w" by (auto simp: inbound_io_def split: option.split)
  then show ?thesis by (simp add: table_quiet)
next
  case True
  then obtain s lid where s: "inbounds w sid = Some (s, lid)" "sess_bev_cbs s" by blast
  have ok: "inbound_ok w" and t: "in_event_loop t w" using i by (simp_all add: sys_inv_def)
  obtain r s' w' where r: "session_io (el_session lib) t io (s, w) = (r, s', w')" by (metis surj_pair)
  have l: "live_inv t s w (s', w')" using io_effect [OF w t _ r] inbound_okD [OF ok s(1)] by simp
  then have m: "io_env.more w' = io_env.more w" and k: "in_peer (s', lid) = in_peer (s, lid)"
    by (simp_all add: live_inv_def in_peer_def rkey_def)
  let ?w = "w'\<lparr>inbounds := (inbounds w')(sid \<mapsto> (s', lid))\<rparr>"
  have "peer_at ?w = peer_at w"
    by (rule peer_at_eqI) (simp_all add: world_more [OF m] s k)
  then have "table_step (table_of w) (table_of ?w)" by (rule table_quiet) (simp add: world_more [OF m])
  then show ?thesis using s r by (simp add: inbound_io_def)
qed

lemma table_traffic_out:
  assumes w: "wired (el_session lib) t" and i: "sys_inv t w"
  shows "table_step (table_of w) (table_of (snd (outbound_io lib t sid io w)))"
proof (cases "\<exists>s nid. outbounds w sid = Some (s, nid) \<and> sess_bev_cbs s")
  case False
  then have "snd (outbound_io lib t sid io w) = w" by (auto simp: outbound_io_def split: option.split)
  then show ?thesis by (simp add: table_quiet)
next
  case True
  then obtain s nid where s: "outbounds w sid = Some (s, nid)" "sess_bev_cbs s" by blast
  have ok: "outbound_ok (outbounds w) (nodes w) (next_obj w)" and t: "in_event_loop t w"
    using i by (simp_all add: sys_inv_def)
  obtain r s' w' where r: "session_io (el_session lib) t io (s, w) = (r, s', w')" by (metis surj_pair)
  have l: "live_inv t s w (s', w')" using io_effect [OF w t _ r] outbound_okD(1) [OF ok s(1)] by simp
  then have m: "io_env.more w' = io_env.more w" and k: "out_peer (s', nid) = out_peer (s, nid)"
    by (simp_all add: live_inv_def out_peer_def)
  let ?w = "w'\<lparr>outbounds := (outbounds w')(sid \<mapsto> (s', nid))\<rparr>"
  have "peer_at ?w = peer_at w"
    by (rule peer_at_eqI) (simp_all add: world_more [OF m] s k)
  then have "table_step (table_of w) (table_of ?w)" by (rule table_quiet) (simp add: world_more [OF m])
  then show ?thesis using s r by (simp add: outbound_io_def)
qed

lemma table_connect:
  assumes i: "sys_inv t w" and r: "endpoint_connect lib t url local w = (b, w')"
  shows "table_step (table_of w) (table_of w')"
proof -
  have t: "in_event_loop t w" and O: "outbound_ok (outbounds w) (nodes w) (next_obj w)"
    using i by (simp_all add: sys_inv_def)
  have side: "inbound_side w w'" by (rule connect_side [OF r])
  obtain u p where u: "uri_parse (sl_ada (el_session lib)) url (url_state w) = (Inr u, p)"
    using that by (cases "accepted_url (sl_ada (el_session lib)) url") (auto simp: uri_parse_eq)
  let ?h = "uri_host u"
  let ?w1 = "w\<lparr>url_state := p, ep_nodes := snd (reg_try_emplace ?h (ep_nodes w))\<rparr>"
  obtain m w2 where m: "node_make lib t u local ?w1 = (m, w2)" by fastforce
  have fresh: "nodes w (next_obj w) = None"
    using outbound_okD(3) [OF O, of "next_obj w"] by (cases "nodes w (next_obj w)") auto
  have t1: "in_event_loop t ?w1" using t by (simp add: in_event_loop_def)
  note e = node_make_fresh [OF t1 _ m, simplified, OF fresh]
  show ?thesis
  proof (cases "uri_bool u \<and> fst (reg_try_emplace ?h (ep_nodes w)) \<and> (\<exists>nid. m = Inr nid)")
    case True
    then obtain nid where nid: "m = Inr nid" by blast
    then have f: "fresh_node nid ?w1 w2" using e by simp
    have w': "w' = w2\<lparr>ep_nodes := reg_assign ?h (Some nid) (ep_nodes w2)\<rparr>"
      using r u m True nid by (auto simp: endpoint_connect_def Let_def split: prod.splits)
    obtain x where x: "outbounds w' = (outbounds w)(Suc nid \<mapsto> x)" "nid = next_obj w" "next_obj w' = Suc (Suc nid)"
      using f by (auto simp: w' fresh_node_def)
    have "peer_at w' = (peer_at w)((OUTBOUND, Suc nid) \<mapsto> out_peer x)"
      using side x(1) by (intro peer_at_opens(2)) (simp_all add: inbound_side_def)
    then show ?thesis by (rule table_opens) (simp_all add: x)
  next
    case False
    then have "outbounds w' = outbounds w"
      using r u m e by (auto simp: endpoint_connect_def Let_def split: prod.splits if_splits sum.splits)
    then show ?thesis using side by (intro table_closes) (simp_all add: inbound_side_def)
  qed
qed

lemma table_accept:
  assumes i: "sys_inv t w" and r: "create_inbound_session lib t lid remote fd w = (r, w')"
  shows "table_step (table_of w) (table_of w')"
  using create_inbound_effect(2) [OF r]
proof
  assume "inbounds w' \<subseteq>\<^sub>m inbounds w"
  then show ?thesis using create_inbound_effect(1) [OF r] by (intro table_closes) (simp_all add: outbound_side_def)
next
  assume "\<exists>s. inbounds w' = (inbounds w)(next_obj w \<mapsto> (s, lid)) \<and> streams_ok s \<and>
      sess_this s = next_obj w \<and> \<not> sess_is_outbound s"
  then obtain s where s: "inbounds w' = (inbounds w)(next_obj w \<mapsto> (s, lid))" by blast
  have n: "next_obj w < next_obj w'"
    using sys_create_inbound [OF i r] ownedD(3) [of "inbounds w'" "listeners w'" "ep_listeners w'" "next_obj w'"] s
    by (auto simp: sys_inv_def wf_world_def)
  have "peer_at w' = (peer_at w)((INBOUND, next_obj w) \<mapsto> in_peer (s, lid))"
    using s create_inbound_effect(1) [OF r] by (intro peer_at_opens(1)) (simp_all add: outbound_side_def)
  then show ?thesis using n by (intro table_opens) simp_all
qed

text \<open>The jobs only close.\<close>

definition shrinks :: "'u world \<Rightarrow> 'u world \<Rightarrow> bool" where
  "shrinks w w' \<longleftrightarrow> inbounds w' \<subseteq>\<^sub>m inbounds w \<and> outbounds w' \<subseteq>\<^sub>m outbounds w \<and> next_obj w \<le> next_obj w'"

lemma shrinks_trans: "shrinks u v \<Longrightarrow> shrinks v w \<Longrightarrow> shrinks u w"
  unfolding shrinks_def using map_le_trans by (metis le_trans)

lemma shrinks_run_job:
  assumes i: "sys_inv t w" and r: "run_job lib t j w = (x, w')"
  shows "shrinks w w'"
proof (cases j)
  case (User_closure js y)
  then show ?thesis using r by (auto simp: fold_call_soon shrinks_def)
next
  case j: (Outbound_close sid)
  show ?thesis
  proof (cases "outbounds w sid")
    case None
    then show ?thesis using r j by (simp add: shrinks_def)
  next
    case (Some y)
    obtain s nid where y: "y = (s, nid)" by fastforce
    have t: "in_event_loop t w" and O: "outbound_ok (outbounds w) (nodes w) (next_obj w)"
      using i by (simp_all add: sys_inv_def)
    obtain k where k: "nodes w nid = Some k" "reg_find (sess_host s) (node_sessions k) = Some (Some sid)"
      using outbound_okD(2) [OF O] Some y by blast
    have "outbounds w' = (outbounds w)(sid := None)" "inbounds w' = inbounds w" "next_obj w' = next_obj w"
      using outbound_close_effect [OF t k(1), of lib "sess_host s"] k(2) r j Some y by (auto simp: outcome_of_def)
    then show ?thesis by (simp add: shrinks_def map_le_take)
  qed
qed (use takes_run_job [of t w j lib] i r in
    \<open>simp_all add: sys_inv_def takes_def outbound_side_def shrinks_def\<close>)

lemma shrinks_run_jobs:
  "sys_inv t w \<Longrightarrow> run_jobs (run_job lib t) js w = (x, w') \<Longrightarrow> shrinks w w'"
proof (induction js arbitrary: w)
  case Nil
  then show ?case by (simp add: shrinks_def)
next
  case (Cons j js)
  obtain y w1 where j: "run_job lib t j w = (y, w1)" by fastforce
  note k = sys_run_job(1) [OF Cons.prems(1) j] shrinks_run_job [OF Cons.prems(1) j]
  show ?case
  proof (cases y)
    case None
    then show ?thesis using Cons.prems(2) Cons.IH [OF k(1)] j k(2) shrinks_trans by auto
  next
    case (Some e)
    then show ?thesis using Cons.prems(2) j k(2) by simp
  qed
qed

lemma sys_step_table: "sys_step t w w' \<Longrightarrow> sys_inv t w \<Longrightarrow> table_step (table_of w) (table_of w')"
proof (induction rule: sys_step.induct)
  case (listen lib p w b w')
  then show ?case using listen_effect [OF listen(1)] by (intro table_closes) (simp_all add: outbound_side_def)
next
  case (connect lib url local w b w') then show ?case by (blast intro: table_connect)
next
  case (accept w lid l lib fd addr r w')
  have quiet: "table_step (table_of w) (table_of w)" by (simp add: table_quiet)
  then show ?case using accept by (auto simp: accept_cb_def split: sum.splits intro: table_accept)
next
  case (fails w lid l r w')
  then show ?case
    by (auto simp: error_cb_def listener_close_listener_def world_in_loop_def call_soon_def
        split: if_splits intro!: table_closes)
next
  case (traffic_in lib sid io w x w') then show ?case by (metis snd_conv table_traffic_in)
next
  case (traffic_out lib sid io w x w') then show ?case by (metis snd_conv table_traffic_out)
next
  case (shutdown t' lib w x w')
  then have "w' = call_soon Close_all_listeners w" by (auto simp: loop_call_def sys_inv_def in_event_loop_def)
  then show ?case by (intro table_closes) (simp_all add: call_soon_def)
next
  case (immediate w b)
  then show ?case by (intro table_closes) (simp_all add: set_shutdown_immediate_def)
next
  case (user j w) then show ?case by (intro table_closes) (simp_all add: call_soon_def)
next
  case (jobs lib w x w')
  have "run_jobs (run_job lib t) (job_queue w) (w\<lparr>job_queue := []\<rparr>) = (x, w')"
    using jobs by (simp add: process_job_queue_def sys_inv_def Let_def)
  moreover have "sys_inv t (w\<lparr>job_queue := []\<rparr>)" using jobs(2) by simp
  ultimately have "shrinks (w\<lparr>job_queue := []\<rparr>) w'" by (rule shrinks_run_jobs [rotated])
  then show ?case by (intro table_closes) (simp_all add: shrinks_def)
qed

section \<open>What the table guarantees\<close>

lemma sys_wf_table:
  assumes "sys_inv t w"
  shows "wf_table (table_of w)"
proof -
  have o: "owned (inbounds w) (listeners w) (ep_listeners w) (next_obj w)"
    and O: "outbound_ok (outbounds w) (nodes w) (next_obj w)"
    using assms by (simp_all add: sys_inv_def wf_world_def)
  have b: "peer_at w (d, i) \<noteq> None \<Longrightarrow> i < next_obj w" for d i
    using ownedD(3) [OF o] outbound_okD(1) [OF O] by (cases d) auto
  have u: "x = y" if x: "peer_at w x = Some c" and y: "peer_at w y = Some c" for x y c
  proof (cases c)
    case (From lid k)
    then obtain i j s s' where ij: "x = (INBOUND, i)" "inbounds w i = Some (s, lid)" "rkey s = k"
        "y = (INBOUND, j)" "inbounds w j = Some (s', lid)" "rkey s' = k"
      using x y by (cases "(w, x)" rule: peer_at.cases; cases "(w, y)" rule: peer_at.cases)
        (auto simp: in_peer_def out_peer_def)
    then show ?thesis using ownedD(4) [OF o ij(2)] ownedD(4) [OF o ij(5)] by auto
  next
    case (To nid h)
    then obtain i j s s' where ij: "x = (OUTBOUND, i)" "outbounds w i = Some (s, nid)" "sess_host s = h"
        "y = (OUTBOUND, j)" "outbounds w j = Some (s', nid)" "sess_host s' = h"
      using x y by (cases "(w, x)" rule: peer_at.cases; cases "(w, y)" rule: peer_at.cases)
        (auto simp: in_peer_def out_peer_def)
    then show ?thesis using outbound_okD(2) [OF O ij(2)] outbound_okD(2) [OF O ij(5)] by auto
  qed
  show ?thesis
    unfolding wf_table_def table_of_fields
  proof (intro conjI allI impI)
    show "i < next_obj w" if "peer_at w (d, i) \<noteq> None" for d i using b that .
    show "x = y" if n: "peer_at w x \<noteq> None" "peer_at w x = peer_at w y" for x y
    proof -
      obtain c where "peer_at w x = Some c" using n(1) by blast
      then show ?thesis using u [of x c y] n(2) by simp
    qed
  qed
qed

text \<open>Over a run of the table: an id in use keeps its peer, one that was given up stays given up.\<close>

definition same_ids :: "conn_table \<Rightarrow> conn_table \<Rightarrow> bool" where
  "same_ids T T' \<longleftrightarrow> used_ids T \<le> used_ids T' \<and>
     (\<forall>d i. i < used_ids T \<longrightarrow> conns T' (d, i) = None \<or> conns T' (d, i) = conns T (d, i))"

lemma table_step_same: "table_step T T' \<Longrightarrow> same_ids T T'"
proof -
  assume s: "table_step T T'"
  have "conns T' (d, i) = None \<or> conns T' (d, i) = conns T (d, i)" if i: "i < used_ids T" for d i
  proof (cases "conns T' \<subseteq>\<^sub>m conns T")
    case True
    then show ?thesis by (cases "conns T' (d, i)") (force simp: map_le_def)+
  next
    case False
    then obtain d' i' c where "used_ids T \<le> i'" "conns T' = (conns T)((d', i') \<mapsto> c)"
      using s by (auto simp: table_step_def)
    then show ?thesis using i by auto
  qed
  then show ?thesis using s by (simp add: same_ids_def table_step_def)
qed

lemma same_ids_trans: "same_ids T T' \<Longrightarrow> same_ids T' T'' \<Longrightarrow> same_ids T T''"
  unfolding same_ids_def by (metis le_trans order_less_le_trans)

lemma sys_same_ids: "(sys_step t)\<^sup>*\<^sup>* w w' \<Longrightarrow> sys_inv t w \<Longrightarrow> same_ids (table_of w) (table_of w')"
proof (induction rule: rtranclp_induct)
  case base
  then show ?case by (simp add: same_ids_def)
next
  case (step v w')
  have "sys_inv t v" using step(1,4) by (rule sys_reachable)
  then show ?case
    using step sys_step_table table_step_same same_ids_trans by blast
qed

section \<open>Properties\<close>

text \<open>
  C2. The endpoint keeps a table of connections. It starts empty; every step of the
  loop's thread, be it listening, connecting, accepting, any traffic or the jobs of the
  queue, either opens one connection under an id that was never used, or only closes
  some; and at any time no two connections have the same listener and remote address,
  or the same node and host.
\<close>

theorem connections_refine:
  assumes "endpoint_make ssl creds t c prs fds = (Inr w0, c')" and "(sys_step t)\<^sup>*\<^sup>* w0 w" and "sys_step t w w'"
  shows "table_of w0 = empty_table \<and> table_step (table_of w) (table_of w') \<and> wf_table (table_of w)"
proof -
  have i: "sys_inv t w" using assms(2) sys_init [OF assms(1)] by (rule sys_reachable)
  have e: "inbounds w0 = Map.empty" "outbounds w0 = Map.empty" "next_obj w0 = 0"
    using assms(1) by (auto simp: endpoint_make_def split: sum.splits prod.splits)
  have "peer_at w0 x = None" for x by (cases "(w0, x)" rule: peer_at.cases) (simp_all add: e)
  then have "table_of w0 = empty_table" by (simp add: table_of_def empty_table_def e fun_eq_iff)
  then show ?thesis using sys_step_table [OF assms(3) i] sys_wf_table [OF i] by blast
qed

theorem connections_refine_witness:
  "table_step (table_of demo1) (table_of (set_shutdown_immediate True demo1)) \<and> wf_table (table_of demo1) \<and>
   peer_at demo1 (INBOUND, 1) \<noteq> None"
proof -
  obtain s where "inbounds demo1 1 = Some (s, 0)" using demo1(2) by blast
  then show ?thesis using connections_refine [OF demo0 demo1(1) sys_step.immediate] by simp
qed

text \<open>
  C17. A connection never changes its peer: however the program goes on, an id that is in
  use later was either not yet given out or belonged to the same listener and remote
  address, or node and host, all along; once closed it stays closed.
\<close>

theorem connections_keep_peer:
  assumes "endpoint_make ssl creds t c prs fds = (Inr w0, c')" and "(sys_step t)\<^sup>*\<^sup>* w0 w" and "(sys_step t)\<^sup>*\<^sup>* w w'"
  shows "(inbounds w' sid = Some (s', lid') \<longrightarrow> sid < next_obj w \<longrightarrow>
            (\<exists>s. inbounds w sid = Some (s, lid') \<and> rkey s = rkey s')) \<and>
         (outbounds w' sid = Some (u', nid') \<longrightarrow> sid < next_obj w \<longrightarrow>
            (\<exists>u. outbounds w sid = Some (u, nid') \<and> sess_host u = sess_host u'))"
proof -
  have "sys_inv t w" using assms(2) sys_init [OF assms(1)] by (rule sys_reachable)
  then have k: "same_ids (table_of w) (table_of w')" using assms(3) sys_same_ids by blast
  have "peer_at w (d, sid) = Some c" if "sid < next_obj w" "peer_at w' (d, sid) = Some c" for d c
  proof -
    have "peer_at w' (d, sid) = None \<or> peer_at w' (d, sid) = peer_at w (d, sid)"
      using k that(1) by (simp add: same_ids_def)
    then show ?thesis using that(2) by simp
  qed
  from this [of INBOUND] this [of OUTBOUND] show ?thesis
    by (auto simp: in_peer_def out_peer_def)
qed

theorem connections_keep_peer_witness:
  "\<exists>s s'. inbounds demo1 1 = Some (s, 0) \<and>
     inbounds (set_shutdown_immediate True demo1) 1 = Some (s', 0) \<and> rkey s = rkey s'"
proof -
  let ?w = "set_shutdown_immediate True demo1"
  obtain s' where s': "inbounds demo1 1 = Some (s', 0)" using demo1(2) by blast
  have "sys_inv 7 demo1" using demo1(1) sys_init [OF demo0] by (rule sys_reachable)
  then have n: "1 < next_obj demo1"
    using ownedD(3) [of "inbounds demo1" "listeners demo1" "ep_listeners demo1" "next_obj demo1"] s'
    by (simp add: sys_inv_def wf_world_def)
  have w: "inbounds ?w 1 = Some (s', 0)" using s' by (simp add: set_shutdown_immediate_def)
  have "(sys_step 7)\<^sup>*\<^sup>* demo1 ?w" using sys_step.immediate by blast
  from connections_keep_peer [OF demo0 demo1(1) this, THEN conjunct1, rule_format, OF w n] w show ?thesis
    by blast
qed

end
