(* ===== verification/Timers.thy ===== *)
theory Timers
  imports Loop "HOL-Library.Multiset"
begin

text \<open>
  Tickers and delayed calls in time: the watchers of \<open>Ticker\<close> and the operations of
  \<open>Loop\<close> on a clock, with libevent's timer service as it is documented (an event that
  was added fires once, not before its time; a deleted or freed one does not fire). The
  clock counts nanoseconds, intervals are microseconds.
\<close>

section \<open>State\<close>

text \<open>
  A timer is armed at some time for some interval. \<open>pending\<close> is libevent's; \<open>armed\<close>,
  \<open>runs\<close> (with the time of the run), \<open>made\<close> (how often an address was given to a new
  watcher) and \<open>halted\<close> (how often its event was taken off by a call) are ghosts.
\<close>

type_synonym timer = "int \<times> int"

record 'j timed = "'j event_loop" +
  clock :: int
  pending :: "wid \<rightharpoonup> timer"
  armed :: "wid \<Rightarrow> timer list"
  runs :: "wid \<Rightarrow> (timer \<times> int) list"
  made :: "wid \<Rightarrow> nat"
  halted :: "wid \<Rightarrow> nat"

definition due :: "timer \<Rightarrow> int" where
  "due tm = fst tm + 1000 * snd tm"

definition timeval_us :: "timeval \<Rightarrow> int" where
  "timeval_us tv = tv_sec tv * 1000000 + tv_usec tv"

text \<open>\<open>detail::get_time\<close> reads the steady clock.\<close>

definition get_time :: "'j timed \<Rightarrow> int" where
  "get_time s = clock s"

section \<open>libevent\<close>

text \<open>The effect of one call on the event; \<open>ok\<close> says whether the call succeeded.\<close>

fun libevent :: "bool \<Rightarrow> int \<Rightarrow> ev_call \<Rightarrow> timer option \<Rightarrow> timer option" where
  "libevent ok now (Ev_new flags) p = None"
| "libevent ok now (Ev_add tv) p = (if ok then Some (now, timeval_us tv) else p)"
| "libevent ok now Ev_del p = (if ok then None else p)"
| "libevent ok now Ev_free p = None"

fun arms :: "bool \<Rightarrow> int \<Rightarrow> ev_call \<Rightarrow> timer list" where
  "arms ok now (Ev_add tv) = (if ok then [(now, timeval_us tv)] else [])"
| "arms ok now _ = []"

definition dels :: "bool \<Rightarrow> ev_call list \<Rightarrow> nat" where
  "dels ok cs = (if ok then length (filter (\<lambda>c. c = Ev_del) cs) else 0)"

text \<open>The calls an operation made: those a watcher logged since, or the release of a watcher that is gone.\<close>

definition new_calls :: "'j ev_watcher option \<Rightarrow> 'j ev_watcher option \<Rightarrow> ev_call list" where
  "new_calls old new =
     (case new of
        None \<Rightarrow> (if old = None then [] else [Ev_free])
      | Some n \<Rightarrow> drop (case old of None \<Rightarrow> 0 | Some x \<Rightarrow> length (w_calls x)) (w_calls n))"

definition track :: "(wid \<Rightarrow> bool) \<Rightarrow> 'j timed \<Rightarrow> 'j timed \<Rightarrow> 'j timed" where
  "track ok s s' =
     (let calls = (\<lambda>w. new_calls (watchers s w) (watchers s' w)) in
      s'\<lparr>pending := (\<lambda>w. fold (libevent (ok w) (clock s)) (calls w) (pending s w)),
         armed := (\<lambda>w. armed s w @ concat (map (arms (ok w) (clock s)) (calls w))),
         halted := (\<lambda>w. halted s w + dels (ok w) (calls w))\<rparr>)"

section \<open>Steps\<close>

text \<open>
  A timer that is due fires: libevent takes the event off and calls the lambda, which
  runs the task of the watcher, if it still has one; \<open>x\<close> is what the task throws. What
  the task does to the loop are steps of their own.
\<close>

definition fire :: "bool \<Rightarrow> exn option \<Rightarrow> wid \<Rightarrow> 'j ev_watcher \<Rightarrow> timer \<Rightarrow> 'j timed \<Rightarrow> 'j timed" where
  "fire ok x w tick tm s =
     (let tick' = fst (event_lambda (\<lambda>_ u. (x, u)) tick ());
          s1 = s\<lparr>pending := (pending s)(w := None),
                 runs := (if w_f tick = None then runs s else (runs s)(w := runs s w @ [(tm, clock s)]))\<rparr>
      in track (\<lambda>_. ok) s1 (s1\<lparr>watchers := (watchers s1)(w \<mapsto> tick')\<rparr>))"

definition renew :: "wid \<Rightarrow> 'j timed \<Rightarrow> 'j timed" where
  "renew w s = s\<lparr>made := (made s)(w := Suc (made s w))\<rparr>"

inductive timed_step :: "'j timed \<Rightarrow> 'j timed \<Rightarrow> bool" where
  every: "watchers s w = None \<Longrightarrow>
    timed_step s (track (\<lambda>_. rc = 0) s (renew w (call_every_from w rc iv f i im fx s)))"
| once: "watchers s w = None \<Longrightarrow>
    timed_step s (track (\<lambda>_. rc = 0) s (renew w (add_oneshot_event w rc delay f s)))"
| start: "watchers s w = Some tick \<Longrightarrow>
    timed_step s (track (\<lambda>_. rc = 0) s (s\<lparr>watchers := (watchers s)(w \<mapsto> snd (watcher_start rc tick))\<rparr>))"
| stop: "watchers s w = Some tick \<Longrightarrow>
    timed_step s (track (\<lambda>_. rc = 0) s (s\<lparr>watchers := (watchers s)(w \<mapsto> snd (watcher_stop rc tick))\<rparr>))"
| halt: "timed_step s (track (\<lambda>w. del_rc w = 0) s (stop_tickers del_rc i s))"
| drop: "timed_step s (track (\<lambda>_. True) s (drop_watcher w s))"
| tick: "0 \<le> dt \<Longrightarrow> timed_step s (s\<lparr>clock := clock s + dt\<rparr>)"
| fires: "watchers s w = Some tick \<Longrightarrow> pending s w = Some tm \<Longrightarrow> due tm \<le> clock s \<Longrightarrow>
    timed_step s (fire ok x w tick tm s)"

definition timed_start :: "tid \<Rightarrow> int \<Rightarrow> 'j timed" where
  "timed_start t now =
     \<lparr>loop_running = True, loop_thread_id = t, loop_thread = True, loop_joinable = True, job_queue = [],
      waker_active = False, tickers = Map.empty, watchers = Map.empty,
      clock = now, pending = Map.empty, armed = (\<lambda>_. []), runs = (\<lambda>_. []), made = (\<lambda>_. 0), halted = (\<lambda>_. 0)\<rparr>"

section \<open>The invariant\<close>

text \<open>
  Per watcher: a pending timer is the last one armed and belongs to a watcher that says
  it runs; no timer runs twice, none that was not armed, none before it is due.
\<close>

definition timer_ok :: "int \<Rightarrow> 'j ev_watcher option \<Rightarrow> timer option \<Rightarrow> timer list \<Rightarrow> (timer \<times> int) list \<Rightarrow> bool" where
  "timer_ok now wo p as rs \<longleftrightarrow>
     (\<forall>tm. p = Some tm \<longrightarrow> (\<exists>tick. wo = Some tick \<and> is_running tick)) \<and>
     mset (map fst rs) + (case p of None \<Rightarrow> {#} | Some tm \<Rightarrow> {#tm#}) \<subseteq># mset as \<and>
     (\<forall>(tm, at) \<in> set rs. due tm \<le> at \<and> at \<le> now)"

definition timers_ok :: "'j timed \<Rightarrow> bool" where
  "timers_ok s \<longleftrightarrow> (\<forall>w. timer_ok (clock s) (watchers s w) (pending s w) (armed s w) (runs s w))"

lemma timers_okD: "timers_ok s \<Longrightarrow> timer_ok (clock s) (watchers s w) (pending s w) (armed s w) (runs s w)"
  by (simp add: timers_ok_def)

text \<open>What \<open>track\<close> leaves and what it sets, watcher by watcher.\<close>

lemma track_fields [simp]:
  "watchers (track ok s s') = watchers s'" "clock (track ok s s') = clock s'" "runs (track ok s s') = runs s'"
  "made (track ok s s') = made s'" "tickers (track ok s s') = tickers s'"
  by (simp_all add: track_def Let_def)

lemma track_timer:
  "pending (track ok s s') w =
     fold (libevent (ok w) (clock s)) (new_calls (watchers s w) (watchers s' w)) (pending s w)"
  "armed (track ok s s') w =
     armed s w @ concat (map (arms (ok w) (clock s)) (new_calls (watchers s w) (watchers s' w)))"
  "halted (track ok s s') w = halted s w + dels (ok w) (new_calls (watchers s w) (watchers s' w))"
  by (simp_all add: track_def Let_def)

lemma new_calls_simps [simp]:
  "new_calls wo wo = []" "new_calls None (Some n) = w_calls n"
  "new_calls (Some x) None = [Ev_free]"
  "w_calls n = w_calls x @ cs \<Longrightarrow> new_calls (Some x) (Some n) = cs"
  by (auto simp: new_calls_def split: option.split)

lemma renew_fields [simp]:
  "watchers (renew w s) = watchers s" "clock (renew w s) = clock s" "pending (renew w s) = pending s"
  "armed (renew w s) = armed s" "halted (renew w s) = halted s" "runs (renew w s) = runs s" "tickers (renew w s) = tickers s"
  by (simp_all add: renew_def)

text \<open>
  A step keeps the invariant when it keeps clock and runs and treats each watcher in one
  of these ways.
\<close>

lemma timers_ok_track:
  assumes "timers_ok s" and "clock s' = clock s" and "runs s' = runs s"
    and "\<And>w. timer_ok (clock s) (watchers s' w)
          (fold (libevent (ok w) (clock s)) (new_calls (watchers s w) (watchers s' w)) (pending s w))
          (armed s w @ concat (map (arms (ok w) (clock s)) (new_calls (watchers s w) (watchers s' w)))) (runs s w)"
  shows "timers_ok (track ok s s')"
  using assms by (simp add: timers_ok_def track_timer)

lemma add_mset_subsetD: "add_mset x A \<subseteq># B \<Longrightarrow> A \<subseteq># B"
  by (meson mset_subset_eq_insertD subset_mset.less_imp_le)

lemma timer_ok_runs:
  assumes "timer_ok now wo p as rs"
  shows "mset (map fst rs) \<subseteq># mset as"
proof (cases p)
  case None
  then show ?thesis using assms by (simp add: timer_ok_def)
next
  case (Some tm)
  then have "add_mset tm (mset (map fst rs)) \<subseteq># mset as" using assms by (simp add: timer_ok_def)
  then show ?thesis by (rule add_mset_subsetD)
qed

lemma timer_ok_quiet:
  assumes "timer_ok now wo p as rs"
  shows "timer_ok now wo' None as rs"
  using timer_ok_runs [OF assms] assms by (simp add: timer_ok_def)

lemma timer_ok_new:
  assumes "timer_ok now wo p as rs" and "w_calls n = Ev_new 0 # (if go then [Ev_add iv] else [])"
    and "is_running n = (go \<and> ok)"
  shows "timer_ok now (Some n) (fold (libevent ok now) (w_calls n) p)
           (as @ concat (map (arms ok now) (w_calls n))) rs"
proof -
  have "mset (map fst rs) \<subseteq># mset as" using assms(1) by (rule timer_ok_runs)
  then have "mset (map fst rs) \<subseteq># add_mset tm (mset as)" "add_mset tm (mset (map fst rs)) \<subseteq># add_mset tm (mset as)" for tm
    by (auto intro: subset_mset.order_trans)
  then show ?thesis using assms by (cases go; cases ok) (auto simp: timer_ok_def)
qed

lemma timer_ok_start:
  assumes "timer_ok now (Some x) p as rs"
  shows "timer_ok now (Some (snd (watcher_start rc x)))
      (fold (libevent (rc = 0) now) (new_calls (Some x) (Some (snd (watcher_start rc x)))) p)
      (as @ concat (map (arms (rc = 0) now) (new_calls (Some x) (Some (snd (watcher_start rc x)))))) rs"
proof (cases "is_running x")
  case True
  then show ?thesis using assms by (simp add: watcher_start_def)
next
  case False
  then have "p = None" using assms by (cases p) (auto simp: timer_ok_def)
  moreover have "new_calls (Some x) (Some (snd (watcher_start rc x))) = [Ev_add (w_interval x)]"
    using False by (simp add: watcher_start_def Let_def)
  moreover have "is_running (snd (watcher_start rc x)) = (rc = 0)" using False by (simp add: watcher_start_def Let_def)
  moreover have "mset (map fst rs) \<subseteq># mset as" using assms \<open>p = None\<close> by (simp add: timer_ok_def)
  ultimately show ?thesis using assms by (auto simp: timer_ok_def)
qed

text \<open>Stopping, once or several times over.\<close>

lemma timer_ok_stops:
  assumes "timer_ok now (Some x) p as rs" and "w_calls n = w_calls x @ replicate k Ev_del"
    and "is_running n = (is_running x \<and> (k = 0 \<or> \<not> ok))"
  shows "timer_ok now (Some n) (fold (libevent ok now) (new_calls (Some x) (Some n)) p)
      (as @ concat (map (arms ok now) (new_calls (Some x) (Some n)))) rs"
proof -
  have "fold (libevent ok now) (replicate k Ev_del) p = (if k = 0 \<or> \<not> ok then p else None)"
    by (induction k arbitrary: p) auto
  moreover have "concat (map (arms ok now) (replicate k Ev_del)) = []" by (induction k) auto
  moreover have "mset (map fst rs) \<subseteq># mset as" using assms(1) by (rule timer_ok_runs)
  ultimately show ?thesis using assms by (auto simp: timer_ok_def)
qed

lemma timer_ok_dropped:
  fixes wo :: "'j ev_watcher option"
  assumes "timer_ok now wo p as rs"
  shows "timer_ok now (None :: 'j ev_watcher option) (fold (libevent ok now) (new_calls wo None) p)
      (as @ concat (map (arms ok now) (new_calls wo None))) rs"
proof (cases wo)
  case None
  then show ?thesis using assms by simp
next
  case (Some x)
  then show ?thesis using timer_ok_quiet [OF assms] by simp
qed

lemma timer_ok_later: "timer_ok now wo p as rs \<Longrightarrow> now \<le> now' \<Longrightarrow> timer_ok now' wo p as rs"
  by (auto simp: timer_ok_def)

section \<open>Every step keeps it\<close>

lemma stop_watcher_interval: "w_interval (stop_watcher rc x) = w_interval x"
  by (simp add: stop_watcher_def frame_simps)

lemma stop_all_calls:
  "watchers s w = Some x \<Longrightarrow> \<exists>n k. watchers (stop_all rc ws s) w = Some n \<and>
     w_calls n = w_calls x @ replicate k Ev_del \<and> is_running n = (is_running x \<and> (k = 0 \<or> rc w \<noteq> 0)) \<and>
     (w \<in> set ws \<or> w_f x = None \<longrightarrow> w_f n = None) \<and>
     (w_f n = w_f x \<or> w_f n = None) \<and> w_interval n = w_interval x"
proof (induction ws arbitrary: s x)
  case Nil
  then show ?case by (intro exI [of _ x] exI [of _ 0]) simp
next
  case (Cons v vs)
  show ?case
  proof (cases "v = w")
    case False
    then show ?thesis
      using Cons.IH [of _ x] Cons.prems by (cases "watchers s v") simp_all
  next
    case True
    let ?x = "stop_watcher (rc w) x"
    let ?s = "s\<lparr>watchers := (watchers s)(w \<mapsto> ?x)\<rparr>"
    obtain n k where n: "watchers (stop_all rc vs ?s) w = Some n" "w_calls n = w_calls ?x @ replicate k Ev_del"
      "is_running n = (is_running ?x \<and> (k = 0 \<or> rc w \<noteq> 0))" "w_f n = None"
      "w_interval n = w_interval ?x"
      using Cons.IH [of ?s ?x] by auto
    have x: "w_calls ?x = w_calls x @ (if is_running x then [Ev_del] else [])"
      by (simp add: stop_watcher_def watcher_stop_def Let_def)
    have "watchers (stop_all rc (v # vs) s) w = Some n" using True Cons.prems n(1) by simp
    then show ?thesis
      using n(2-5) x stop_watcher_interval [of "rc w" x]
      by (intro exI [of _ n] exI [of _ "if is_running x then Suc k else k"]) (auto simp: stop_watcher_running)
  qed
qed

lemma halted_watchers:
  "watchers (stop_tickers rc i s) w = watchers (stop_all rc (case tickers s i of None \<Rightarrow> [] | Some ws \<Rightarrow> ws) s) w"
  by (simp add: stop_tickers_def split: option.split)

lemma made_ops [simp]:
  "clock (stop_all rc ws s) = clock s" "runs (stop_all rc ws s) = runs s" "made (stop_all rc ws s) = made s"
  by (induction ws arbitrary: s) (auto split: option.split)

lemma loop_ops_timed [simp]:
  "clock (stop_tickers rc i s) = clock s" "runs (stop_tickers rc i s) = runs s" "made (stop_tickers rc i s) = made s"
  "clock (call_every_from w ac iv f i im fx s) = clock s" "runs (call_every_from w ac iv f i im fx s) = runs s"
  "made (call_every_from w ac iv f i im fx s) = made s"
  "clock (add_oneshot_event w ac d f s) = clock s" "runs (add_oneshot_event w ac d f s) = runs s"
  "made (add_oneshot_event w ac d f s) = made s"
  "clock (drop_watcher w s) = clock s" "runs (drop_watcher w s) = runs s" "made (drop_watcher w s) = made s"
  by (simp_all add: stop_tickers_def call_every_from_def add_oneshot_event_def make_handler_def
      clear_old_tickers_def drop_watcher_def Let_def split: option.split)

lemma created_watchers:
  "watchers (call_every_from w ac iv f i im fx s) =
     (watchers s)(w \<mapsto> call_every_init ac iv f im fx watcher_new)"
  "watchers (add_oneshot_event w ac d f s) = (watchers s)(w \<mapsto> init_event ac d f True True False watcher_new)"
  by (simp_all add: call_every_from_def add_oneshot_event_def make_handler_watchers Let_def)

lemma init_event_calls:
  "w_calls (init_event ac d f one start fixed watcher_new) =
     Ev_new 0 # (if one \<or> start then [Ev_add (loop_time_to_timeval d)] else [])"
  "is_running (init_event ac d f one start fixed watcher_new) = ((one \<or> start) \<and> ac = 0)"
  by (simp_all add: init_event_def watcher_start_def watcher_new_def Let_def)

lemma event_lambda_calls:
  obtains cs where "w_calls (fst (event_lambda run x u)) = w_calls x @ cs"
    "is_running (fst (event_lambda run x u)) = is_running x"
    "cs = [] \<or> cs = [Ev_del, Ev_add (w_interval x)]"
proof (cases "w_f x")
  case None
  then show thesis using that [of "[]"] by (simp add: event_lambda_def)
next
  case (Some f)
  show thesis
  proof (cases f)
    case (plain j)
    then show thesis
      using that [of "[]"] Some by (simp add: event_lambda_def watcher_f_def split: prod.split)
  next
    case (rearming j)
    obtain e s' where r: "run j u = (e, s')" by fastforce
    show thesis
    proof (cases e)
      case None
      then show thesis
        using that [of "[Ev_del, Ev_add (w_interval x)]"] Some rearming r
        by (simp add: event_lambda_def watcher_f_def rearm_def)
    next
      case (Some y)
      then show thesis using that [of "[]"] \<open>w_f x = Some f\<close> rearming r
        by (simp add: event_lambda_def watcher_f_def)
    qed
  qed
qed

lemma fire_ok:
  assumes "timers_ok s" and "watchers s w = Some tick" and "pending s w = Some tm" and "due tm \<le> clock s"
  shows "timers_ok (fire ok x w tick tm s)"
proof -
  let ?s1 = "s\<lparr>pending := (pending s)(w := None),
      runs := (if w_f tick = None then runs s else (runs s)(w := runs s w @ [(tm, clock s)]))\<rparr>"
  have ok: "timer_ok (clock s) (Some tick) (Some tm) (armed s w) (runs s w)"
    using timers_okD [OF assms(1), of w] assms(2,3) by simp
  then have run: "is_running tick" and m: "add_mset tm (mset (map fst (runs s w))) \<subseteq># mset (armed s w)"
    by (auto simp: timer_ok_def)
  have "mset (map fst (runs s w)) \<subseteq># mset (armed s w)"
    using m by (rule add_mset_subsetD)
  then have ok1: "timer_ok (clock s) (Some tick) None (armed s w) (runs ?s1 w)"
    using ok m assms(4) by (auto simp: timer_ok_def)
  obtain n cs where n: "fst (event_lambda (\<lambda>_ u. (x, u)) tick ()) = n" "w_calls n = w_calls tick @ cs"
    "is_running n = is_running tick" "cs = [] \<or> cs = [Ev_del, Ev_add (w_interval tick)]"
    using event_lambda_calls [of "\<lambda>_ u. (x, u)" tick "()"] by metis
  have "timers_ok (track (\<lambda>_. ok) ?s1 (?s1\<lparr>watchers := (watchers ?s1)(w \<mapsto> n)\<rparr>))"
  proof (rule timers_ok_track)
    have o: "timer_ok (clock s) (watchers s v) (pending ?s1 v) (armed s v) (runs ?s1 v)" for v
      using timers_okD [OF assms(1), of v] ok1 assms(2) by (cases "v = w") simp_all
    then show "timers_ok ?s1" by (simp add: timers_ok_def)
    show "timer_ok (clock ?s1) (watchers (?s1\<lparr>watchers := (watchers ?s1)(w \<mapsto> n)\<rparr>) v)
       (fold (libevent ok (clock ?s1)) (new_calls (watchers ?s1 v) (watchers (?s1\<lparr>watchers := (watchers ?s1)(w \<mapsto> n)\<rparr>) v)) (pending ?s1 v))
       (armed ?s1 v @ concat (map (arms ok (clock ?s1)) (new_calls (watchers ?s1 v) (watchers (?s1\<lparr>watchers := (watchers ?s1)(w \<mapsto> n)\<rparr>) v))))
       (runs ?s1 v)" for v
    proof (cases "v = w")
      case False
      then show ?thesis using o [of v] by simp
    next
      case True
      have c: "new_calls (Some tick) (Some n) = cs" using n(2) by simp
      have mm: "mset (map fst (runs ?s1 w)) \<subseteq># mset (armed s w)" using ok1 by (simp add: timer_ok_def)
      show ?thesis
        using True assms(2) ok1 n(3,4) run mm c
        by (auto simp: timer_ok_def)
    qed
  qed simp_all
  then show ?thesis by (simp add: fire_def n(1) Let_def)
qed

theorem timed_step_ok: "timed_step s s' \<Longrightarrow> timers_ok s \<Longrightarrow> timers_ok s'"
proof (induction rule: timed_step.induct)
  case (every s w rc iv f i im fx)
  have "pending s w = None"
    using timers_okD [OF every(2), of w] every(1) by (cases "pending s w") (auto simp: timer_ok_def)
  note n = timer_ok_new [OF timers_okD [OF every(2), of w] init_event_calls]
  show ?case
  proof (rule timers_ok_track [OF every(2)], goal_cases)
    case (3 v)
    then show ?case
      using n timers_okD [OF every(2), of v] every(1) \<open>pending s w = None\<close>
      by (cases "v = w") (simp_all add: created_watchers call_every_init_def)
  qed simp_all
next
  case (once s w rc delay f)
  have "pending s w = None"
    using timers_okD [OF once(2), of w] once(1) by (cases "pending s w") (auto simp: timer_ok_def)
  note n = timer_ok_new [OF timers_okD [OF once(2), of w] init_event_calls]
  show ?case
  proof (rule timers_ok_track [OF once(2)], goal_cases)
    case (3 v)
    then show ?case
      using n timers_okD [OF once(2), of v] once(1) \<open>pending s w = None\<close>
      by (cases "v = w") (simp_all add: created_watchers)
  qed simp_all
next
  case (start s w tick rc)
  show ?case
  proof (rule timers_ok_track [OF start(2)], goal_cases)
    case (3 v)
    then show ?case
      using timers_okD [OF start(2), of v] start(1) timer_ok_start by (cases "v = w") simp_all
  qed simp_all
next
  case (stop s w tick rc)
  have c: "w_calls (snd (watcher_stop rc tick)) = w_calls tick @ replicate (if is_running tick then 1 else 0) Ev_del"
    by (simp add: watcher_stop_def Let_def)
  show ?case
  proof (rule timers_ok_track [OF stop(2)], goal_cases)
    case (3 v)
    then show ?case
      using timers_okD [OF stop(2), of v] stop(1) timer_ok_stops [OF _ c, of "clock s" _ _ _ "rc = 0"]
      by (cases "v = w") (simp_all add: watcher_stop_running)
  qed simp_all
next
  case (halt s del_rc i)
  let ?ws = "case tickers s i of None \<Rightarrow> [] | Some ws \<Rightarrow> ws"
  show ?case
  proof (rule timers_ok_track [OF halt], goal_cases)
    case (3 v)
    show ?case
    proof (cases "watchers s v")
      case None
      then have "watchers (stop_tickers del_rc i s) v = None" by (simp add: halted_watchers)
      then show ?thesis using timers_okD [OF halt, of v] None by simp
    next
      case (Some x)
      obtain n k where n: "watchers (stop_all del_rc ?ws s) v = Some n" "w_calls n = w_calls x @ replicate k Ev_del"
        "is_running n = (is_running x \<and> (k = 0 \<or> \<not> del_rc v = 0))"
        using stop_all_calls [OF Some, of del_rc ?ws] by blast
      show ?thesis
        using timer_ok_stops [OF _ n(2,3)] timers_okD [OF halt, of v] Some n(1)
        by (simp add: halted_watchers)
    qed
  qed simp_all
next
  case (drop s w)
  show ?case
  proof (rule timers_ok_track [OF drop], goal_cases)
    case (3 v)
    then show ?case
      using timers_okD [OF drop, of v] timer_ok_dropped
      by (cases "v = w") (simp_all add: drop_watcher_def)
  qed simp_all
next
  case (tick dt s)
  show ?case
    unfolding timers_ok_def
  proof (intro allI)
    show "timer_ok (clock (s\<lparr>clock := clock s + dt\<rparr>)) (watchers (s\<lparr>clock := clock s + dt\<rparr>) w)
        (pending (s\<lparr>clock := clock s + dt\<rparr>) w) (armed (s\<lparr>clock := clock s + dt\<rparr>) w)
        (runs (s\<lparr>clock := clock s + dt\<rparr>) w)" for w
      using timer_ok_later [OF timers_okD [OF tick(2), of w]] tick(1) by simp
  qed
next
  case (fires s w tick tm ok x)
  then show ?case by (intro fire_ok) simp_all
qed

section \<open>One step seen from one watcher\<close>

text \<open>
  \<open>call_every\<close> and \<open>add_oneshot_event\<close> store the bare task, so a run touches no
  watcher: what is left is how one step looks from one address.
\<close>

definition bare :: "'j ev_watcher option \<Rightarrow> bool" where
  "bare wo \<longleftrightarrow> (\<forall>x f. wo = Some x \<longrightarrow> w_f x \<noteq> Some (rearming f))"

definition all_bare :: "'j timed \<Rightarrow> bool" where
  "all_bare s \<longleftrightarrow> (\<forall>w. bare (watchers s w))"

definition us_of :: "'j ev_watcher \<Rightarrow> int" where
  "us_of x = timeval_us (w_interval x)"

text \<open>An address is left alone, gets a new watcher, starts or stops it, loses it, or its event runs.\<close>

inductive at_step :: "wid \<Rightarrow> 'j timed \<Rightarrow> 'j timed \<Rightarrow> bool" for w s s' where
  same: "watchers s' w = watchers s w \<Longrightarrow> pending s' w = pending s w \<Longrightarrow> armed s' w = armed s w \<Longrightarrow>
    runs s' w = runs s w \<Longrightarrow> halted s' w = halted s w \<Longrightarrow> made s' w = made s w \<Longrightarrow> at_step w s s'"
| created: "watchers s w = None \<Longrightarrow> watchers s' w = Some n \<Longrightarrow> bare (Some n) \<Longrightarrow>
    pending s' w = (if is_running n then Some (clock s, us_of n) else None) \<Longrightarrow>
    armed s' w = armed s w @ (if is_running n then [(clock s, us_of n)] else []) \<Longrightarrow>
    runs s' w = runs s w \<Longrightarrow> halted s' w = halted s w \<Longrightarrow> made s' w = Suc (made s w) \<Longrightarrow> at_step w s s'"
| started: "watchers s w = Some x \<Longrightarrow> watchers s' w = Some n \<Longrightarrow> \<not> is_running x \<Longrightarrow>
    w_f n = w_f x \<Longrightarrow> us_of n = us_of x \<Longrightarrow>
    pending s' w = (if is_running n then Some (clock s, us_of n) else pending s w) \<Longrightarrow>
    armed s' w = armed s w @ (if is_running n then [(clock s, us_of n)] else []) \<Longrightarrow>
    runs s' w = runs s w \<Longrightarrow> halted s' w = halted s w \<Longrightarrow> made s' w = made s w \<Longrightarrow> at_step w s s'"
| stopped: "watchers s w = Some x \<Longrightarrow> watchers s' w = Some n \<Longrightarrow> w_f n = w_f x \<or> w_f n = None \<Longrightarrow> us_of n = us_of x \<Longrightarrow>
    is_running n = is_running x \<and> halted s' w = halted s w \<and> pending s' w = pending s w \<or>
      \<not> is_running n \<and> halted s w < halted s' w \<and> pending s' w = None \<Longrightarrow>
    armed s' w = armed s w \<Longrightarrow> runs s' w = runs s w \<Longrightarrow> made s' w = made s w \<Longrightarrow> at_step w s s'"
| dropped: "watchers s' w = None \<Longrightarrow> pending s' w = None \<Longrightarrow> armed s' w = armed s w \<Longrightarrow>
    runs s' w = runs s w \<Longrightarrow> halted s' w = halted s w \<Longrightarrow> made s' w = made s w \<Longrightarrow> at_step w s s'"
| fired: "watchers s w = Some x \<Longrightarrow> watchers s' w = Some x \<Longrightarrow> pending s w = Some tm \<Longrightarrow> due tm \<le> clock s \<Longrightarrow>
    pending s' w = None \<Longrightarrow> armed s' w = armed s w \<Longrightarrow>
    runs s' w = (if w_f x = None then runs s w else runs s w @ [(tm, clock s)]) \<Longrightarrow>
    halted s' w = halted s w \<Longrightarrow> made s' w = made s w \<Longrightarrow> at_step w s s'"

lemma dels_simps [simp]:
  "dels ok [] = 0" "dels ok (Ev_del # cs) = (if ok then Suc (dels ok cs) else 0)"
  "dels ok (Ev_new f # cs) = dels ok cs" "dels ok (Ev_add tv # cs) = dels ok cs" "dels ok (Ev_free # cs) = dels ok cs"
  by (simp_all add: dels_def)

lemma init_event_bare:
  "bare (Some (init_event ac d f one start False watcher_new))"
  "us_of (init_event ac d f one start fixed watcher_new) = timeval_us (loop_time_to_timeval d)"
  by (simp_all add: bare_def us_of_def init_event_def watcher_new_def Let_def frame_simps)

lemma at_created:
  assumes "watchers s w = None" and "n = init_event rc d f one start False watcher_new"
    and "watchers s1 = (watchers s)(w \<mapsto> n)" and "runs s1 = runs s" and "made s1 = (made s)(w := Suc (made s w))"
  shows "at_step v s (track (\<lambda>_. rc = 0) s s1)"
proof (cases "v = w")
  case False
  then show ?thesis using assms(3-5) by (intro at_step.same) (simp_all add: track_timer)
next
  case True
  have c: "w_calls n = Ev_new 0 # (if one \<or> start then [Ev_add (loop_time_to_timeval d)] else [])"
    "is_running n = ((one \<or> start) \<and> rc = 0)" "us_of n = timeval_us (loop_time_to_timeval d)"
    by (simp_all add: assms(2) init_event_calls init_event_bare)
  have b: "bare (Some n)" by (simp add: assms(2) init_event_bare)
  show ?thesis
    using True assms(1,3-5) c b
    by (intro at_step.created [of s v _ n]) (simp_all add: track_timer)
qed

lemma timed_step_at:
  assumes "timed_step s s'" and "all_bare s"
  shows "at_step v s s'"
  using assms
proof (induction rule: timed_step.induct)
  case (every s w rc iv f i im fx)
  then show ?case
    by (intro at_created [of s w _ rc iv f im fx])
      (simp_all add: created_watchers call_every_init_def renew_def)
next
  case (once s w rc delay f)
  then show ?case
    by (intro at_created [of s w _ rc delay f True True]) (simp_all add: created_watchers renew_def)
next
  case (start s w tick rc)
  show ?case
  proof (cases "v = w \<and> \<not> is_running tick")
    case False
    then show ?thesis using start(1)
      by (intro at_step.same) (auto simp: track_timer watcher_start_def)
  next
    case True
    then show ?thesis using start(1)
      by (intro at_step.started [of s v tick _ "snd (watcher_start rc tick)"])
        (simp_all add: track_timer watcher_start_def us_of_def Let_def)
  qed
next
  case (stop s w tick rc)
  show ?case
  proof (cases "v = w \<and> is_running tick")
    case False
    then show ?thesis using stop(1)
      by (intro at_step.same) (auto simp: track_timer watcher_stop_def)
  next
    case True
    then show ?thesis using stop(1)
      by (intro at_step.stopped [of s v tick _ "snd (watcher_stop rc tick)"])
        (simp_all add: track_timer watcher_stop_def us_of_def Let_def)
  qed
next
  case (halt s del_rc i)
  let ?ws = "case tickers s i of None \<Rightarrow> [] | Some ws \<Rightarrow> ws"
  show ?case
  proof (cases "watchers s v")
    case None
    then have n: "watchers (stop_all del_rc ?ws s) v = None" by simp
    show ?thesis by (intro at_step.same) (simp_all add: track_timer halted_watchers n None)
  next
    case (Some x)
    obtain n k where n: "watchers (stop_all del_rc ?ws s) v = Some n" "w_calls n = w_calls x @ replicate k Ev_del"
      "is_running n = (is_running x \<and> (k = 0 \<or> del_rc v \<noteq> 0))" "w_f n = w_f x \<or> w_f n = None"
      "w_interval n = w_interval x"
      using stop_all_calls [OF Some, of del_rc ?ws] by blast
    let ?s = "track (\<lambda>w. del_rc w = 0) s (stop_tickers del_rc i s)"
    have w: "watchers ?s v = Some n" by (simp add: halted_watchers n(1))
    have c: "new_calls (watchers s v) (watchers (stop_tickers del_rc i s) v) = replicate k Ev_del"
      by (simp add: halted_watchers Some n(1,2))
    have k: "fold (libevent ok now) (replicate k Ev_del) p = (if k = 0 \<or> \<not> ok then p else None)"
      "dels ok (replicate k Ev_del) = (if ok then k else 0)"
      "concat (map (arms ok now) (replicate k Ev_del)) = []" for ok now p
      by (induction k arbitrary: p) auto
    have t: "pending ?s v = (if k = 0 \<or> del_rc v \<noteq> 0 then pending s v else None)" "armed ?s v = armed s v"
      "halted ?s v = halted s v + (if del_rc v = 0 then k else 0)" "runs ?s v = runs s v" "made ?s v = made s v"
      by (simp_all add: track_timer c k del: fold_replicate)
    show ?thesis
    proof (rule at_step.stopped [OF Some w n(4) _ _ t(2,4,5)])
      show "us_of n = us_of x" using n(5) by (simp add: us_of_def)
      show "is_running n = is_running x \<and> halted ?s v = halted s v \<and> pending ?s v = pending s v \<or>
          \<not> is_running n \<and> halted s v < halted ?s v \<and> pending ?s v = None"
        using t(1,3) n(3) by (cases "k = 0 \<or> del_rc v \<noteq> 0") auto
    qed
  qed
next
  case (drop s w)
  show ?case
  proof (cases "v = w \<and> watchers s w \<noteq> None")
    case False
    then show ?thesis by (intro at_step.same) (auto simp: track_timer drop_watcher_def)
  next
    case True
    then show ?thesis by (intro at_step.dropped) (auto simp: track_timer drop_watcher_def)
  qed
next
  case (tick dt s)
  then show ?case by (intro at_step.same) simp_all
next
  case (fires s w tick tm ok x)
  have "w_f tick \<noteq> Some (rearming f)" for f
    using fires(1,4) by (auto simp: all_bare_def bare_def)
  then have e: "fst (event_lambda (\<lambda>_ u. (x, u)) tick ()) = tick"
    by (cases "w_f tick"; cases "the (w_f tick)") (simp_all add: event_lambda_def watcher_f_def)
  show ?case
  proof (cases "v = w")
    case False
    then show ?thesis by (intro at_step.same) (simp_all add: fire_def e track_timer Let_def)
  next
    case True
    then show ?thesis using fires(1-3)
      by (intro at_step.fired [of s v tick _ tm]) (simp_all add: fire_def e track_timer Let_def)
  qed
qed

lemma at_step_bare:
  assumes "at_step w s s'" and "bare (watchers s w)"
  shows "bare (watchers s' w)"
  using assms by cases (auto simp: bare_def)

lemma timed_step_bare:
  assumes "timed_step s s'" and "all_bare s"
  shows "all_bare s'"
  unfolding all_bare_def
proof
  show "bare (watchers s' w)" for w
    using at_step_bare [OF timed_step_at [OF assms]] assms(2) by (simp add: all_bare_def)
qed

lemma timed_step_clock: "timed_step s s' \<Longrightarrow> clock s \<le> clock s'"
  by (induction rule: timed_step.induct) (simp_all add: fire_def Let_def)

text \<open>The armings an address can account for: one per watcher made there and one per effective stop.\<close>

definition in_budget :: "'j timed \<Rightarrow> wid \<Rightarrow> bool" where
  "in_budget s w \<longleftrightarrow>
     length (armed s w) + (case watchers s w of None \<Rightarrow> 0 | Some x \<Rightarrow> if is_running x then 0 else 1)
       \<le> made s w + halted s w"

lemma at_step_budget:
  assumes "at_step w s s'" and "in_budget s w"
  shows "in_budget s' w"
  using assms
proof cases
  case (stopped x n)
  then show ?thesis using assms(2) by (cases "is_running x"; cases "is_running n") (auto simp: in_budget_def)
next
  case dropped
  then show ?thesis using assms(2) by (simp add: in_budget_def)
next
  case (started x n)
  then show ?thesis using assms(2) by (simp add: in_budget_def)
qed (simp_all add: in_budget_def)

section \<open>Reachable states\<close>

abbreviation timed_run :: "'j timed \<Rightarrow> 'j timed \<Rightarrow> bool" where
  "timed_run \<equiv> timed_step\<^sup>*\<^sup>*"

definition timed_inv :: "'j timed \<Rightarrow> bool" where
  "timed_inv s \<longleftrightarrow> timers_ok s \<and> all_bare s \<and> (\<forall>w. in_budget s w)"

lemma timed_inv_step: "timed_step s s' \<Longrightarrow> timed_inv s \<Longrightarrow> timed_inv s'"
  using timed_step_ok timed_step_bare at_step_budget timed_step_at unfolding timed_inv_def by metis

lemma timed_inv_run: "timed_run s s' \<Longrightarrow> timed_inv s \<Longrightarrow> timed_inv s'"
  by (induction rule: rtranclp_induct) (auto intro: timed_inv_step)

lemma timed_inv_start: "timed_inv (timed_start t now)"
  by (simp add: timed_inv_def timed_start_def timers_ok_def timer_ok_def all_bare_def bare_def in_budget_def)

text \<open>
  A run from a state where every step keeps \<open>P\<close> at one address until the address is
  used for a new watcher.
\<close>

lemma made_mono: "timed_run s s' \<Longrightarrow> timed_inv s \<Longrightarrow> made s w \<le> made s' w"
proof (induction rule: rtranclp_induct)
  case (step s1 s2)
  have "at_step w s1 s2"
    using step timed_inv_run timed_step_at by (metis timed_inv_def)
  then have "made s1 w \<le> made s2 w" by cases simp_all
  then show ?case using step by simp
qed simp

lemma run_same_watcher:
  assumes "timed_run s s'" and "timed_inv s" and "P s" and "made s' w = made s w"
    and step: "\<And>s1 s2. at_step w s1 s2 \<Longrightarrow> clock s1 \<le> clock s2 \<Longrightarrow> made s2 w = made s1 w \<Longrightarrow> P s1 \<Longrightarrow> P s2"
  shows "P s'"
  using assms(1,4)
proof (induction rule: rtranclp_induct)
  case base
  then show ?case using assms(3) by simp
next
  case (step s1 s2)
  have i: "timed_inv s1" using step(1) assms(2) by (rule timed_inv_run)
  have "made s w \<le> made s1 w" "made s1 w \<le> made s2 w"
    using made_mono [OF step(1) assms(2)] made_mono [OF r_into_rtranclp [of timed_step, OF step(2)] i] by simp_all
  then have m: "made s1 w = made s w" "made s2 w = made s1 w" using step(4) by simp_all
  show ?case
    using assms(5) [OF timed_step_at [OF step(2)] timed_step_clock [OF step(2)] m(2)] step(3) m(1) i
    by (simp add: timed_inv_def)
qed

text \<open>
  As long as the address keeps its watcher, nothing runs there before \<open>d\<close> when neither
  the pending event nor one added from now (\<open>c\<close>) on is due before.
\<close>

lemma runs_not_before:
  assumes "timed_run s1 s2" and "timed_inv s1" and "made s2 w = made s1 w" and "c \<le> clock s1"
    and "\<And>tm. pending s1 w = Some tm \<Longrightarrow> d < due tm"
    and "\<And>x. watchers s1 w = Some x \<Longrightarrow> d < c + 1000 * us_of x"
  shows "\<exists>new. runs s2 w = runs s1 w @ new \<and> (\<forall>(tm, at) \<in> set new. d < at \<and> c \<le> at)"
proof -
  let ?P = "\<lambda>u. (\<exists>new. runs u w = runs s1 w @ new \<and> (\<forall>(tm, at) \<in> set new. d < at \<and> c \<le> at)) \<and>
      (\<forall>tm. pending u w = Some tm \<longrightarrow> d < due tm) \<and>
      (\<forall>x. watchers u w = Some x \<longrightarrow> d < c + 1000 * us_of x) \<and> c \<le> clock u"
  have "?P s2"
  proof (rule run_same_watcher [where P = ?P, OF assms(1,2) _ assms(3)])
    show "?P s1" using assms(4-6) by simp
    fix u v assume st: "at_step w u v" "clock u \<le> clock v" "made v w = made u w" and p: "?P u"
    show "?P v"
      using st(1)
    proof cases
      case (fired x tm)
      then show ?thesis using p st(2) by (cases "w_f x") (auto simp: case_prod_beta)
    next
      case (started x n)
      then have "d < due (clock u, us_of n)" using p by (auto simp: due_def)
      then show ?thesis using started p st(2) by auto
    next
      case (stopped x n)
      then show ?thesis using p st(2) by auto
    qed (use p st(2,3) in auto)
  qed
  then show ?thesis by blast
qed

section \<open>Properties\<close>

text \<open>
  C8. Whatever the sequence of \<open>call_every\<close>, \<open>call_later\<close>, \<open>start\<close>, \<open>stop\<close>,
  \<open>stop_tickers\<close> and releases: the runs of an address's tasks are among the times its
  event was added, each addition runs at most once and none before it is due; there are
  at most as many runs as watchers made there and effective stops, so a repeating call
  that nobody stops and starts again runs once; and a pending event belongs to a watcher
  that says it runs.
\<close>

theorem timers_exact:
  assumes "timed_run (timed_start t now) s"
  shows "mset (map fst (runs s w)) \<subseteq># mset (armed s w) \<and>
         (\<forall>(tm, at) \<in> set (runs s w). due tm \<le> at) \<and>
         length (runs s w) \<le> made s w + halted s w \<and>
         (pending s w \<noteq> None \<longrightarrow> (\<exists>x. watchers s w = Some x \<and> is_running x))"
proof -
  have i: "timed_inv s" using assms timed_inv_start by (rule timed_inv_run)
  then have t: "timer_ok (clock s) (watchers s w) (pending s w) (armed s w) (runs s w)" and b: "in_budget s w"
    by (simp_all add: timed_inv_def timers_ok_def)
  note m = timer_ok_runs [OF t]
  have "length (runs s w) \<le> length (armed s w)" using size_mset_mono [OF m] by simp
  then have "length (runs s w) \<le> made s w + halted s w"
    using b by (simp add: in_budget_def)
  then show ?thesis using t m by (auto simp: timer_ok_def)
qed

text \<open>A repeating call of 500 us that has fired at 700 us.\<close>

definition timed1 :: "unit timed" where
  "timed1 = track (\<lambda>_. (0::int) = 0) (timed_start 1 0)
     (renew 7 (call_every_from 7 0 500 () 3 True False (timed_start 1 0)))"

definition timed2 :: "unit timed" where
  "timed2 = timed1\<lparr>clock := clock timed1 + 700000\<rparr>"

definition timed3 :: "unit timed" where
  "timed3 = fire True None 7 (the (watchers timed2 7)) (0, 500) timed2"

lemma loop_time_500: "loop_time_to_timeval 500 = \<lparr>tv_sec = 0, tv_usec = 500\<rparr>"
  by (simp add: loop_time_to_timeval_def c_div_def c_mod_def)

lemma timed1_fields:
  "watchers timed1 7 = Some (call_every_init 0 500 () True False watcher_new)"
  "tickers timed1 3 = Some [7]" "pending timed1 7 = Some (0, 500)" "clock timed1 = 0"
  "runs timed1 7 = []" "armed timed1 7 = [(0, 500)]" "made timed1 7 = 1" "halted timed1 7 = 0"
  "watchers timed2 = watchers timed1" "pending timed2 = pending timed1"
  by (simp_all add: timed1_def timed2_def track_def renew_def timed_start_def created_watchers call_every_init_def
      init_event_calls Let_def loop_time_500 timeval_us_def call_every_from_def make_handler_tickers
      make_handler_def clear_old_tickers_def)

lemma timed_runs:
  "timed_run (timed_start 1 0) timed1" "timed_run (timed_start 1 0) timed3" "timed_run timed1 timed3"
proof -
  have 1: "timed_step (timed_start 1 0) timed1"
    unfolding timed1_def by (rule every) (simp add: timed_start_def)
  have 2: "timed_step timed1 timed2" unfolding timed2_def by (rule tick) simp
  have 3: "timed_step timed2 timed3"
    unfolding timed3_def by (rule fires) (simp_all add: timed1_fields timed2_def due_def)
  show "timed_run (timed_start 1 0) timed1" using 1 by blast
  show "timed_run timed1 timed3" using 2 3 by (meson converse_rtranclp_into_rtranclp rtranclp.rtrancl_refl)
  then show "timed_run (timed_start 1 0) timed3" using 1 by (meson converse_rtranclp_into_rtranclp)
qed

theorem timers_exact_witness:
  "runs timed3 7 = [((0, 500), 700000)] \<and>
   mset (map fst (runs timed3 7)) \<subseteq># mset (armed timed3 7)"
proof -
  have "runs timed3 7 = [((0, 500), 700000)]"
    by (simp add: timed3_def fire_def Let_def timed1_fields timed2_def call_every_init_def init_event_def frame_simps)
  then show ?thesis using timers_exact [OF timed_runs(2), of 7] by blast
qed

text \<open>
  C23. After \<open>stop_tickers\<close> no task of the caller's tickers runs any more, even when
  libevent refused to take an event off and even when the ticker is started again.
\<close>

theorem stopped_tickers_silent:
  assumes "timed_run (timed_start t now) s" and "tickers s i = Some ws" and "w \<in> set ws"
    and "s1 = track (\<lambda>v. del_rc v = 0) s (stop_tickers del_rc i s)"
    and "timed_run s1 s2" and "made s2 w = made s w"
  shows "runs s2 w = runs s w"
proof -
  have "timed_step s s1" unfolding assms(4) by (rule halt)
  then have i: "timed_inv s1" using timed_inv_run [OF assms(1) timed_inv_start] by (rule timed_inv_step)
  have 0: "runs s1 w = runs s w \<and> (\<forall>x. watchers s1 w = Some x \<longrightarrow> w_f x = None)"
    using stop_all_cleared [of w ws s del_rc] assms(2-4) by (simp add: stop_tickers_def)
  have "runs s2 w = runs s w \<and> (\<forall>x. watchers s2 w = Some x \<longrightarrow> w_f x = None)"
  proof (rule run_same_watcher [where P = "\<lambda>u. runs u w = runs s w \<and> (\<forall>x. watchers u w = Some x \<longrightarrow> w_f x = None)",
        OF assms(5) i 0])
    show "made s2 w = made s1 w" using assms(4,6) by simp
    fix u v assume "at_step w u v" "made v w = made u w"
      and p: "runs u w = runs s w \<and> (\<forall>x. watchers u w = Some x \<longrightarrow> w_f x = None)"
    then show "runs v w = runs s w \<and> (\<forall>x. watchers v w = Some x \<longrightarrow> w_f x = None)"
      by cases auto
  qed
  then show ?thesis by blast
qed

theorem stopped_tickers_silent_witness:
  "let s1 = track (\<lambda>_. False) timed1 (stop_tickers (\<lambda>_. 5) 3 timed1) in
   runs (s1\<lparr>clock := clock s1 + 700000\<rparr>) 7 = runs timed1 7"
proof -
  let ?s1 = "track (\<lambda>v. (5::int) = 0) timed1 (stop_tickers (\<lambda>_. 5) 3 timed1)"
  have "timed_run ?s1 (?s1\<lparr>clock := clock ?s1 + 700000\<rparr>)"
    by (rule r_into_rtranclp, rule tick) simp
  from stopped_tickers_silent [OF timed_runs(1) timed1_fields(2) _ refl this, of 7] show ?thesis
    by (simp add: Let_def)
qed

text \<open>
  C28. A hook delayed with \<open>call_later\<close> from another thread at \<open>s0\<close>, whose job runs at
  \<open>s\<close>, before the target time: the event is added for a time at most one microsecond
  before the target and not after it, and as long as no other watcher gets its address
  the hook runs more than \<open>delay - 1\<close> microseconds after the call, not before.
\<close>

theorem delayed_call_on_time:
  assumes "timed_run (timed_start t now) s0" and "timed_run s0 s" and "watchers s w = None"
    and "target = later_target (get_time s0) delay" and "get_time s < target"
    and "s1 = track (\<lambda>_. rc = 0) s (renew w (snd (run_later run w rc (get_time s) hook rel target s)))"
    and "timed_run s1 s2" and "made s2 w = made s1 w"
  shows "(rc = 0 \<longrightarrow> (\<exists>tm. pending s1 w = Some tm \<and> target - 1000 < due tm \<and> due tm \<le> target)) \<and>
         (\<exists>new. runs s2 w = runs s w @ new \<and>
            (\<forall>(tm, at) \<in> set new. clock s0 + 1000 * (delay - 1) < at \<and> clock s \<le> at))"
proof -
  obtain us where us: "later_decision target (clock s) = Some us" "0 \<le> us"
      "clock s + us * 1000 \<le> target" "target < clock s + us * 1000 + 1000"
    using later_decision_exact [of "clock s" target] assms(5) by (auto simp: get_time_def)
  let ?n = "init_event rc us rel True True False watcher_new"
  have s1: "s1 = track (\<lambda>_. rc = 0) s (renew w (add_oneshot_event w rc us rel s))"
    using us(1) by (simp add: assms(6) run_later_def get_time_def)
  then have "timed_step s s1" using assms(3) by (simp add: once)
  moreover have "timed_run (timed_start t now) s" using assms(1,2) by (rule rtranclp_trans)
  ultimately have i: "timed_inv s1" using timed_inv_run [OF _ timed_inv_start] timed_inv_step by blast
  have tv: "timeval_us (loop_time_to_timeval us) = us"
    using timeval_exact [of us] by (simp add: timeval_us_def)
  have w1: "watchers s1 w = Some ?n" "pending s1 w = (if rc = 0 then Some (clock s, us) else pending s1 w)"
    "runs s1 w = runs s w" "clock s1 = clock s"
    by (simp_all add: s1 created_watchers track_timer assms(3) init_event_calls tv)
  have p1: "pending s1 w = Some tm \<Longrightarrow> tm = (clock s, us)" for tm
    using w1(2) timers_okD [of s1 w] i w1(1)
    by (cases "rc = 0") (auto simp: timed_inv_def timer_ok_def init_event_calls)
  have "\<exists>new. runs s2 w = runs s1 w @ new \<and> (\<forall>(tm, at) \<in> set new. target - 1000 < at \<and> clock s \<le> at)"
  proof (rule runs_not_before [OF assms(7) i assms(8)])
    show "clock s \<le> clock s1" using w1(4) by simp
    show "target - 1000 < due tm" if "pending s1 w = Some tm" for tm
      using p1 [OF that] us(4) by (simp add: due_def)
    show "target - 1000 < clock s + 1000 * us_of x" if "watchers s1 w = Some x" for x
      using that w1(1) us(4) by (auto simp: init_event_bare tv)
  qed
  moreover have "target - 1000 = clock s0 + 1000 * (delay - 1)"
    by (simp add: assms(4) later_target_def get_time_def algebra_simps)
  ultimately show ?thesis using w1(2,3) us by (auto simp: due_def)
qed

definition later1 :: "unit timed" where
  "later1 = track (\<lambda>_. (0::int) = 0) (timed_start 1 0)
     (renew 7 (snd (run_later (\<lambda>_ s. (None, s)) 7 0 (get_time (timed_start 1 0 :: unit timed)) () () 5000 (timed_start 1 0))))"

definition later2 :: "unit timed" where
  "later2 = later1\<lparr>clock := clock later1 + 6000\<rparr>"

definition later3 :: "unit timed" where
  "later3 = fire True None 7 (the (watchers later2 7)) (0, 5) later2"

lemma timed_start_fields [simp]:
  "clock (timed_start t n) = n" "watchers (timed_start t n) = Map.empty" "runs (timed_start t n) = (\<lambda>_. [])"
  "made (timed_start t n) = (\<lambda>_. 0)"
  by (simp_all add: timed_start_def)

lemma later1_eq:
  "later1 = track (\<lambda>_. (0::int) = 0) (timed_start 1 0) (renew 7 (add_oneshot_event 7 0 5 () (timed_start 1 0)))"
proof -
  have "later_decision 5000 0 = Some 5" by (simp add: later_decision_def c_div_def)
  then show ?thesis unfolding later1_def run_later_def get_time_def by simp
qed

lemma later_fields:
  "watchers later2 7 = Some (init_event 0 5 () True True False watcher_new)" "pending later2 7 = Some (0, 5)"
  "clock later2 = 6000" "runs later2 7 = []" "made later2 7 = 1" "made later1 7 = 1"
  by (simp_all add: later2_def later1_eq created_watchers track_timer init_event_calls timeval_us_def
      loop_time_to_timeval_def c_div_def c_mod_def) (simp_all add: renew_def)

lemma later3_runs: "runs later3 7 = [((0, 5), 6000)]" "made later3 7 = 1"
  by (simp_all add: later3_def fire_def Let_def later_fields init_event_def frame_simps)

theorem delayed_call_on_time_witness:
  "runs later3 7 = [((0, 5), 6000)] \<and>
   (\<exists>new. runs later3 7 = [] @ new \<and> (\<forall>(tm, at) \<in> set new. 0 + 1000 * (5 - 1) < at \<and> 0 \<le> at))"
proof -
  have t: "(5000::int) = later_target (get_time (timed_start 1 0 :: unit timed)) 5"
    by (simp add: later_target_def get_time_def)
  have 2: "timed_step later1 later2" unfolding later2_def by (rule tick) simp
  have 3: "timed_step later2 later3"
    unfolding later3_def by (rule fires) (simp_all add: later_fields due_def)
  have run: "timed_run later1 later3"
    using 2 3 by (meson converse_rtranclp_into_rtranclp rtranclp.rtrancl_refl)
  have m: "made later3 7 = made later1 7" by (simp add: later_fields later3_runs)
  have lt: "get_time (timed_start 1 0 :: unit timed) < 5000" by (simp add: get_time_def)
  have w: "watchers (timed_start 1 0 :: unit timed) 7 = None" by simp
  from delayed_call_on_time [OF rtranclp.rtrancl_refl rtranclp.rtrancl_refl w t lt later1_def run m]
  show ?thesis using later3_runs(1) by simp
qed

end
