(* ===== verification/Failures.thy ===== *)
theory Failures
  imports Endpoint_Props
begin

text \<open>
  What the program says when a call of the system or of a library fails:
  \<open>detail::current_error\<close> (\<open>src/internal.hpp\<close>) over the two places where errors are kept,
  \<open>errno\<close> and OpenSSL's queue of the thread, and the set-up of a node's socket
  (\<open>src/node.cpp\<close>) when it fails.
\<close>

section \<open>The text of an error\<close>

record errors =
  errno_value :: int
  ssl_errors :: "u64 list" \<comment> \<open>OpenSSL's queue, oldest first\<close>

text \<open>\<open>ERR_get_error\<close> takes the oldest entry out; an empty queue gives 0.\<close>

definition ERR_get_error :: "errors \<Rightarrow> u64 \<times> errors" where
  "ERR_get_error s = (case ssl_errors s of [] \<Rightarrow> (0, s) | e # es \<Rightarrow> (e, s\<lparr>ssl_errors := es\<rparr>))"

definition current_error :: "(u64 \<Rightarrow> string) \<Rightarrow> errors \<Rightarrow> string \<times> errors" where
  "current_error ERR_error_string s = apfst ERR_error_string (ERR_get_error s)"

text \<open>The places whose exception asks for it, with what else they print.\<close>

datatype site =
    Ssl_ctx | X509_paths | Verify_paths                    \<comment> \<open>\<open>src/context.cpp\<close>\<close>
  | Dns_nonblock | Dns_bind | Dns_port                     \<comment> \<open>\<open>src/dns.cpp\<close>\<close>
  | Listener_name string | Listener_ssl                    \<comment> \<open>\<open>src/listener.cpp\<close>; the port\<close>
  | Node_nonblock | Node_socket | Node_bind | Node_ssl     \<comment> \<open>\<open>src/node.cpp\<close>\<close>
  | Inbound_bev | Inbound_nodelay | Inbound_name string    \<comment> \<open>\<open>src/session.cpp\<close>; the remote\<close>
  | Outbound_bev | Outbound_connect | Outbound_nodelay | Outbound_name string \<comment> \<open>the host\<close>

fun site_text :: "site \<Rightarrow> string" where
  "site_text Ssl_ctx = ''Failed to create SSL context: ''"
| "site_text X509_paths = ''Call to X509_STORE_set_default_paths failed: ''"
| "site_text Verify_paths = ''Call to SSL_CTX_set_default_verify_paths failed: ''"
| "site_text Dns_nonblock = ''Failed to non-block UDP socket: ''"
| "site_text Dns_bind = ''DNS server failed to bind UDP port: ''"
| "site_text Dns_port = ''DNS server failed to add UDP port: ''"
| "site_text (Listener_name port) =
     ''Failed to get local socket address for tcp listener on port '' @ port @ '': ''"
| "site_text Listener_ssl = ''Failed to create SSL/TLS: ''"
| "site_text Node_nonblock = ''Failed to non-block outbound node socket: ''"
| "site_text Node_socket = ''Could not create socket for outbound node: ''"
| "site_text Node_bind = ''Outbound node failed to bind socket: ''"
| "site_text Node_ssl = ''Failed to create SSL/TLS for inbound: ''"
| "site_text Inbound_bev = ''Failed to create bufferevent socket for inbound TLS session: ''"
| "site_text Inbound_nodelay = ''Failed to set TCP_NODELAY on inbound session TLS socket: ''"
| "site_text (Inbound_name remote) =
     ''Failed to get local socket address for incoming (remote: '' @ remote @ ''): ''"
| "site_text Outbound_bev = ''Failed to create bufferevent socket for outbound TLS session: ''"
| "site_text Outbound_connect = ''Could not connect to remote host: ''"
| "site_text Outbound_nodelay = ''Failed to set TCP_NODELAY on outbound session TLS socket: ''"
| "site_text (Outbound_name host) =
     ''Failed to get local socket address for outbound (host: '' @ host @ ''): ''"

text \<open>Two of them print \<open>errno\<close> as well.\<close>

fun errno_tail :: "(int \<Rightarrow> string) \<Rightarrow> site \<Rightarrow> int \<Rightarrow> string" where
  "errno_tail show_int (Inbound_name remote) e = '', '' @ show_int e"
| "errno_tail show_int (Outbound_name host) e = '', '' @ show_int e"
| "errno_tail show_int _ e = []"

definition thrown_text :: "(u64 \<Rightarrow> string) \<Rightarrow> (int \<Rightarrow> string) \<Rightarrow> site \<Rightarrow> errors \<Rightarrow> string \<times> errors" where
  "thrown_text err_string show_int x s =
     (let (e, s') = current_error err_string s
      in (site_text x @ e @ errno_tail show_int x (errno_value s'), s'))"

text \<open>
  What failed: a call of OpenSSL, which queues its reasons, or one of the C library or of
  libevent, which sets \<open>errno\<close>.
\<close>

datatype failure = Errno int | Openssl "u64 list"

fun fail_with :: "failure \<Rightarrow> errors \<Rightarrow> errors" where
  "fail_with (Errno e) s = s\<lparr>errno_value := e\<rparr>"
| "fail_with (Openssl es) s = s\<lparr>ssl_errors := ssl_errors s @ es\<rparr>"

fun report_all :: "(u64 \<Rightarrow> string) \<Rightarrow> (int \<Rightarrow> string) \<Rightarrow> (site \<times> failure) list \<Rightarrow> errors \<Rightarrow> string list" where
  "report_all err_string show_int [] s = []"
| "report_all err_string show_int ((x, f) # rest) s =
     (let (m, s') = thrown_text err_string show_int x (fail_with f s)
      in m # report_all err_string show_int rest s')"

section \<open>Lemmas\<close>

lemma current_error_eq:
  "current_error es s =
     (case ssl_errors s of [] \<Rightarrow> (es 0, s) | e # q \<Rightarrow> (es e, s\<lparr>ssl_errors := q\<rparr>))"
  by (simp add: current_error_def ERR_get_error_def split: list.split)

lemma thrown_text_eq:
  "fst (thrown_text es sh x s) =
     site_text x @ es (case ssl_errors s of [] \<Rightarrow> 0 | e # q \<Rightarrow> e) @ errno_tail sh x (errno_value s)"
  "ssl_errors (snd (thrown_text es sh x s)) = tl (ssl_errors s)"
  "errno_value (snd (thrown_text es sh x s)) = errno_value s"
  by (simp_all add: thrown_text_def current_error_eq Let_def split: list.split)

lemma fail_with_fields:
  "ssl_errors (fail_with f s) = ssl_errors s @ (case f of Errno e \<Rightarrow> [] | Openssl es \<Rightarrow> es)"
  "errno_value (fail_with f s) = (case f of Errno e \<Rightarrow> e | Openssl es \<Rightarrow> errno_value s)"
  by (cases f; simp)+

lemma tail_sites: "errno_tail sh x e = (if \<exists>a. x \<in> {Inbound_name a, Outbound_name a} then '', '' @ sh e else [])"
  by (cases x) auto

section \<open>Properties\<close>

text \<open>
  C37. What the exceptions report is the oldest entry of OpenSSL's queue, whatever failed.
  Where a call of the C library failed, the text is that of an error left over from earlier,
  which the report takes out of the queue, or that of no error at all; \<open>errno\<close> follows it at
  the two places where a session asks for its local address, and nowhere else does it show,
  so that elsewhere two failures with different \<open>errno\<close> read the same. One left-over error
  makes every later report lag: of a series of OpenSSL failures with one reason each, the
  reports take the reasons from the front of what was left over, followed by theirs.
\<close>

theorem reported_errors:
  "fst (thrown_text es sh x (fail_with (Errno e) s)) =
     site_text x @ es (case ssl_errors s of [] \<Rightarrow> 0 | old # _ \<Rightarrow> old) @
     (if \<exists>a. x \<in> {Inbound_name a, Outbound_name a} then '', '' @ sh e else []) \<and>
   ssl_errors (snd (thrown_text es sh x (fail_with (Errno e) s))) = tl (ssl_errors s) \<and>
   (fst (thrown_text es sh x (fail_with (Errno e) s)) = fst (thrown_text es sh x (fail_with (Errno e') s))) =
     (if \<exists>a. x \<in> {Inbound_name a, Outbound_name a} then sh e = sh e' else True) \<and>
   report_all es sh (map (\<lambda>(y, r). (y, Openssl [r])) fs) s =
     map2 (\<lambda>y r. site_text y @ es r @ errno_tail sh y (errno_value s)) (map fst fs)
       (take (length fs) (ssl_errors s @ map snd fs))"
proof (intro conjI)
  show "report_all es sh (map (\<lambda>(y, r). (y, Openssl [r])) fs) s =
     map2 (\<lambda>y r. site_text y @ es r @ errno_tail sh y (errno_value s)) (map fst fs)
       (take (length fs) (ssl_errors s @ map snd fs))"
  proof (induction fs arbitrary: s)
    case (Cons f fs)
    obtain y r where f: "f = (y, r)" by fastforce
    let ?t = "thrown_text es sh y (fail_with (Openssl [r]) s)"
    have "report_all es sh (map (\<lambda>(y, r). (y, Openssl [r])) (f # fs)) s =
        fst ?t # report_all es sh (map (\<lambda>(y, r). (y, Openssl [r])) fs) (snd ?t)"
      by (simp add: f case_prod_beta Let_def)
    then show ?case
      unfolding Cons.IH by (cases "ssl_errors s") (simp_all add: f thrown_text_eq fail_with_fields)
  qed simp
qed (auto simp: thrown_text_eq fail_with_fields tail_sites)

text \<open>
  The socket of a node with a local address. A socket that could not be created is
  reported as one that could not be made non-blocking, since that is tried first; the
  message meant for it is never thrown. When binding fails the exception leaves the
  constructor with the new descriptor open and nobody to close it.
\<close>

theorem node_socket_failures:
  assumes "in_event_loop t w" and "\<And>fd. fd < 0 \<Longrightarrow> set_nonblocking lib fd < 0"
    and "node_init_internals lib t (Some a) w = (r, w')"
  shows "case r of
     Inl x \<Rightarrow> (if sys_socket lib < 0
               then x = runtime_error ''Failed to non-block outbound node socket'' \<and> w' = w
               else w' = fd_open (sys_socket lib) w \<and> sys_socket lib \<in> open_fds w') \<and>
              x \<noteq> runtime_error ''Could not create socket for outbound node'' \<and>
              node_make lib t u (Some a) w = (Inl x, w')
   | Inr fd \<Rightarrow> fd = sys_socket lib \<and> 0 \<le> fd \<and> w' = fd_open fd w"
proof -
  have acc: "get_ipv4 a = Inl x \<Longrightarrow> x = bad_variant_access" "get_ipv6 a = Inl y \<Longrightarrow> y = bad_variant_access" for x y
    by (auto simp: get_ipv4_def get_ipv6_def split: ip_v.splits)
  have mk: "node_make lib t u (Some a) w = (Inl x, w')" if "r = Inl x" for x
    using assms(3) that by (simp add: node_make_def)
  show ?thesis
  proof (cases "sys_socket lib < 0")
    case True
    then have "node_init_internals lib t (Some a) w =
        (Inl (runtime_error ''Failed to non-block outbound node socket''), w)"
      using assms(1) assms(2) [OF True] by (simp add: node_init_internals_def world_in_loop_def Let_def)
    then show ?thesis using assms(3) mk True by auto
  next
    case False
    have o: "sys_socket lib \<in> open_fds (fd_open (sys_socket lib) w)" by (simp add: fd_open_def)
    show ?thesis
      using assms(1,3) mk False o acc
      by (cases r)
        (auto simp: node_init_internals_def world_in_loop_def Let_def ip_to_in_addr_def ip_to_in6_addr_def
          bind_result_def split: if_splits sum.splits)
  qed
qed

theorem node_socket_failures_witness:
  "let lib = toy_ep_lib\<lparr>set_nonblocking := (\<lambda>fd. if fd < 0 then - 1 else 0), sys_bind := (\<lambda>_ _. - 1)\<rparr> in
   open_fds toy_world = {3, 5, 6} \<and>
   open_fds (snd (node_make lib 7 uri_default (Some (ip_address_of_port 9)) toy_world)) = {3, 5, 6, 9}"
proof -
  let ?lib = "toy_ep_lib\<lparr>set_nonblocking := (\<lambda>fd. if fd < 0 then - 1 else 0), sys_bind := (\<lambda>_ _. - 1)\<rparr>"
  have n: "set_nonblocking ?lib fd < 0" if "fd < 0" for fd using that by simp
  obtain x w' where r: "node_init_internals ?lib 7 (Some (ip_address_of_port 9)) toy_world = (Inl x, w')"
    using toy_world_in_loop
    by (auto simp: node_init_internals_def world_in_loop_def toy_ep_lib_def Let_def ip_to_in_addr_def get_ipv4_def
        ip_address_of_port_def)
  have f: "open_fds toy_world = {3, 5, 6}" by (simp add: toy_world_def)
  have "sys_socket ?lib = 9" by (simp add: toy_ep_lib_def)
  then have "w' = fd_open 9 toy_world" "node_make ?lib 7 uri_default (Some (ip_address_of_port 9)) toy_world = (Inl x, w')"
    using node_socket_failures [OF toy_world_in_loop n r, of uri_default] by simp_all
  then show ?thesis using f by (auto simp: Let_def fd_open_def)
qed

end
