(* ===== verification/Socket_Names.thy ===== *)
theory Socket_Names
  imports Address
begin

text \<open>
  The name of a socket, byte by byte: \<open>getsockname\<close> into the \<open>sockaddr\<close> on the stack with
  the length variable that nothing initialises (\<open>src/session.cpp\<close>, \<open>src/listener.cpp\<close>),
  and the casts through which the constructor of \<open>ip_address\<close> reads it
  (\<open>src/address.cpp\<close>). The length found on the stack is a parameter.
\<close>

section \<open>Socket addresses in memory\<close>

definition AF_INET :: u16 where [const_defs]: "AF_INET = 2"
definition AF_INET6 :: u16 where [const_defs]: "AF_INET6 = 10"

text \<open>16 bytes for IPv4, 28 for IPv6, as the system lays them out.\<close>

fun sockaddr_bytes :: "bool \<Rightarrow> sockaddr \<Rightarrow> byte list" where
  "sockaddr_bytes be (sockaddr_in a p) =
     mem_bytes be 2 AF_INET @ mem_bytes be 2 p @ mem_bytes be 4 (s_addr a) @ replicate 8 0"
| "sockaddr_bytes be (sockaddr_in6 a p) =
     mem_bytes be 2 AF_INET6 @ mem_bytes be 2 p @ replicate 4 0 @ a @ replicate 4 0"
| "sockaddr_bytes be (sockaddr_other f) = mem_bytes be 2 (of_int f :: u16) @ replicate 14 0"

text \<open>
  The system call: a length that is negative as a signed integer is refused; otherwise as much of the name is
  written as the length allows. Writing beyond the object is out of bounds.
\<close>

definition getsockname_into :: "byte list option \<Rightarrow> u32 \<Rightarrow> byte list \<Rightarrow> (int \<times> byte list) result" where
  "getsockname_into name len buf =
     (case name of
        None \<Rightarrow> Inr (- 1, buf)
      | Some bs \<Rightarrow>
          if 2 ^ 31 \<le> unat len then Inr (- 1, buf)
          else let n = min (unat len) (length bs) in
               if length buf < n then Inl out_of_bounds else Inr (0, take n bs @ drop n buf))"

text \<open>The constructor reads the family, then casts to the structure of that family.\<close>

definition sockaddr_at :: "bool \<Rightarrow> byte list \<Rightarrow> sockaddr result" where
  "sockaddr_at be buf =
     (let sa_family = of_mem_bytes be (take 2 buf) :: u16 in
      if sa_family = AF_INET
      then Inr (sockaddr_in \<lparr>s_addr = of_mem_bytes be (take 4 (drop 4 buf))\<rparr> (of_mem_bytes be (take 2 (drop 2 buf))))
      else if sa_family = AF_INET6
      then (if length buf < 24 then Inl out_of_bounds
            else Inr (sockaddr_in6 (take 16 (drop 8 buf)) (of_mem_bytes be (take 2 (drop 2 buf)))))
      else Inr (sockaddr_other (uint sa_family)))"

text \<open>
  The lines that end in \<open>_path._local = ip_address{&_laddr}\<close>: \<open>_laddr\<close> starts as 16 zero
  bytes, \<open>len\<close> is whatever the stack held.
\<close>

definition local_name :: "bool \<Rightarrow> exn \<Rightarrow> u32 \<Rightarrow> byte list option \<Rightarrow> ip_address result" where
  "local_name be failed len name =
     bind_result (getsockname_into name len (replicate 16 0)) (\<lambda>(rc, laddr).
       if rc < 0 then Inl failed
       else bind_result (sockaddr_at be laddr) (ip_address_of_sockaddr be))"

section \<open>Lemmas\<close>

lemma mem_bytes_stored [simp]:
  "of_mem_bytes be (mem_bytes be 2 (x :: u16)) = x" "of_mem_bytes be (mem_bytes be 4 (y :: u32)) = y"
  by (simp_all add: of_mem_bytes_mem_bytes)

lemma mem_bytes_zero: "of_mem_bytes be (replicate n 0) = (0 :: 'a::len word)"
proof -
  have "of_le_bytes (replicate n 0) = (0 :: 'a word)" by (induction n) simp_all
  then show ?thesis by (simp add: of_mem_bytes_def)
qed

lemma families: "AF_INET \<noteq> 0" "AF_INET6 \<noteq> 0" "AF_INET6 \<noteq> AF_INET"
  by (simp_all add: const_defs)

text \<open>What is in the object after the call, for a name of at least 16 bytes.\<close>

lemma after_call:
  assumes "unat len < 2 ^ 31" and "length name = 16"
  shows "getsockname_into (Some name) len (replicate 16 0) =
           Inr (0, take (unat len) name @ replicate (16 - min (unat len) 16) 0)"
  using assms by (simp add: getsockname_into_def Let_def min_def)

lemma after_call_6:
  assumes "unat len < 2 ^ 31" and "length name = 28"
  shows "getsockname_into (Some name) len (replicate 16 0) =
           (if 16 < unat len then Inl out_of_bounds else Inr (0, take (unat len) name @ replicate (16 - unat len) 0))"
  using assms by (simp add: getsockname_into_def Let_def min_def)

lemma sockaddr_at_in:
  "sockaddr_at be (mem_bytes be 2 AF_INET @ mem_bytes be 2 p @ mem_bytes be 4 (s_addr a) @ rest) = Inr (sockaddr_in a p)"
  by (simp add: sockaddr_at_def)

lemma sockaddr_at_in6:
  "take 2 buf = mem_bytes be 2 AF_INET6 \<Longrightarrow> length buf < 24 \<Longrightarrow> sockaddr_at be buf = Inl out_of_bounds"
  using families by (simp add: sockaddr_at_def)

lemma take_name:
  assumes "8 \<le> n" and "length xs = 8"
  shows "take n (xs @ replicate 8 (0::byte)) @ replicate (16 - min n 16) 0 = xs @ replicate 8 0"
  using assms by (simp add: take_replicate replicate_add [symmetric] min_def) arith

section \<open>Properties\<close>

text \<open>
  C24. The local address a session or listener learns depends on the uninitialised
  length. For an IPv4 socket it is the socket's own name when the length happens to be
  at least 8 and below 2^31; with a length of 4 it is the port of 0.0.0.0, with 0 the
  constructor throws, and from 2^31 on the call fails. For an IPv6 socket every length of
  at least 2 for which the call succeeds leads outside the 16 bytes of the object.
\<close>

theorem local_name_by_chance:
  assumes "length a6 = 16"
  shows "(8 \<le> unat len \<and> unat len < 2 ^ 31 \<longrightarrow>
            local_name be failed len (Some (sockaddr_bytes be (sockaddr_in a p))) =
              ip_address_of_sockaddr be (sockaddr_in a p)) \<and>
         (unat len = 4 \<longrightarrow>
            local_name be failed len (Some (sockaddr_bytes be (sockaddr_in a p))) =
              ip_address_of_sockaddr be (sockaddr_in \<lparr>s_addr = 0\<rparr> p)) \<and>
         (len = 0 \<longrightarrow>
            local_name be failed len (Some (sockaddr_bytes be (sockaddr_in a p))) =
              Inl (runtime_error ''Failed to understand incoming address sa_family'')) \<and>
         (2 ^ 31 \<le> unat len \<longrightarrow> local_name be failed len name = Inl failed) \<and>
         (2 \<le> unat len \<and> unat len < 2 ^ 31 \<longrightarrow>
            local_name be failed len (Some (sockaddr_bytes be (sockaddr_in6 a6 p))) = Inl out_of_bounds)"
proof (intro conjI impI)
  let ?n4 = "sockaddr_bytes be (sockaddr_in a p)"
  let ?h = "mem_bytes be 2 AF_INET @ mem_bytes be 2 p @ mem_bytes be 4 (s_addr a)"
  have n4: "?n4 = ?h @ replicate 8 0" by simp
  have l4: "length ?n4 = 16" by simp
  show "local_name be failed len (Some ?n4) = ip_address_of_sockaddr be (sockaddr_in a p)"
    if "8 \<le> unat len \<and> unat len < 2 ^ 31"
  proof -
    have "take (unat len) ?n4 @ replicate (16 - min (unat len) 16) 0 = ?h @ replicate 8 0"
      unfolding n4 using that by (intro take_name) simp_all
    then show ?thesis
      using after_call [of len ?n4] that l4 sockaddr_at_in [of be p a "replicate 8 0"] by (simp add: local_name_def)
  qed
  show "local_name be failed len (Some ?n4) = ip_address_of_sockaddr be (sockaddr_in \<lparr>s_addr = 0\<rparr> p)"
    if "unat len = 4"
    using after_call [of len ?n4] that l4
    by (simp add: local_name_def sockaddr_at_def take_replicate mem_bytes_zero)
  show "local_name be failed len (Some ?n4) = Inl (runtime_error ''Failed to understand incoming address sa_family'')"
    if "len = 0"
    using after_call [of len ?n4] that l4 families
    by (simp add: local_name_def sockaddr_at_def take_replicate mem_bytes_zero ip_address_of_sockaddr_def Let_def)
  show "local_name be failed len name = Inl failed" if "2 ^ 31 \<le> unat len"
    using that by (simp add: local_name_def getsockname_into_def split: option.split)
  show "local_name be failed len (Some (sockaddr_bytes be (sockaddr_in6 a6 p))) = Inl out_of_bounds"
    if "2 \<le> unat len \<and> unat len < 2 ^ 31"
  proof (cases "16 < unat len")
    case True
    then show ?thesis using after_call_6 [of len "sockaddr_bytes be (sockaddr_in6 a6 p)"] that assms
      by (simp add: local_name_def)
  next
    case False
    let ?buf = "take (unat len) (sockaddr_bytes be (sockaddr_in6 a6 p)) @ replicate (16 - unat len) 0"
    have "take 2 ?buf = mem_bytes be 2 AF_INET6" "length ?buf < 24" using that False assms by simp_all
    then have "sockaddr_at be ?buf = Inl out_of_bounds" by (rule sockaddr_at_in6)
    then show ?thesis using after_call_6 [of len "sockaddr_bytes be (sockaddr_in6 a6 p)"] that False assms
      by (simp add: local_name_def)
  qed
qed

theorem local_name_by_chance_witness:
  "local_name False assert_failed 28 (Some (sockaddr_bytes False (sockaddr_in6 (replicate 16 1) 443))) = Inl out_of_bounds"
  using local_name_by_chance [of "replicate 16 1" 28 False assert_failed "\<lparr>s_addr = 0\<rparr>" 443 None] by simp

end
