(* ===== verification/Log_Registry.thy ===== *)
theory Log_Registry
  imports Log_Calls
begin

text \<open>
  The life of \<open>Logger\<close> objects (\<open>src/format.cpp\<close>): construction, the two function-local
  statics, destruction, over spdlog's registry of logger names. spdlog as documented: a
  factory registers the name of the logger it makes and throws when the name is taken;
  \<open>spdlog::shutdown\<close> drops every name.
\<close>

section \<open>State\<close>

record log_process =
  reg_names :: "string set"           \<comment> \<open>spdlog's registry\<close>
  log_objs :: "nat \<rightharpoonup> Logger"          \<comment> \<open>the live \<open>Logger\<close> objects by address\<close>
  static_logger :: "nat option"       \<comment> \<open>\<open>l\<close> of \<open>make_logger\<close>\<close>
  static_sink :: "nat option"         \<comment> \<open>\<open>s\<close> of \<open>make_sink\<close>\<close>

definition log_process_start :: log_process where
  "log_process_start =
     \<lparr>reg_names = {}, log_objs = Map.empty, static_logger = None, static_sink = None\<rparr>"

definition logger_name :: string where "logger_name = ''wshttp''"

definition err_name_taken :: exn where
  "err_name_taken = runtime_error ''logger with name 'wshttp' already exists''"

section \<open>Operations\<close>

text \<open>\<open>stderr_color_mt\<close> and \<open>stdout_color_mt\<close>, up to the logger they return.\<close>

definition spd_register :: "string \<Rightarrow> (log_process, unit) comp" where
  "spd_register n s =
     (if n \<in> reg_names s then (Inl err_name_taken, s) else (Inr (), s\<lparr>reg_names := insert n (reg_names s)\<rparr>))"

text \<open>
  The constructor on a new object at \<open>a\<close>. An exception leaves no object and runs no
  destructor.
\<close>

definition construct_logger :: "nat \<Rightarrow> string \<Rightarrow> string \<Rightarrow> (log_process, unit) comp" where
  "construct_logger a snk lvl =
     thenc (if snk = ''stderr'' \<or> snk = ''stdout'' then spd_register logger_name else returnc ())
    (case logger_construct snk lvl of
       (Inl e, _) \<Rightarrow> throwc e
     | (Inr _, l) \<Rightarrow> modifyc (\<lambda>s. s\<lparr>log_objs := (log_objs s)(a \<mapsto> l)\<rparr>))"

definition destroy_logger :: "nat \<Rightarrow> log_process \<Rightarrow> log_process" where
  "destroy_logger a s = s\<lparr>reg_names := {}, log_objs := (log_objs s)(a := None)\<rparr>"

definition make_logger_at :: "nat \<Rightarrow> (log_process, nat) comp" where
  "make_logger_at a s =
     (case static_logger s of
        Some l \<Rightarrow> (Inr l, s)
      | None \<Rightarrow>
          (case construct_logger a ''stderr'' ''trace'' s of
             (Inl e, s') \<Rightarrow> (Inl e, s')
           | (Inr _, s') \<Rightarrow> (Inr a, s'\<lparr>static_logger := Some a\<rparr>)))"

definition make_sink :: "nat \<Rightarrow> (log_process, nat) comp" where
  "make_sink a s =
     (case static_sink s of
        Some x \<Rightarrow> (Inr x, s)
      | None \<Rightarrow> (Inr a, s\<lparr>static_sink := Some a\<rparr>))"

text \<open>The two globals of \<open>format.cpp\<close>, in the order they are initialised.\<close>

definition static_init :: "nat \<Rightarrow> nat \<Rightarrow> (log_process, unit) comp" where
  "static_init a b = bindc (make_logger_at a) (\<lambda>_. bindc (make_sink b) (\<lambda>_. returnc ()))"

section \<open>Runs\<close>

datatype log_op = Construct nat string string | Destroy nat | Make_logger nat | Make_sink nat

text \<open>
  A construction uses an unused address; only a live object is destroyed, and not the
  one the static still owns.
\<close>

definition allowed :: "log_op \<Rightarrow> log_process \<Rightarrow> bool" where
  "allowed x s \<longleftrightarrow>
     (case x of
        Construct a snk lvl \<Rightarrow> log_objs s a = None \<and> (snk = ''stderr'' \<or> snk = ''stdout'')
      | Destroy a \<Rightarrow> log_objs s a \<noteq> None \<and> static_logger s \<noteq> Some a
      | Make_logger a \<Rightarrow> log_objs s a = None
      | Make_sink b \<Rightarrow> True)"

fun log_do :: "log_op \<Rightarrow> log_process \<Rightarrow> exn option \<times> log_process" where
  "log_do (Construct a snk lvl) s =
     (case construct_logger a snk lvl s of (Inl e, s') \<Rightarrow> (Some e, s') | (Inr _, s') \<Rightarrow> (None, s'))"
| "log_do (Destroy a) s = (None, destroy_logger a s)"
| "log_do (Make_logger a) s =
     (case make_logger_at a s of (Inl e, s') \<Rightarrow> (Some e, s') | (Inr _, s') \<Rightarrow> (None, s'))"
| "log_do (Make_sink b) s =
     (case make_sink b s of (Inl e, s') \<Rightarrow> (Some e, s') | (Inr _, s') \<Rightarrow> (None, s'))"

inductive log_steps :: "log_process \<Rightarrow> log_process \<Rightarrow> bool" for s where
  refl: "log_steps s s"
| step: "log_steps s t \<Longrightarrow> allowed x t \<Longrightarrow> log_steps s (snd (log_do x t))"

section \<open>Lemmas\<close>

lemma logger_construct_eq:
  "snk = ''stderr'' \<or> snk = ''stdout'' \<Longrightarrow>
     fst (logger_construct snk lvl) = (case translate_level lvl of Inl e \<Rightarrow> Inl e | Inr v \<Rightarrow> Inr ())"
  by (auto simp: logger_construct_def logger_init_def thenc_def spd_logger_new_def split: sum.split)

lemma construct_logger_eq:
  assumes "snk = ''stderr'' \<or> snk = ''stdout''"
  shows "construct_logger a snk lvl s =
    (if logger_name \<in> reg_names s then (Inl err_name_taken, s)
     else (case translate_level lvl of
             Inl e \<Rightarrow> (Inl e, s\<lparr>reg_names := insert logger_name (reg_names s)\<rparr>)
           | Inr v \<Rightarrow> (Inr (), s\<lparr>reg_names := insert logger_name (reg_names s),
                                 log_objs := (log_objs s)(a \<mapsto> snd (logger_construct snk lvl))\<rparr>)))"
proof -
  obtain r l where rl: "logger_construct snk lvl = (r, l)" by fastforce
  then have "r = (case translate_level lvl of Inl e \<Rightarrow> Inl e | Inr v \<Rightarrow> Inr ())"
    using logger_construct_eq [OF assms, of lvl] by simp
  then show ?thesis
    using assms rl by (cases "translate_level lvl") (simp_all add: construct_logger_def thenc_def bindc_def spd_register_def)
qed

lemma trace_level: "translate_level ''trace'' = Inr trace"
  by (simp add: translate_level_def)

text \<open>At most one live object, whose name is registered, and the static owns a live one.\<close>

definition log_inv :: "log_process \<Rightarrow> bool" where
  "log_inv s \<longleftrightarrow>
     (\<forall>a b. log_objs s a \<noteq> None \<longrightarrow> log_objs s b \<noteq> None \<longrightarrow> a = b) \<and>
     (\<forall>a. log_objs s a \<noteq> None \<longrightarrow> reg_names s = {logger_name}) \<and>
     (\<forall>a. static_logger s = Some a \<longrightarrow> log_objs s a \<noteq> None) \<and> reg_names s \<subseteq> {logger_name}"

lemma log_inv_construct:
  "log_inv s \<Longrightarrow> snk = ''stderr'' \<or> snk = ''stdout'' \<Longrightarrow> log_inv (snd (construct_logger a snk lvl s))"
  by (auto simp: construct_logger_eq log_inv_def split: sum.split)

lemma log_inv_do:
  assumes "log_inv s" and "allowed x s"
  shows "log_inv (snd (log_do x s))"
proof (cases x)
  case (Construct a snk lvl)
  then show ?thesis
    using log_inv_construct [OF assms(1), of snk a lvl] assms(2)
    by (auto simp: allowed_def split: prod.split sum.split)
next
  case (Destroy a)
  then show ?thesis using assms by (auto simp: allowed_def destroy_logger_def log_inv_def)
next
  case (Make_logger a)
  have i: "log_inv (snd (construct_logger a ''stderr'' ''trace'' s))"
    by (rule log_inv_construct [OF assms(1)]) simp
  have "construct_logger a ''stderr'' ''trace'' s = (Inr u, s') \<Longrightarrow> log_objs s' a \<noteq> None" for u s'
    by (auto simp: construct_logger_eq trace_level split: if_splits)
  then show ?thesis
    using Make_logger assms(1) i
    by (auto simp: make_logger_at_def log_inv_def split: option.split prod.split sum.split)
next
  case (Make_sink b)
  then show ?thesis using assms(1) by (auto simp: make_sink_def log_inv_def split: option.split)
qed

lemma log_inv_steps: "log_steps s t \<Longrightarrow> log_inv s \<Longrightarrow> log_inv t"
  by (induction rule: log_steps.induct) (auto intro: log_inv_do)

lemma log_inv_start: "log_inv log_process_start"
  by (simp add: log_inv_def log_process_start_def)

section \<open>Properties\<close>

text \<open>
  However loggers are made and destroyed, at most one \<open>Logger\<close> is alive; with the
  globals initialised that is the global one, and every other construction throws.
\<close>

theorem one_logger_alive:
  assumes "log_steps log_process_start s"
  shows "(log_objs s a \<noteq> None \<and> log_objs s b \<noteq> None \<longrightarrow> a = b) \<and>
         (static_logger s = Some a \<and> (snk = ''stderr'' \<or> snk = ''stdout'') \<longrightarrow>
            construct_logger b snk lvl s = (Inl err_name_taken, s))"
  using log_inv_steps [OF assms log_inv_start]
  by (auto simp: log_inv_def construct_logger_eq)

text \<open>
  A level name the constructor refuses takes the logger's name for good: the name is
  registered before the level is read, the exception leaves nothing whose destructor
  would drop it, and whatever is tried afterwards, no logger is ever alive and every
  construction throws, also with a good level.
\<close>

theorem refused_level_blocks_name:
  assumes "snk = ''stderr'' \<or> snk = ''stdout''" and "map_of level_names lvl = None"
    and "log_steps (snd (construct_logger a snk lvl log_process_start)) s"
  shows "fst (construct_logger a snk lvl log_process_start) = Inl (invalid_argument bad_level_msg) \<and>
         log_objs s = Map.empty \<and>
         (\<forall>b good. fst (construct_logger b ''stderr'' good s) = Inl err_name_taken \<and>
                   fst (make_logger_at b s) = Inl err_name_taken)"
proof -
  let ?t = "snd (construct_logger a snk lvl log_process_start)"
  have c: "construct_logger a snk lvl log_process_start =
      (Inl (invalid_argument bad_level_msg), log_process_start\<lparr>reg_names := {logger_name}\<rparr>)"
    using assms(1,2) by (simp add: construct_logger_eq translate_level_map_of log_process_start_def)
  have "log_objs s = Map.empty \<and> reg_names s = {logger_name} \<and> static_logger s = None"
    using assms(3)
  proof (induction rule: log_steps.induct)
    case refl
    then show ?case by (simp add: c) (simp add: log_process_start_def)
  next
    case (step t x)
    then show ?case
      by (cases x) (auto simp: allowed_def construct_logger_eq make_logger_at_def make_sink_def split: option.split)
  qed
  then show ?thesis by (simp add: c construct_logger_eq make_logger_at_def)
qed

theorem refused_level_blocks_name_witness:
  "fst (construct_logger 2 ''stderr'' ''err''
     (snd (construct_logger 1 ''stderr'' ''error'' log_process_start))) = Inl err_name_taken"
proof -
  have "map_of level_names ''error'' = None" by (simp add: level_names_def)
  from refused_level_blocks_name [OF _ this log_steps.refl, of "''stderr''" 1] show ?thesis by simp
qed

text \<open>
  The dist sink is made once and nothing connects it with the logger: after the static
  initialisation the logger writes to the sink its own factory made.
\<close>

theorem sink_unconnected:
  "\<exists>s l p. static_init a b log_process_start = (Inr (), s) \<and> static_sink s = Some b \<and>
     static_logger s = Some a \<and> log_objs s a = Some l \<and> logger_ptr l = Some p \<and>
     sink_kind p = stderr_sink \<and> log_level p = trace \<and> make_sink c s = (Inr b, s) \<and> make_logger_at c s = (Inr a, s)"
  by (simp add: static_init_def bindc_def make_logger_at_def construct_logger_eq trace_level make_sink_def
      log_process_start_def logger_construct_def logger_init_def thenc_def spd_logger_new_def)

end
