(* ===== verification/Concepts.thy ===== *)
theory Concepts
  imports Encoding Spans
begin

text \<open>
  The constraints on template arguments (\<open>include/wshttp/concepts.hpp\<close>,
  \<open>cspan_compatible\<close> of \<open>types.hpp\<close>, the static assertion of \<open>endpoint.hpp\<close>) as
  decidable predicates on the C++ types the code names. What the standard says of those
  types (sizes, integral types, contiguous ranges, conversions) is written out.
\<close>

section \<open>Types\<close>

datatype cpp_type =
    T_bool | T_char | T_schar | T_uchar | T_byte
  | T_int nat bool            \<comment> \<open>size in bytes, signed\<close>
  | T_double
  | T_class string            \<comment> \<open>a class by its name\<close>
  | T_const cpp_type | T_ref cpp_type | T_ptr cpp_type
  | T_array cpp_type nat | T_vector cpp_type | T_list cpp_type | T_string cpp_type
  | T_view cpp_type           \<comment> \<open>\<open>std::basic_string_view\<close>\<close>
  | T_span cpp_type           \<comment> \<open>\<open>const_span\<close>\<close>
  | T_shared cpp_type         \<comment> \<open>\<open>std::shared_ptr\<close>\<close>

fun remove_cvref :: "cpp_type \<Rightarrow> cpp_type" where
  "remove_cvref (T_ref (T_const t)) = t"
| "remove_cvref (T_ref t) = t"
| "remove_cvref (T_const t) = t"
| "remove_cvref t = t"

fun integral :: "cpp_type \<Rightarrow> bool" where
  "integral T_bool = True"
| "integral T_char = True"
| "integral T_schar = True"
| "integral T_uchar = True"
| "integral (T_int n s) = True"
| "integral (T_const t) = integral t"
| "integral _ = False"

text \<open>Only the sizes the constraints ask for: those of the types of one object.\<close>

fun sizeof :: "cpp_type \<Rightarrow> nat option" where
  "sizeof T_bool = Some 1"
| "sizeof T_char = Some 1"
| "sizeof T_schar = Some 1"
| "sizeof T_uchar = Some 1"
| "sizeof T_byte = Some 1"
| "sizeof (T_int n s) = Some n"
| "sizeof T_double = Some 8"
| "sizeof (T_const t) = sizeof t"
| "sizeof (T_ref t) = sizeof t"
| "sizeof (T_ptr t) = Some 8"
| "sizeof _ = None"

text \<open>A range whose elements lie side by side, with their type.\<close>

fun range_value :: "cpp_type \<Rightarrow> cpp_type option" where
  "range_value (T_array t n) = Some (remove_cvref t)"
| "range_value (T_vector t) = (if t = T_bool then None else Some t)"
| "range_value (T_string t) = Some t"
| "range_value (T_view t) = Some t"
| "range_value (T_span t) = Some (remove_cvref t)"
| "range_value (T_const t) = range_value t"
| "range_value (T_ref t) = range_value t"
| "range_value _ = None"

section \<open>The concepts\<close>

definition basic_char :: "cpp_type \<Rightarrow> bool" where
  "basic_char c \<longleftrightarrow> sizeof c = Some 1 \<and> c \<noteq> T_bool \<and> (integral c \<or> c = T_byte)"

definition const_contiguous_range_t :: "cpp_type \<Rightarrow> cpp_type \<Rightarrow> bool" where
  "const_contiguous_range_t r t \<longleftrightarrow> range_value (T_const r) = Some (remove_cvref t)"

text \<open>Conversions to a view of \<open>c\<close>: from the view, the string and a pointer to characters.\<close>

fun converts_to_view :: "cpp_type \<Rightarrow> cpp_type \<Rightarrow> bool" where
  "converts_to_view (T_view d) c = (d = c)"
| "converts_to_view (T_string d) c = (d = c)"
| "converts_to_view (T_ptr d) c = (remove_cvref d = c)"
| "converts_to_view (T_const t) c = converts_to_view t c"
| "converts_to_view (T_ref t) c = converts_to_view t c"
| "converts_to_view _ c = False"

definition string_view_compatible :: "cpp_type \<Rightarrow> bool" where
  "string_view_compatible t \<longleftrightarrow>
     converts_to_view t T_char \<or> converts_to_view t T_uchar \<or> converts_to_view t T_byte"

text \<open>A span of const elements is made from any contiguous range of those elements.\<close>

definition cspan_compatible :: "cpp_type \<Rightarrow> bool" where
  "cspan_compatible t \<longleftrightarrow>
     range_value t = Some T_char \<or> range_value t = Some T_uchar \<or> range_value t = Some T_byte"

text \<open>The classes that declare the flag; each has a \<open>to_string\<close> returning a string.\<close>

definition formattable_classes :: "string list" where
  "formattable_classes = [''ipv4'', ''ipv6'', ''ip_address'', ''path'', ''buffer_printer'']"

fun to_string_formattable :: "cpp_type \<Rightarrow> bool" where
  "to_string_formattable (T_class c) = (c \<in> set formattable_classes)"
| "to_string_formattable (T_span t) = True"
| "to_string_formattable _ = False"

definition ip_type :: "cpp_type \<Rightarrow> bool" where
  "ip_type t \<longleftrightarrow> t = T_class ''ipv4'' \<or> t = T_class ''ipv6''"

text \<open>The direct base of each class of the program that has one.\<close>

definition base_class :: "string \<rightharpoonup> string" where
  "base_class = [''inbound_session'' \<mapsto> ''session_base'', ''outbound_session'' \<mapsto> ''session_base'',
                 ''startup_elapsed_flag'' \<mapsto> ''custom_flag_formatter'']"

definition derived_from :: "cpp_type \<Rightarrow> cpp_type \<Rightarrow> bool" where
  "derived_from t b \<longleftrightarrow> (case (t, b) of
     (T_class c, T_class d) \<Rightarrow> c = d \<or> base_class c = Some d | _ \<Rightarrow> False)"

definition session_type :: "cpp_type \<Rightarrow> bool" where
  "session_type t \<longleftrightarrow> derived_from t (T_class ''session_base'')"

definition endian_swappable_type :: "cpp_type \<Rightarrow> bool" where
  "endian_swappable_type t \<longleftrightarrow> integral t \<and>
     (sizeof t = Some 1 \<or> sizeof t = Some 2 \<or> sizeof t = Some 4 \<or> sizeof t = Some 8)"

definition nghttp2_session_type :: "cpp_type \<Rightarrow> bool" where
  "nghttp2_session_type t \<longleftrightarrow> t = T_class ''nghttp2_session''"

definition nghttp2_nv_type :: "cpp_type \<Rightarrow> bool" where
  "nghttp2_nv_type t \<longleftrightarrow> t = T_class ''nghttp2_nv''"

definition nghttp2_settings_type :: "cpp_type \<Rightarrow> bool" where
  "nghttp2_settings_type t \<longleftrightarrow> t = T_class ''nghttp2_settings_entry''"

definition dns_base :: "cpp_type \<Rightarrow> bool" where
  "dns_base t \<longleftrightarrow> t = T_class ''evdns_base''"

section \<open>The options of an endpoint\<close>

text \<open>\<open>require_ssl_creds\<close>: the arguments that convert to a shared pointer to credentials.\<close>

definition require_ssl_creds :: "cpp_type list \<Rightarrow> bool" where
  "require_ssl_creds opts \<longleftrightarrow>
     sum_list (map (\<lambda>t. if remove_cvref t = T_shared (T_class ''ssl_creds'') then 1 else (0::nat)) opts) = 1"

text \<open>\<open>handle_ep_opt\<close> has one overload, with one parameter.\<close>

definition handle_ep_opt_accepts :: "cpp_type list \<Rightarrow> bool" where
  "handle_ep_opt_accepts opts \<longleftrightarrow>
     (case opts of [t] \<Rightarrow> remove_cvref t = T_shared (T_class ''ssl_creds'') | _ \<Rightarrow> False)"

text \<open>\<open>endpoint::make\<close> compiles when both the assertion and, for a non-empty pack, the call do.\<close>

definition endpoint_make_compiles :: "cpp_type list \<Rightarrow> bool" where
  "endpoint_make_compiles opts \<longleftrightarrow> require_ssl_creds opts \<and> (opts \<noteq> [] \<longrightarrow> handle_ep_opt_accepts opts)"

lemma endpoint_options:
  "endpoint_make_compiles opts \<longleftrightarrow> (\<exists>t. opts = [t] \<and> remove_cvref t = T_shared (T_class ''ssl_creds''))"
  unfolding endpoint_make_compiles_def require_ssl_creds_def handle_ep_opt_accepts_def
  by (cases opts; cases "tl opts") auto

section \<open>The instances the code makes\<close>

text \<open>
  The types at which the program uses the byte order functions, the literals, the
  conversion operators, the address constructors and the session lookups.
\<close>

definition swapped_types :: "cpp_type list" where
  "swapped_types = [T_uchar, T_int 2 False, T_int 4 False]"

definition literal_types :: "cpp_type list" where
  "literal_types = [T_char, T_uchar, T_byte]"

theorem instances_meet_constraints:
  "list_all endian_swappable_type swapped_types \<and> list_all basic_char literal_types \<and>
   list_all ip_type [T_class ''ipv4'', T_class ''ipv6''] \<and>
   list_all session_type [T_class ''session_base'', T_class ''inbound_session'', T_class ''outbound_session''] \<and>
   list_all (\<lambda>c. const_contiguous_range_t (T_span (T_const c)) (T_const c)) literal_types \<and>
   list_all (\<lambda>c. cspan_compatible (T_span (T_const c)) \<and> to_string_formattable (T_span (T_const c))) literal_types"
  by (simp add: swapped_types_def literal_types_def endian_swappable_type_def basic_char_def ip_type_def
      session_type_def derived_from_def base_class_def const_contiguous_range_t_def cspan_compatible_def)

text \<open>
  A span compares only with a range of its own element type: one of \<open>unsigned char\<close>
  does not compare with a \<open>std::string\<close>.
\<close>

theorem span_comparison_typed:
  "const_contiguous_range_t r (T_const c) \<longleftrightarrow> range_value r = Some c"
  by (simp add: const_contiguous_range_t_def)

end
