(* ===== verification/Printer_Views.thy ===== *)
theory Printer_Views
  imports Concepts Buffer_Printer
begin

text \<open>
  The constructors of \<open>buffer_printer\<close> (\<open>src/internal.hpp\<close>). A printer holds a view,
  the address and length of bytes it does not own; the bytes live in a store, and a
  container that owns its bytes takes them along when it goes.
\<close>

section \<open>The store\<close>

type_synonym store = "nat \<rightharpoonup> byte list" \<comment> \<open>the live buffers by address\<close>

type_synonym view = "nat \<times> nat" \<comment> \<open>data and size\<close>

definition read_view :: "store \<Rightarrow> view \<Rightarrow> byte list result" where
  "read_view m v =
     (case m (fst v) of
        None \<Rightarrow> Inl use_after_free
      | Some bs \<Rightarrow> if snd v \<le> length bs then Inr (take (snd v) bs) else Inl out_of_bounds)"

text \<open>
  An argument: a view or span by value, or a container that owns the bytes at its
  address.
\<close>

record cpp_arg =
  arg_type :: cpp_type
  arg_data :: nat
  arg_size :: nat

definition owning :: "cpp_type \<Rightarrow> bool" where
  "owning t \<longleftrightarrow> (case t of T_vector _ \<Rightarrow> True | T_string _ \<Rightarrow> True | T_array _ _ \<Rightarrow> True | _ \<Rightarrow> False)"

section \<open>The constructors\<close>

definition printer_of_view :: "cpp_arg \<Rightarrow> view" where
  "printer_of_view b = (arg_data b, arg_size b)"

definition printer_of_string :: "cpp_arg \<Rightarrow> view" where
  "printer_of_string b = printer_of_view b"

definition printer_of_pair :: "nat \<Rightarrow> nat \<Rightarrow> view" where
  "printer_of_pair data len = (data, len)"

text \<open>
  The general form takes its argument by value: a container is copied to a new
  address (\<open>fresh\<close>), the view is of the copy, and the copy is destroyed when the
  constructor returns. A view is copied without its bytes.
\<close>

definition printer_of_any :: "nat \<Rightarrow> cpp_arg \<Rightarrow> store \<Rightarrow> view \<times> store" where
  "printer_of_any fresh b m =
     (let buf = (if owning (arg_type b) then b\<lparr>arg_data := fresh\<rparr> else b);
          m1 = (if owning (arg_type b) then m(fresh := m (arg_data b)) else m);
          p = printer_of_pair (arg_data buf) (arg_size buf)
      in (p, if owning (arg_type b) then m1(fresh := None) else m1))"

text \<open>
  Which constructor the call \<open>buffer_printer{x}\<close> takes, for an lvalue or a temporary: the
  most specialised of those whose constraint holds. \<open>None\<close>: the call does not compile; for
  a temporary string the constructor that would be taken is deleted.
\<close>

datatype ctor = Ctor_view | Ctor_string | Ctor_any

fun chosen_ctor :: "bool \<Rightarrow> cpp_type \<Rightarrow> ctor option" where
  "chosen_ctor temporary (T_view c) = (if basic_char c then Some Ctor_view else None)"
| "chosen_ctor temporary (T_string c) = (if basic_char c \<and> \<not> temporary then Some Ctor_string else None)"
| "chosen_ctor temporary t = (if cspan_compatible t \<or> string_view_compatible t then Some Ctor_any else None)"

definition make_printer :: "bool \<Rightarrow> nat \<Rightarrow> cpp_arg \<Rightarrow> store \<Rightarrow> (view \<times> store) option" where
  "make_printer temporary fresh b m =
     (case chosen_ctor temporary (arg_type b) of
        None \<Rightarrow> None
      | Some Ctor_view \<Rightarrow> Some (printer_of_view b, m)
      | Some Ctor_string \<Rightarrow> Some (printer_of_string b, m)
      | Some Ctor_any \<Rightarrow> Some (printer_of_any fresh b m))"

definition print_view :: "fmt_ops \<Rightarrow> bool \<Rightarrow> store \<Rightarrow> view \<Rightarrow> string result" where
  "print_view fmt char_signed m v = bind_result (read_view m v) (\<lambda>bs. Inr (buffer_to_string fmt char_signed bs))"

section \<open>What a printer prints\<close>

lemma printer_of_any_eq:
  "printer_of_any fresh b m =
     (if owning (arg_type b) then ((fresh, arg_size b), m(fresh := None)) else ((arg_data b, arg_size b), m))"
  by (simp add: printer_of_any_def printer_of_pair_def Let_def)

text \<open>
  A \<open>buffer_printer\<close> prints exactly the bytes its argument refers to, for a view, a
  span or a string of any single-byte character type. For any other container that owns
  its bytes the constructor compiles and the printer reads the bytes of a copy that is
  gone.
\<close>

theorem printer_shows_argument:
  assumes "make_printer temporary fresh b m = Some (v, m')" and "m fresh = None"
    and "m (arg_data b) = Some bs" and "arg_size b = length bs"
  shows "print_view fmt char_signed m' v =
           (case arg_type b of
              T_vector _ \<Rightarrow> Inl use_after_free
            | T_array _ _ \<Rightarrow> Inl use_after_free
            | _ \<Rightarrow> Inr (buffer_to_string fmt char_signed bs)) \<and>
         m' = m"
proof -
  have m: "m(fresh := None) = m" using assms(2) by auto
  show ?thesis
  proof (cases "owning (arg_type b)")
    case True
    then show ?thesis using assms m
      by (cases "arg_type b")
        (auto simp: make_printer_def printer_of_any_eq printer_of_view_def printer_of_string_def print_view_def
          read_view_def owning_def split: if_splits)
  next
    case False
    then have "v = (arg_data b, arg_size b)" "m' = m"
      using assms(1)
      by (auto simp: make_printer_def printer_of_any_eq printer_of_view_def printer_of_string_def
          split: option.splits ctor.splits)
    then show ?thesis using False assms
      by (cases "arg_type b") (simp_all add: print_view_def read_view_def owning_def)
  qed
qed

theorem printer_shows_argument_witness:
  "print_view hex_fmt True [7 \<mapsto> [65, 66]] (9, 2) = Inl use_after_free \<and>
   print_view hex_fmt True [7 \<mapsto> [65, 66]] (7, 2) = Inr (buffer_to_string hex_fmt True [65, 66])"
proof -
  let ?v = "\<lparr>arg_type = T_vector T_char, arg_data = 7, arg_size = 2\<rparr>"
  let ?s = "\<lparr>arg_type = T_string T_uchar, arg_data = 7, arg_size = 2\<rparr>"
  have v: "make_printer True 9 ?v [7 \<mapsto> [65, 66]] = Some ((9, 2), [7 \<mapsto> [65, 66]])"
    by (simp add: make_printer_def printer_of_any_eq owning_def cspan_compatible_def fun_eq_iff)
  have s: "make_printer False 9 ?s [7 \<mapsto> [65, 66]] = Some ((7, 2), [7 \<mapsto> [65, 66]])"
    by (simp add: make_printer_def printer_of_string_def printer_of_view_def basic_char_def)
  show ?thesis
    using printer_shows_argument [OF v, of "[65, 66]" hex_fmt True]
      printer_shows_argument [OF s, of "[65, 66]" hex_fmt True] by simp
qed

end
