(* ===== verification/Loop_Threads.thy ===== *)
theory Loop_Threads
  imports Loop
begin

text \<open>
  \<open>event_loop::call_get\<close> across threads: any number of caller threads queue a job
  each and block on its future while the loop's thread wakes up, swaps the queue out
  and runs the jobs (\<open>include/wshttp/loop.hpp\<close>, \<open>src/loop.cpp\<close>). One rule per
  atomic action of the code: the push under the mutex, the activation of the waker, the
  dispatch of the waker's callback (libevent makes the event inactive first), the
  swap under the mutex, one job, the return of the callback, the return of
  \<open>fut.get()\<close>. Job \<open>i\<close> is the closure of caller \<open>i\<close>: \<open>fn i\<close>, which works on the
  program's state and returns a value or throws; either goes into the promise.
\<close>

section \<open>States and steps\<close>

datatype 'r caller = C_ready | C_pushed | C_waiting | C_done "'r result"

datatype loop_pc = L_idle | L_woken | L_batch "nat list" | L_stopped

record ('w, 'r) threads =
  callers :: "nat \<rightharpoonup> 'r caller"
  t_queue :: "nat list"
  t_waker :: bool
  t_loop :: loop_pc
  t_promise :: "nat \<rightharpoonup> 'r result"
  t_world :: 'w
  t_pushed :: "nat list" \<comment> \<open>ghost: every job, in the order of the pushes\<close>
  t_ran :: "nat list"    \<comment> \<open>ghost: the jobs that have run, in the order they ran\<close>

fun batch_of :: "loop_pc \<Rightarrow> nat list" where
  "batch_of (L_batch js) = js"
| "batch_of _ = []"

inductive tstep :: "(nat \<Rightarrow> 'w \<Rightarrow> 'r result \<times> 'w) \<Rightarrow> ('w, 'r) threads \<Rightarrow> ('w, 'r) threads \<Rightarrow> bool"
  for fn where
  push: "callers s i = Some C_ready \<Longrightarrow>
    tstep fn s (s\<lparr>callers := (callers s)(i \<mapsto> C_pushed), t_queue := t_queue s @ [i],
                  t_pushed := t_pushed s @ [i]\<rparr>)"
| activate: "callers s i = Some C_pushed \<Longrightarrow>
    tstep fn s (s\<lparr>callers := (callers s)(i \<mapsto> C_waiting), t_waker := True\<rparr>)"
| wake: "t_loop s = L_idle \<Longrightarrow> t_waker s \<Longrightarrow>
    tstep fn s (s\<lparr>t_waker := False, t_loop := L_woken\<rparr>)"
| swap: "t_loop s = L_woken \<Longrightarrow>
    tstep fn s (s\<lparr>t_loop := L_batch (t_queue s), t_queue := []\<rparr>)"
| run: "t_loop s = L_batch (i # js) \<Longrightarrow> fn i (t_world s) = (r, w') \<Longrightarrow>
    tstep fn s (s\<lparr>t_loop := L_batch js, t_promise := (t_promise s)(i \<mapsto> r), t_world := w',
                  t_ran := t_ran s @ [i]\<rparr>)"
| finish: "t_loop s = L_batch [] \<Longrightarrow> tstep fn s (s\<lparr>t_loop := L_idle\<rparr>)"
| resume: "callers s i = Some C_waiting \<Longrightarrow> t_promise s i = Some r \<Longrightarrow>
    tstep fn s (s\<lparr>callers := (callers s)(i \<mapsto> C_done r)\<rparr>)"

text \<open>\<open>event_base_loopbreak\<close> or \<open>loopexit\<close>: the loop ends between two callbacks.\<close>

inductive tbreak :: "('w, 'r) threads \<Rightarrow> ('w, 'r) threads \<Rightarrow> bool" where
  "t_loop s = L_idle \<Longrightarrow> tbreak s (s\<lparr>t_loop := L_stopped\<rparr>)"

definition threads_init :: "nat set \<Rightarrow> 'w \<Rightarrow> ('w, 'r) threads" where
  "threads_init N w0 =
     \<lparr>callers = (\<lambda>i. if i \<in> N then Some C_ready else None), t_queue = [], t_waker = False,
      t_loop = L_idle, t_promise = Map.empty, t_world = w0, t_pushed = [], t_ran = []\<rparr>"

inductive treach :: "(nat \<Rightarrow> 'w \<Rightarrow> 'r result \<times> 'w) \<Rightarrow> nat set \<Rightarrow> 'w \<Rightarrow> ('w, 'r) threads \<Rightarrow> bool"
  for fn N w0 where
  start: "treach fn N w0 (threads_init N w0)"
| step: "treach fn N w0 s \<Longrightarrow> tstep fn s s' \<Longrightarrow> treach fn N w0 s'"
| break: "treach fn N w0 s \<Longrightarrow> tbreak s s' \<Longrightarrow> treach fn N w0 s'"

inductive_cases tstep_E: "tstep fn s s'"
inductive_cases tbreak_E: "tbreak s s'"

section \<open>The specification: one job after the other\<close>

fun run_world :: "(nat \<Rightarrow> 'w \<Rightarrow> 'r result \<times> 'w) \<Rightarrow> nat list \<Rightarrow> 'w \<Rightarrow> 'w" where
  "run_world fn [] w = w"
| "run_world fn (i # is) w = run_world fn is (snd (fn i w))"

lemma run_world_append: "run_world fn (is @ js) w = run_world fn js (run_world fn is w)"
  by (induction "is" arbitrary: w) auto

text \<open>What the promise of \<open>i\<close> holds after the jobs \<open>is\<close>.\<close>

definition promised :: "(nat \<Rightarrow> 'w \<Rightarrow> 'r result \<times> 'w) \<Rightarrow> nat list \<Rightarrow> 'w \<Rightarrow> nat \<Rightarrow> 'r result \<Rightarrow> bool" where
  "promised fn is w i r \<longleftrightarrow> (\<exists>pre post. is = pre @ i # post \<and> r = fst (fn i (run_world fn pre w)))"

lemma promised_snoc: "promised fn is w i r \<Longrightarrow> promised fn (is @ [j]) w i r"
  unfolding promised_def by (metis append_Cons append_assoc)

lemma promised_last: "promised fn (is @ [i]) w i (fst (fn i (run_world fn is w)))"
  by (auto simp: promised_def)

section \<open>The invariant\<close>

definition pending :: "('w, 'r) threads \<Rightarrow> nat \<Rightarrow> bool" where
  "pending s i \<longleftrightarrow> callers s i \<in> {Some C_pushed, Some C_waiting} \<and> t_promise s i = None"

definition tinv :: "(nat \<Rightarrow> 'w \<Rightarrow> 'r result \<times> 'w) \<Rightarrow> nat set \<Rightarrow> 'w \<Rightarrow> ('w, 'r) threads \<Rightarrow> bool" where
  "tinv fn N w0 s \<longleftrightarrow>
     dom (callers s) = N \<and>
     t_ran s @ batch_of (t_loop s) @ t_queue s = t_pushed s \<and>
     distinct (t_pushed s) \<and>
     set (t_pushed s) = {i \<in> N. callers s i \<noteq> Some C_ready} \<and>
     dom (t_promise s) = set (t_ran s) \<and>
     (\<forall>i r. callers s i = Some (C_done r) \<longrightarrow> t_promise s i = Some r) \<and>
     t_world s = run_world fn (t_ran s) w0 \<and>
     (\<forall>i r. t_promise s i = Some r \<longrightarrow> promised fn (t_ran s) w0 i r)"

text \<open>
  No lost wake-up: a job in the queue has its waker active, or the loop on its way to
  the swap, or its own caller still about to activate the waker.
\<close>

definition waker_inv :: "('w, 'r) threads \<Rightarrow> bool" where
  "waker_inv s \<longleftrightarrow>
     t_queue s = [] \<or> t_waker s \<or> t_loop s = L_woken \<or>
     (\<exists>i \<in> set (t_queue s). callers s i = Some C_pushed)"

lemma tinv_init: "tinv fn N w0 (threads_init N w0)"
  by (auto simp: tinv_def threads_init_def split: if_splits)

lemma waker_inv_init: "waker_inv (threads_init N w0)"
  by (simp add: waker_inv_def threads_init_def)

text \<open>A job is in exactly one place: it has run, or is in the batch, or is in the queue.\<close>

lemma tinv_places:
  assumes "tinv fn N w0 s"
  shows "set (t_pushed s) = set (t_ran s) \<union> set (batch_of (t_loop s)) \<union> set (t_queue s)"
proof -
  have "t_ran s @ batch_of (t_loop s) @ t_queue s = t_pushed s" using assms by (simp add: tinv_def)
  then show ?thesis by (metis set_append Un_assoc)
qed

lemma tinv_push:
  assumes inv: "tinv fn N w0 s" and c: "callers s i = Some C_ready"
  shows "tinv fn N w0 (s\<lparr>callers := (callers s)(i \<mapsto> C_pushed), t_queue := t_queue s @ [i],
                          t_pushed := t_pushed s @ [i]\<rparr>)"
proof -
  have N: "i \<in> N" and new: "i \<notin> set (t_pushed s)" using inv c by (auto simp: tinv_def)
  have "t_ran s @ batch_of (t_loop s) @ t_queue s @ [i] = t_pushed s @ [i]"
    using inv by (simp add: tinv_def flip: append_assoc)
  moreover have "insert i (set (t_pushed s)) = {k \<in> N. ((callers s)(i \<mapsto> C_pushed)) k \<noteq> Some C_ready}"
    using inv N by (auto simp: tinv_def)
  ultimately show ?thesis
    using inv N new by (simp add: tinv_def insert_absorb)
qed

lemma tinv_run:
  assumes inv: "tinv fn N w0 s" and l: "t_loop s = L_batch (i # js)"
    and r: "fn i (t_world s) = (r, w')"
  shows "tinv fn N w0 (s\<lparr>t_loop := L_batch js, t_promise := (t_promise s)(i \<mapsto> r), t_world := w',
                          t_ran := t_ran s @ [i]\<rparr>)"
proof -
  have w: "t_world s = run_world fn (t_ran s) w0" using inv by (simp add: tinv_def)
  have "promised fn (t_ran s @ [i]) w0 i r"
    using promised_last [of fn "t_ran s" i w0] r by (simp add: w)
  then have p: "\<forall>k x. ((t_promise s)(i \<mapsto> r)) k = Some x \<longrightarrow> promised fn (t_ran s @ [i]) w0 k x"
    using inv by (auto simp: tinv_def intro: promised_snoc)
  have w': "w' = run_world fn (t_ran s @ [i]) w0"
    using r by (simp add: run_world_append w)
  have order: "t_ran s @ i # js @ t_queue s = t_pushed s"
    using inv l by (simp add: tinv_def)
  moreover have "distinct (t_pushed s)" using inv by (simp add: tinv_def)
  ultimately have "i \<notin> set (t_ran s)" by (auto simp flip: order)
  then have "t_promise s i = None" using inv by (auto simp: tinv_def)
  then have "callers s i \<noteq> Some (C_done x)" for x using inv by (auto simp: tinv_def)
  then have d: "\<forall>k x. callers s k = Some (C_done x) \<longrightarrow> ((t_promise s)(i \<mapsto> r)) k = Some x"
    using inv by (auto simp: tinv_def)
  show ?thesis
    using inv p d order w' by (simp add: tinv_def)
qed

lemma tstep_tinv: "tstep fn s s' \<Longrightarrow> tinv fn N w0 s \<Longrightarrow> tinv fn N w0 s'"
proof (induction rule: tstep.induct)
  case (push s i) then show ?case by (intro tinv_push)
next
  case (run s i js r w') then show ?case by (intro tinv_run)
qed (auto simp: tinv_def insert_absorb)

lemma tstep_waker_inv: "tstep fn s s' \<Longrightarrow> waker_inv s \<Longrightarrow> waker_inv s'"
proof (induction rule: tstep.induct)
  case (resume s i r)
  then show ?case by (fastforce simp: waker_inv_def)
qed (auto simp: waker_inv_def)

lemma tbreak_invs:
  "tbreak s s' \<Longrightarrow> tinv fn N w0 s \<Longrightarrow> tinv fn N w0 s'"
  "tbreak s s' \<Longrightarrow> waker_inv s \<Longrightarrow> waker_inv s'"
  by (erule tbreak_E, simp add: tinv_def) (erule tbreak_E, simp add: waker_inv_def)

lemma treach_tinv: "treach fn N w0 s \<Longrightarrow> tinv fn N w0 s"
  by (induction rule: treach.induct) (blast intro: tinv_init tstep_tinv tbreak_invs)+

lemma treach_waker_inv: "treach fn N w0 s \<Longrightarrow> waker_inv s"
  by (induction rule: treach.induct) (blast intro: waker_inv_init tstep_waker_inv tbreak_invs)+

section \<open>Progress and termination\<close>

text \<open>
  Every step uses something up: the weight of a caller falls on its way to \<open>C_done\<close>,
  a waiting job weighs one, the loop's own steps are paid by the activation.
\<close>

fun caller_weight :: "'r caller \<Rightarrow> nat" where
  "caller_weight C_ready = 7"
| "caller_weight C_pushed = 5"
| "caller_weight C_waiting = 1"
| "caller_weight (C_done _) = 0"

fun loop_weight :: "loop_pc \<Rightarrow> nat" where
  "loop_weight L_stopped = 0"
| "loop_weight L_idle = 1"
| "loop_weight (L_batch _) = 2"
| "loop_weight L_woken = 3"

definition weight :: "('w, 'r) threads \<Rightarrow> nat" where
  "weight s = (\<Sum>i\<in>dom (callers s). caller_weight (the (callers s i))) +
     (if t_waker s then 3 else 0) + loop_weight (t_loop s) +
     length (batch_of (t_loop s)) + length (t_queue s)"

lemma sum_caller_upd:
  assumes "finite (dom m)" and "m i = Some a" and "caller_weight a = caller_weight b + d"
  shows "(\<Sum>k\<in>dom m. caller_weight (the (m k))) =
         (\<Sum>k\<in>dom m. caller_weight (the ((m(i \<mapsto> b)) k))) + d"
proof -
  have i: "i \<in> dom m" using assms(2) by auto
  have "(\<Sum>k\<in>dom m - {i}. caller_weight (the (m k))) =
        (\<Sum>k\<in>dom m - {i}. caller_weight (the ((m(i \<mapsto> b)) k)))"
    by (rule sum.cong) auto
  then show ?thesis
    unfolding sum.remove [OF assms(1) i] using assms(2,3) by simp
qed

lemma dom_caller_upd: "m i = Some a \<Longrightarrow> dom (\<lambda>k. if k = i then Some b else m k) = dom m"
  by (auto split: if_splits)

lemma tstep_weight:
  "tstep fn s s' \<Longrightarrow> finite (dom (callers s)) \<Longrightarrow> weight s' < weight s \<and> dom (callers s') = dom (callers s)"
proof (induction rule: tstep.induct)
  case (push s i)
  then show ?case
    using sum_caller_upd [of "callers s" i C_ready C_pushed 2]
    by (simp add: weight_def insert_absorb domI dom_caller_upd)
next
  case (activate s i)
  then show ?case
    using sum_caller_upd [of "callers s" i C_pushed C_waiting 4]
    by (simp add: weight_def insert_absorb domI dom_caller_upd)
next
  case (resume s i r)
  then show ?case
    using sum_caller_upd [of "callers s" i C_waiting "C_done r" 1]
    by (simp add: weight_def insert_absorb domI dom_caller_upd)
qed (auto simp: weight_def)

lemma tstep_bounded:
  "(tstep fn ^^ n) s s' \<Longrightarrow> finite (dom (callers s)) \<Longrightarrow> n + weight s' \<le> weight s"
proof (induction n arbitrary: s')
  case (Suc n)
  then obtain m where m: "(tstep fn ^^ n) s m" "tstep fn m s'" by auto
  have "finite (dom (callers m))"
    using m(1) Suc.prems(2)
    by (induction n arbitrary: m) (auto dest!: tstep_weight)
  then show ?case using Suc.IH [OF m(1) Suc.prems(2)] tstep_weight [OF m(2)] by linarith
qed simp

definition all_done :: "('w, 'r) threads \<Rightarrow> bool" where
  "all_done s \<longleftrightarrow> (\<forall>i x. callers s i = Some x \<longrightarrow> (\<exists>r. x = C_done r))"

lemma progress:
  assumes inv: "tinv fn N w0 s" and w: "waker_inv s"
    and run: "t_loop s \<noteq> L_stopped" and todo: "\<not> all_done s"
  shows "\<exists>s'. tstep fn s s'"
proof -
  from todo obtain i x where i: "callers s i = Some x" "\<And>r. x \<noteq> C_done r"
    by (auto simp: all_done_def)
  show ?thesis
  proof (cases x)
    case C_ready then show ?thesis using i tstep.push by blast
  next
    case C_pushed then show ?thesis using i tstep.activate by blast
  next
    case (C_done r) then show ?thesis using i by blast
  next
    case C_waiting
    show ?thesis
    proof (cases "t_loop s")
      case L_woken then show ?thesis using tstep.swap by blast
    next
      case (L_batch js)
      then show ?thesis by (cases js) (metis surj_pair tstep.finish tstep.run)+
    next
      case L_stopped then show ?thesis using run by blast
    next
      case L_idle
      have "i \<in> set (t_pushed s)" using inv i C_waiting by (auto simp: tinv_def)
      then have "i \<in> set (t_ran s) \<or> i \<in> set (t_queue s)"
        using tinv_places [OF inv] L_idle by auto
      then show ?thesis
      proof
        assume "i \<in> set (t_ran s)"
        then have "i \<in> dom (t_promise s)" using inv by (simp add: tinv_def)
        then obtain r where "t_promise s i = Some r" by auto
        then show ?thesis using i(1) C_waiting tstep.resume by blast
      next
        assume "i \<in> set (t_queue s)"
        then have "t_waker s \<or> (\<exists>k. callers s k = Some C_pushed)"
          using w L_idle by (auto simp: waker_inv_def)
        then show ?thesis using L_idle tstep.wake tstep.activate by blast
      qed
    qed
  qed
qed

lemma init_dom [simp]: "dom (callers (threads_init N w0)) = N"
  by (auto simp: threads_init_def split: if_splits)

lemma init_weight: "weight (threads_init N w0) = 7 * card N + 1"
proof -
  have "(\<Sum>i\<in>N. caller_weight (the (callers (threads_init N w0) i))) = (\<Sum>i\<in>N. 7)"
    by (rule sum.cong) (auto simp: threads_init_def)
  then show ?thesis unfolding weight_def init_dom by (simp add: threads_init_def)
qed

lemma steps_reach: "(tstep fn ^^ n) (threads_init N w0) s \<Longrightarrow> treach fn N w0 s"
  by (induction n arbitrary: s) (auto intro: treach.intros)

lemma steps_run: "(tstep fn ^^ n) (threads_init N w0) s \<Longrightarrow> t_loop s \<noteq> L_stopped"
proof (induction n arbitrary: s)
  case 0
  then show ?case by (auto simp: threads_init_def)
next
  case (Suc n)
  then show ?case by (fastforce elim!: tstep_E)
qed

text \<open>After the loop has ended its state only changes by late pushes and activations.\<close>

lemma stopped_stuck:
  "(tstep fn)\<^sup>*\<^sup>* s s' \<Longrightarrow> t_loop s = L_stopped \<Longrightarrow> t_promise s i = None \<Longrightarrow>
     callers s i \<in> {Some C_ready, Some C_pushed, Some C_waiting} \<Longrightarrow>
     t_loop s' = L_stopped \<and> t_promise s' i = None \<and>
     callers s' i \<in> {Some C_ready, Some C_pushed, Some C_waiting}"
proof (induction rule: rtranclp_induct)
  case (step y z)
  then have "t_loop y = L_stopped" "t_promise y i = None"
    "callers y i \<in> {Some C_ready, Some C_pushed, Some C_waiting}" by auto
  with step.hyps(2) show ?case by (auto elim!: tstep_E split: if_splits)
qed auto

lemma answers_linearized:
  assumes "treach fn N w0 s" and "callers s i = Some (C_done r)"
  shows "distinct (t_pushed s) \<and>
         (\<exists>pre post. t_pushed s = pre @ i # post \<and> r = fst (fn i (run_world fn pre w0))) \<and>
         t_world s = run_world fn (t_ran s) w0 \<and>
         (\<exists>later. t_pushed s = t_ran s @ later)"
proof -
  have inv: "tinv fn N w0 s" by (rule treach_tinv [OF assms(1)])
  then have "t_promise s i = Some r" using assms(2) by (simp add: tinv_def)
  then have "promised fn (t_ran s) w0 i r" using inv by (simp add: tinv_def)
  then obtain pre post where p: "t_ran s = pre @ i # post" "r = fst (fn i (run_world fn pre w0))"
    by (auto simp: promised_def)
  have o: "t_ran s @ batch_of (t_loop s) @ t_queue s = t_pushed s" using inv by (simp add: tinv_def)
  then have "t_pushed s = pre @ i # (post @ batch_of (t_loop s) @ t_queue s)" by (simp add: p flip: o)
  then show ?thesis using inv p(2) o by (auto simp: tinv_def)
qed

lemma treach_world: "treach fn N w0 s \<Longrightarrow> t_world s = run_world fn (t_ran s) w0"
  using treach_tinv [of fn N w0 s] by (simp add: tinv_def)

section \<open>Properties\<close>

text \<open>
  C1. Calls through \<open>call_get\<close> behave as if they ran one at a time: however the
  threads interleave, when a caller gets its answer, that answer (a value or an
  exception) is what its own function returns on the state left by exactly the calls
  pushed before it, in push order; no function runs twice.
\<close>

theorem call_get_linearizable:
  assumes "treach fn N w0 s" and "callers s i = Some (C_done r)"
  shows "distinct (t_pushed s) \<and>
         (\<exists>pre post. t_pushed s = pre @ i # post \<and> r = fst (fn i (run_world fn pre w0))) \<and>
         t_world s = run_world fn (t_ran s) w0 \<and>
         (\<exists>later. t_pushed s = t_ran s @ later)"
  by (rule answers_linearized [OF assms])

text \<open>
  C12. No call is forgotten while the loop runs: a run of the threads and the loop from
  the start takes at most \<open>7 * n + 1\<close> steps for \<open>n\<close> callers, and as long as some
  caller waits for its answer another step is possible (no lost wake-up, no deadlock).
  So every maximal run answers every caller.
\<close>

theorem call_get_answers:
  assumes "finite N" and "(tstep fn ^^ n) (threads_init N w0) s"
  shows "n \<le> 7 * card N + 1 \<and> (all_done s \<or> (\<exists>s'. tstep fn s s'))"
proof
  show "n \<le> 7 * card N + 1"
    using tstep_bounded [OF assms(2), unfolded init_dom, OF assms(1)]
    unfolding init_weight by (rule add_leD1)
  have "treach fn N w0 s" by (rule steps_reach [OF assms(2)])
  then show "all_done s \<or> (\<exists>s'. tstep fn s s')"
    using progress [OF treach_tinv treach_waker_inv steps_run [OF assms(2)]] by blast
qed

text \<open>
  C40. Stopping the loop strands its callers: once the loop has ended, a caller whose
  function has not run is never answered, however the remaining steps go.
\<close>

theorem call_get_stranded:
  assumes "treach fn N w0 s" and "t_loop s = L_stopped" and "t_promise s i = None"
    and "callers s i = Some C_waiting" and "(tstep fn)\<^sup>*\<^sup>* s s'"
  shows "callers s' i \<noteq> Some (C_done r)"
  using stopped_stuck [OF assms(5,2,3)] assms(4) by auto

section \<open>Witnesses\<close>

text \<open>One caller that reads and increments a counter, followed through its states.\<close>

definition fetch_inc :: "nat \<Rightarrow> nat \<Rightarrow> nat result \<times> nat" where
  "fetch_inc i w = (Inr w, Suc w)"

definition st :: "nat caller \<Rightarrow> nat list \<Rightarrow> bool \<Rightarrow> loop_pc \<Rightarrow> bool \<Rightarrow> (nat, nat) threads" where
  "st c q wk l fin =
     \<lparr>callers = [0 \<mapsto> c], t_queue = q, t_waker = wk, t_loop = l,
      t_promise = (if fin then [0 \<mapsto> Inr 5] else Map.empty), t_world = (if fin then 6 else 5),
      t_pushed = (if c = C_ready then [] else [0]), t_ran = (if fin then [0] else [])\<rparr>"

lemma st_start: "threads_init {0} 5 = st C_ready [] False L_idle False"
  by (auto simp: threads_init_def st_def)

lemma st_push: "tstep fetch_inc (st C_ready [] False L_idle False) (st C_pushed [0] False L_idle False)"
  using tstep.push [of "st C_ready [] False L_idle False" 0 fetch_inc] by (simp add: st_def)

lemma st_activate: "tstep fetch_inc (st C_pushed [0] False L_idle False) (st C_waiting [0] True L_idle False)"
  using tstep.activate [of "st C_pushed [0] False L_idle False" 0 fetch_inc] by (simp add: st_def)

lemma st_wake: "tstep fetch_inc (st C_waiting [0] True L_idle False) (st C_waiting [0] False L_woken False)"
  using tstep.wake [of "st C_waiting [0] True L_idle False" fetch_inc] by (simp add: st_def)

lemma st_swap: "tstep fetch_inc (st C_waiting [0] False L_woken False) (st C_waiting [] False (L_batch [0]) False)"
  using tstep.swap [of "st C_waiting [0] False L_woken False" fetch_inc] by (simp add: st_def)

lemma st_run: "tstep fetch_inc (st C_waiting [] False (L_batch [0]) False) (st C_waiting [] False (L_batch []) True)"
  using tstep.run [of "st C_waiting [] False (L_batch [0]) False" 0 "[]" fetch_inc "Inr 5" 6]
  by (simp add: st_def fetch_inc_def)

lemma st_resume: "tstep fetch_inc (st C_waiting [] False (L_batch []) True) (st (C_done (Inr 5)) [] False (L_batch []) True)"
  using tstep.resume [of "st C_waiting [] False (L_batch []) True" 0 "Inr 5" fetch_inc] by (simp add: st_def)

lemmas st_steps = st_push st_activate st_wake st_swap st_run st_resume

lemma st_reach_waiting: "treach fetch_inc {0} 5 (st C_waiting [0] True L_idle False)"
  by (rule treach.step [OF treach.step [OF treach.start]], unfold st_start) (rule st_steps)+

lemma st_reach_done: "treach fetch_inc {0} 5 (st (C_done (Inr 5)) [] False (L_batch []) True)"
  using st_reach_waiting st_wake st_swap st_run st_resume by (blast intro: treach.step)

theorem call_get_linearizable_witness:
  "\<exists>pre post. t_pushed (st (C_done (Inr 5)) [] False (L_batch []) True) = pre @ 0 # post \<and>
     Inr 5 = fst (fetch_inc 0 (run_world fetch_inc pre 5))"
  using call_get_linearizable [OF st_reach_done, of 0 "Inr 5"] by (simp add: st_def)

theorem call_get_answers_witness:
  "1 \<le> 7 * card {0::nat} + 1 \<and>
   (all_done (st C_pushed [0] False L_idle False) \<or>
    (\<exists>s'. tstep fetch_inc (st C_pushed [0] False L_idle False) s'))"
proof -
  have "(tstep fetch_inc ^^ 1) (threads_init {0} 5) (st C_pushed [0] False L_idle False)"
    unfolding st_start relpowp_1 by (rule st_push)
  then show ?thesis by (rule call_get_answers [rotated]) simp
qed

theorem call_get_stranded_witness:
  "callers (st C_waiting [0] True L_stopped False) 0 \<noteq> Some (C_done (Inr 5))"
proof -
  have "tbreak (st C_waiting [0] True L_idle False) (st C_waiting [0] True L_stopped False)"
    using tbreak.intros [of "st C_waiting [0] True L_idle False"] by (simp add: st_def)
  with st_reach_waiting have r: "treach fetch_inc {0} 5 (st C_waiting [0] True L_stopped False)"
    by (rule treach.break)
  show ?thesis by (rule call_get_stranded [OF r]) (simp_all add: st_def)
qed

section \<open>Two callers\<close>

text \<open>A run in which two callers push one after the other and one batch answers both.\<close>

definition st2 :: "'w \<Rightarrow> 'r caller \<Rightarrow> 'r caller \<Rightarrow> nat list \<Rightarrow> bool \<Rightarrow> loop_pc \<Rightarrow> nat list \<Rightarrow>
    (nat \<rightharpoonup> 'r result) \<Rightarrow> nat list \<Rightarrow> ('w, 'r) threads" where
  "st2 w c0 c1 q wk l ps pr rs =
     \<lparr>callers = [0 \<mapsto> c0, 1 \<mapsto> c1], t_queue = q, t_waker = wk, t_loop = l, t_promise = pr,
      t_world = w, t_pushed = ps, t_ran = rs\<rparr>"

lemma two_callers:
  fixes fn :: "nat \<Rightarrow> 'w \<Rightarrow> 'r result \<times> 'w"
  assumes f: "fn 0 w0 = (r0, w1)" "fn 1 w1 = (r1, w2)"
  shows "treach fn {0, 1} w0 (st2 w2 (C_done r0) (C_done r1) [] False (L_batch []) [0, 1] [0 \<mapsto> r0, 1 \<mapsto> r1] [0, 1])"
proof -
  let ?a = "st2 w0 C_ready C_ready [] False L_idle [] Map.empty [] :: ('w, 'r) threads"
  let ?b = "st2 w0 C_pushed C_ready [0] False L_idle [0] Map.empty [] :: ('w, 'r) threads"
  let ?c = "st2 w0 C_pushed C_pushed [0, 1] False L_idle [0, 1] Map.empty [] :: ('w, 'r) threads"
  let ?d = "st2 w0 C_waiting C_pushed [0, 1] True L_idle [0, 1] Map.empty [] :: ('w, 'r) threads"
  let ?e = "st2 w0 C_waiting C_waiting [0, 1] True L_idle [0, 1] Map.empty [] :: ('w, 'r) threads"
  let ?f = "st2 w0 C_waiting C_waiting [0, 1] False L_woken [0, 1] Map.empty [] :: ('w, 'r) threads"
  let ?g = "st2 w0 C_waiting C_waiting [] False (L_batch [0, 1]) [0, 1] Map.empty [] :: ('w, 'r) threads"
  let ?h = "st2 w1 C_waiting C_waiting [] False (L_batch [1]) [0, 1] [0 \<mapsto> r0] [0] :: ('w, 'r) threads"
  let ?i = "st2 w2 C_waiting C_waiting [] False (L_batch []) [0, 1] [0 \<mapsto> r0, 1 \<mapsto> r1] [0, 1] :: ('w, 'r) threads"
  let ?j = "st2 w2 (C_done r0) C_waiting [] False (L_batch []) [0, 1] [0 \<mapsto> r0, 1 \<mapsto> r1] [0, 1] :: ('w, 'r) threads"
  let ?k = "st2 w2 (C_done r0) (C_done r1) [] False (L_batch []) [0, 1] [0 \<mapsto> r0, 1 \<mapsto> r1] [0, 1] :: ('w, 'r) threads"
  have "threads_init {0, 1} w0 = ?a" by (auto simp: threads_init_def st2_def)
  then have "treach fn {0, 1} w0 ?a" using treach.start [of fn "{0, 1}" w0] by simp
  moreover have "tstep fn ?a ?b" "tstep fn ?b ?c"
    using tstep.push [of ?a 0 fn] tstep.push [of ?b 1 fn] by (simp_all add: st2_def fun_upd_twist)
  moreover have "tstep fn ?c ?d" "tstep fn ?d ?e"
    using tstep.activate [of ?c 0 fn] tstep.activate [of ?d 1 fn] by (simp_all add: st2_def fun_upd_twist)
  moreover have "tstep fn ?e ?f" "tstep fn ?f ?g"
    using tstep.wake [of ?e fn] tstep.swap [of ?f fn] by (simp_all add: st2_def)
  moreover have "tstep fn ?g ?h" "tstep fn ?h ?i"
    using tstep.run [of ?g 0 "[1]" fn r0 w1] tstep.run [of ?h 1 "[]" fn r1 w2] f by (simp_all add: st2_def)
  moreover have "tstep fn ?i ?j" "tstep fn ?j ?k"
    using tstep.resume [of ?i 0 r0 fn] tstep.resume [of ?j 1 r1 fn] by (simp_all add: st2_def fun_upd_twist)
  ultimately show ?thesis by (meson treach.step)
qed

end
