(* ===== verification/Api.thy ===== *)
theory Api
  imports System_Props Loop_Threads
begin

text \<open>
  The endpoint used from several threads: its public operations hand their bodies to
  \<open>call_get\<close> (\<open>include/wshttp/endpoint.hpp\<close>), so the queue of \<open>Loop_Threads\<close> carries
  the operations of \<open>Endpoint\<close>.
\<close>

section \<open>The operations as jobs\<close>

text \<open>
  What else the loop does between two jobs (its callbacks, with the closes that they queue)
  takes part as a call that brings its own body, \<open>Api_event\<close>.
\<close>

datatype 'u api_call =
    Api_listen u16
  | Api_connect string "ip_address option"
  | Api_event "'u world \<Rightarrow> 'u world"

fun api_body :: "'u ep_lib \<Rightarrow> tid \<Rightarrow> 'u api_call \<Rightarrow> ('u world, bool) comp" where
  "api_body lib t (Api_listen p) = endpoint_listen lib t p"
| "api_body lib t (Api_connect url local) = endpoint_connect lib t url local"
| "api_body lib t (Api_event f) = (\<lambda>w. (Inr True, f w))"

text \<open>An event is any number of steps of the system.\<close>

definition proper_events :: "tid \<Rightarrow> (nat \<Rightarrow> 'u api_call) \<Rightarrow> bool" where
  "proper_events t call \<longleftrightarrow> (\<forall>i f w. call i = Api_event f \<longrightarrow> (sys_step t)\<^sup>*\<^sup>* w (f w))"

text \<open>Caller \<open>i\<close> makes the call \<open>call i\<close>; what the system answers may differ from call to call.\<close>

definition api_fn :: "(nat \<Rightarrow> 'u ep_lib) \<Rightarrow> tid \<Rightarrow> (nat \<Rightarrow> 'u api_call) \<Rightarrow> nat \<Rightarrow> 'u world \<Rightarrow> bool result \<times> 'u world" where
  "api_fn libs t call i = api_body (libs i) t (call i)"

text \<open>
  The operations an endpoint passes on to its loop; \<open>this_thread\<close> is the caller's. A
  context is looked up through \<open>_ctx\<close> (\<open>src/endpoint.cpp\<close>), which
  \<open>handle_ep_opt\<close> sets.
\<close>

definition endpoint_call :: "'u ep_lib \<Rightarrow> tid \<Rightarrow> job \<Rightarrow> 'u world \<Rightarrow> exn option \<times> 'u world" where
  "endpoint_call lib this_thread f w = loop_call (run_job lib this_thread) this_thread f w"

definition endpoint_call_get :: "tid \<Rightarrow> ('u world, 'a) comp \<Rightarrow> job \<Rightarrow> 'u world \<Rightarrow> 'a waiting \<times> 'u world" where
  "endpoint_call_get this_thread f promise_job w = call_get this_thread f promise_job w"

definition endpoint_call_soon :: "job \<Rightarrow> 'u world \<Rightarrow> 'u world" where
  "endpoint_call_soon f w = call_soon f w"

definition endpoint_call_later :: "tid \<Rightarrow> wid \<Rightarrow> int \<Rightarrow> int \<Rightarrow> int \<Rightarrow> job \<Rightarrow> (int \<Rightarrow> job) \<Rightarrow> 'u world \<Rightarrow> 'u world" where
  "endpoint_call_later this_thread fresh add_rc called_at delay hook_and_release later w =
     call_later this_thread fresh add_rc called_at delay hook_and_release later w"

definition handle_ep_opt :: "openssl \<Rightarrow> ssl_creds option \<Rightarrow> ('u world, unit) comp" where
  "handle_ep_opt ssl c w =
     (case app_context_make ssl c of
        Inl x \<Rightarrow> (Inl x, w)
      | Inr ctx \<Rightarrow> (Inr (), w\<lparr>ep_ctx := Some ctx\<rparr>))"

definition inbound_ctx :: "'u world \<Rightarrow> ssl_ctx option result" where
  "inbound_ctx w = (case ep_ctx w of None \<Rightarrow> Inl null_deref | Some c \<Rightarrow> Inr (ctx_I c))"

definition outbound_ctx :: "'u world \<Rightarrow> ssl_ctx option result" where
  "outbound_ctx w = (case ep_ctx w of None \<Rightarrow> Inl null_deref | Some c \<Rightarrow> Inr (ctx_O c))"

text \<open>An endpoint that was constructed has its context, whichever credentials it got.\<close>

lemma made_endpoint_has_contexts:
  assumes "endpoint_make ssl creds t c prs fds = (Inr w, c')"
  shows "\<exists>i o'. inbound_ctx w = Inr i \<and> outbound_ctx w = Inr o' \<and>
           handle_ep_opt ssl creds w = (Inr (), w)"
  using assms
  by (auto simp: endpoint_make_def take_client_id_def inbound_ctx_def outbound_ctx_def handle_ep_opt_def
      split: sum.splits)

lemma sys_api:
  assumes "proper_events t call" and "sys_inv t w"
  shows "sys_inv t (snd (api_fn libs t call i w))"
proof (cases "call i")
  case (Api_event f)
  then have "(sys_step t)\<^sup>*\<^sup>* w (f w)" using assms(1) by (simp add: proper_events_def)
  then show ?thesis using sys_reachable [OF _ assms(2)] Api_event by (simp add: api_fn_def)
qed (use assms(2) in \<open>auto simp: api_fn_def prod_eq_iff intro: sys_listen sys_connect\<close>)

lemma sys_run_world:
  "proper_events t call \<Longrightarrow> sys_inv t w \<Longrightarrow> sys_inv t (run_world (api_fn libs t call) is w)"
  by (induction "is" arbitrary: w) (simp_all add: sys_api)

section \<open>Who gets a port\<close>

lemma listen_takes:
  "reg_find q (ep_listeners (snd (endpoint_listen lib t p w))) = None \<longleftrightarrow>
     reg_find q (ep_listeners w) = None \<and> q \<noteq> p"
proof -
  obtain c R where c: "reg_try_emplace p (ep_listeners w) = (c, R)" by fastforce
  then have C: "c \<longleftrightarrow> reg_find p (ep_listeners w) = None"
    and R: "reg_find q R = (if q = p \<and> reg_find p (ep_listeners w) = None then Some None else reg_find q (ep_listeners w))" for q
    using reg.emplace_ok [of p "ep_listeners w"] reg.look_emplace [of q p "ep_listeners w"] by simp_all
  obtain m w2 where m: "listener_make lib t p (w\<lparr>ep_listeners := R\<rparr>) = (m, w2)" by fastforce
  obtain F where "w2 = w\<lparr>ep_listeners := R, open_fds := F\<rparr>" using listener_make_frame [OF m] by auto
  then show ?thesis
    using c m C by (auto simp: endpoint_listen_def Let_def R reg.look_fill split: sum.splits)
qed

lemma listen_refused:
  "reg_find p (ep_listeners w) \<noteq> None \<Longrightarrow> fst (endpoint_listen lib t p w) =
     Inl (invalid_argument ''Cannot create tcp-listener at port -- listener already exists!'')"
  using reg.emplace_ok [of p "ep_listeners w"]
  by (auto simp: endpoint_listen_def Let_def split: prod.split)

lemma listen_first:
  assumes "in_event_loop t w" and "reg_find p (ep_listeners w) = None"
  shows "fst (endpoint_listen lib t p w) =
     (case fst (listener_make lib t p w) of Inl x \<Rightarrow> Inl x | Inr _ \<Rightarrow> Inr True)"
proof -
  obtain R where R: "reg_try_emplace p (ep_listeners w) = (True, R)"
    using reg.emplace_ok [of p "ep_listeners w"] assms(2) by (cases "reg_try_emplace p (ep_listeners w)") auto
  have "fst (listener_make lib t p (w\<lparr>ep_listeners := R\<rparr>)) = fst (listener_make lib t p w)"
    using assms(1)
    by (simp add: listener_make_def world_in_loop_def in_event_loop_def Let_def split: option.split sum.split)
  then show ?thesis
    by (auto simp: endpoint_listen_def R Let_def split: sum.splits prod.splits)
qed

text \<open>Neither call takes an entry out again; after a \<open>listen\<close> its port has one.\<close>

lemma api_takes:
  "\<forall>f. call i \<noteq> Api_event f \<Longrightarrow> reg_find q (ep_listeners (snd (api_fn libs t call i w))) = None \<longleftrightarrow>
     reg_find q (ep_listeners w) = None \<and> call i \<noteq> Api_listen q"
proof (cases "call i")
  case (Api_listen p)
  then show ?thesis by (auto simp: api_fn_def listen_takes)
next
  case (Api_connect url local)
  obtain r w' where "endpoint_connect (libs i) t url local w = (r, w')" by fastforce
  then show ?thesis using connect_side [of "libs i" t url local w r w'] Api_connect
    by (simp add: api_fn_def inbound_side_def)
qed simp

text \<open>An event that frees a port, in a run from \<open>w\<close>.\<close>

definition frees :: "(nat \<Rightarrow> 'u ep_lib) \<Rightarrow> tid \<Rightarrow> (nat \<Rightarrow> 'u api_call) \<Rightarrow> u16 \<Rightarrow> nat \<Rightarrow> 'u world \<Rightarrow> bool" where
  "frees libs t call p k w \<longleftrightarrow> (\<exists>f. call k = Api_event f) \<and>
     reg_find p (ep_listeners w) \<noteq> None \<and> reg_find p (ep_listeners (snd (api_fn libs t call k w))) = None"

lemma taken_until_freed:
  assumes "reg_find p (ep_listeners w) \<noteq> None"
    and "reg_find p (ep_listeners (run_world (api_fn libs t call) is w)) = None"
  shows "\<exists>pre k post. is = pre @ k # post \<and> frees libs t call p k (run_world (api_fn libs t call) pre w)"
  using assms
proof (induction "is" arbitrary: w)
  case (Cons i "is")
  let ?w = "snd (api_fn libs t call i w)"
  show ?case
  proof (cases "reg_find p (ep_listeners ?w) = None")
    case True
    then have "frees libs t call p i w"
      using Cons.prems(1) api_takes [of call i p libs t w] unfolding frees_def by metis
    then show ?thesis by (intro exI [of _ "[]"] exI [of _ i] exI [of _ "is"]) simp
  next
    case False
    then obtain pre k post where "is = pre @ k # post"
      "frees libs t call p k (run_world (api_fn libs t call) pre ?w)"
      using Cons.IH [of ?w] Cons.prems(2) by auto
    then show ?thesis by (intro exI [of _ "i # pre"] exI [of _ k] exI [of _ post]) simp
  qed
qed simp

lemma listener_make_answer:
  "fst (listener_make lib t p w) = fst (listener_make lib t p w')"
  if "in_event_loop t w" and "in_event_loop t w'"
  using that
  by (simp add: listener_make_def world_in_loop_def Let_def split: option.split sum.split)

section \<open>Properties\<close>

text \<open>
  C20. Concurrent \<open>listen\<close> calls on one port, with other calls of other threads and whatever
  the loop does in between. A call is answered as follows: if the endpoint's map has an
  entry for the port when its turn comes it is refused as a duplicate, and otherwise it gets
  the answer of the listener's construction. Once a \<open>listen\<close> on the port had its turn,
  whether it succeeded or failed, a later one is refused unless an event of the loop has
  taken the entry out in between; and the ownership invariant holds in every state.
\<close>

theorem one_listener_per_port:
  assumes "endpoint_make ssl creds t c prs fds = (Inr w, c')" and "(sys_step t)\<^sup>*\<^sup>* w w0"
    and "proper_events t call" and "treach (api_fn libs t call) N w0 s"
    and "callers s i = Some (C_done r)" and "call i = Api_listen p"
  shows "sys_inv t (t_world s) \<and>
         (\<exists>pre post. t_pushed s = pre @ i # post \<and>
            r = (if reg_find p (ep_listeners (run_world (api_fn libs t call) pre w0)) \<noteq> None
                 then Inl (invalid_argument ''Cannot create tcp-listener at port -- listener already exists!'')
                 else case fst (listener_make (libs i) t p w0) of Inl x \<Rightarrow> Inl x | Inr _ \<Rightarrow> Inr True) \<and>
            (\<forall>before j mid. pre = before @ j # mid \<and> call j = Api_listen p \<longrightarrow>
               r = Inl (invalid_argument ''Cannot create tcp-listener at port -- listener already exists!'') \<or>
               (\<exists>u k v. mid = u @ k # v \<and>
                  frees libs t call p k (run_world (api_fn libs t call) (before @ j # u) w0))))"
proof -
  let ?fn = "api_fn libs t call" and ?dup = "Inl (invalid_argument ''Cannot create tcp-listener at port -- listener already exists!'')"
  have i0: "sys_inv t w0" using sys_reachable [OF assms(2) sys_init [OF assms(1)]] .
  obtain pre post where p: "t_pushed s = pre @ i # post" "r = fst (?fn i (run_world ?fn pre w0))"
    using answers_linearized [OF assms(4,5)] by blast
  let ?v = "run_world ?fn pre w0"
  have t: "in_event_loop t ?v" "in_event_loop t w0"
    using sys_run_world [OF assms(3) i0, of libs pre] i0 by (simp_all add: sys_inv_def)
  have "r = fst (endpoint_listen (libs i) t p ?v)" using p(2) assms(6) by (simp add: api_fn_def)
  then have r: "r = (if reg_find p (ep_listeners ?v) \<noteq> None then ?dup
      else case fst (listener_make (libs i) t p w0) of Inl x \<Rightarrow> Inl x | Inr _ \<Rightarrow> Inr True)"
    using listen_refused [of p ?v "libs i" t] listen_first [OF t(1), of p "libs i"]
      listener_make_answer [OF t, of "libs i" p] by auto
  have "r = ?dup \<or> (\<exists>u k v. mid = u @ k # v \<and> frees libs t call p k (run_world ?fn (before @ j # u) w0))"
    if b: "pre = before @ j # mid" "call j = Api_listen p" for before j mid
  proof (cases "reg_find p (ep_listeners ?v) = None")
    case True
    let ?w = "run_world ?fn (before @ [j]) w0"
    have "reg_find p (ep_listeners ?w) \<noteq> None"
      using b(2) listen_takes [of p "libs j" t p "run_world ?fn before w0"]
      by (simp add: run_world_append api_fn_def)
    moreover have "?v = run_world ?fn mid ?w" by (simp add: b(1) run_world_append)
    ultimately obtain u k v where "mid = u @ k # v" "frees libs t call p k (run_world ?fn u ?w)"
      using taken_until_freed [of p ?w libs t call mid] True by auto
    moreover have "run_world ?fn u ?w = run_world ?fn (before @ j # u) w0" by (simp add: run_world_append)
    ultimately show ?thesis by metis
  qed (simp add: r)
  moreover have "sys_inv t (t_world s)"
    using sys_run_world [OF assms(3) i0] by (simp add: treach_world [OF assms(4)])
  ultimately show ?thesis using p(1) r by blast
qed

theorem one_listener_per_port_witness:
  "\<exists>s r1. treach (api_fn (\<lambda>_. demo_lib) 7 (\<lambda>_. Api_listen 443)) {0, 1} demo0 s \<and>
     callers s 0 = Some (C_done (Inr True)) \<and> callers s 1 = Some (C_done r1) \<and>
     r1 = Inl (invalid_argument ''Cannot create tcp-listener at port -- listener already exists!'')"
proof -
  let ?call = "\<lambda>_. Api_listen 443"
  let ?fn = "api_fn (\<lambda>_. demo_lib) 7 ?call"
  obtain w1 where w1: "?fn 0 demo0 = (Inr True, w1)" using demo_listen by (auto simp: api_fn_def)
  obtain r1 w2 where w2: "?fn 1 w1 = (r1, w2)" by fastforce
  let ?s = "st2 w2 (C_done (Inr True)) (C_done r1) [] False (L_batch []) [0, 1] [0 \<mapsto> Inr True, 1 \<mapsto> r1] [0, 1]"
  have s: "treach ?fn {0, 1} demo0 ?s" by (rule two_callers [OF w1 w2])
  have c: "callers ?s 0 = Some (C_done (Inr True))" "callers ?s 1 = Some (C_done r1)" by (simp_all add: st2_def)
  have e: "proper_events 7 ?call" by (simp add: proper_events_def)
  have q: "t_pushed ?s = [0, 1]" by (simp add: st2_def)
  obtain pre post where p: "t_pushed ?s = pre @ 1 # post"
    and r: "\<forall>before j mid. pre = before @ j # mid \<and> ?call j = Api_listen 443 \<longrightarrow>
       r1 = Inl (invalid_argument ''Cannot create tcp-listener at port -- listener already exists!'') \<or>
       (\<exists>u k v. mid = u @ k # v \<and> frees (\<lambda>_. demo_lib) 7 ?call 443 k (run_world ?fn (before @ j # u) demo0))"
    using one_listener_per_port [OF demo0 rtranclp.rtrancl_refl e s c(2) refl] by blast
  have "pre = [0]" using p q by (cases pre) (auto simp: append_eq_Cons_conv)
  then have "r1 = Inl (invalid_argument ''Cannot create tcp-listener at port -- listener already exists!'')"
    using r [rule_format, of "[]" 0 "[]"] by simp
  then show ?thesis using s c by blast
qed

end
