(* ===== verification/Owners.thy ===== *)
theory Owners
  imports Loop
begin

text \<open>
  The shared pointers the loop hands out (\<open>include/wshttp/loop.hpp\<close>): \<open>make_shared\<close>
  gives an object a deleter that leaves the destruction to the loop's thread, so that
  the last owner may let go of it anywhere. The objects here are numbers; the endpoint
  and its sessions use these pointers on the loop's own thread (\<open>World\<close>).
\<close>

section \<open>State\<close>

text \<open>The jobs: the deleter's closure, and any other closure, which may throw.\<close>

datatype own_job = Own_delete nat | Own_other nat

record own = "own_job event_loop" +
  use_count :: "nat \<Rightarrow> nat"
  alive :: "nat set"
  freed :: "nat list"  \<comment> \<open>ghost: the objects destroyed, in order\<close>

section \<open>The deleters\<close>

text \<open>\<open>delete ptr\<close>. What another job throws is \<open>thr\<close>.\<close>

fun run_own :: "(nat \<Rightarrow> exn option) \<Rightarrow> own_job \<Rightarrow> own \<Rightarrow> exn option \<times> own" where
  "run_own thr (Own_delete p) s =
     (if p \<in> alive s then (None, s\<lparr>alive := alive s - {p}, freed := freed s @ [p]\<rparr>)
      else (Some use_after_free, s))"
| "run_own thr (Own_other k) s = (thr k, s)"

definition loop_deleter :: "(nat \<Rightarrow> exn option) \<Rightarrow> tid \<Rightarrow> nat \<Rightarrow> own \<Rightarrow> exn option \<times> own" where
  "loop_deleter thr this_thread p s = loop_call (run_own thr) this_thread (Own_delete p) s"

text \<open>\<open>wrapped_deleter(f)\<close> waits for \<open>f\<close>: the job that answers it is \<open>promise_job\<close>.\<close>

definition wrapped_deleter :: "('p \<Rightarrow> (('j, 'z) event_loop_scheme, unit) comp) \<Rightarrow> tid \<Rightarrow> 'p \<Rightarrow> 'j \<Rightarrow>
    ('j, 'z) event_loop_scheme \<Rightarrow> unit waiting \<times> ('j, 'z) event_loop_scheme" where
  "wrapped_deleter f this_thread p promise_job s = call_get this_thread (f p) promise_job s"

section \<open>Shared pointers\<close>

definition make_shared :: "nat \<Rightarrow> own \<Rightarrow> own" where
  "make_shared p s = s\<lparr>use_count := (use_count s)(p := 1), alive := insert p (alive s)\<rparr>"

definition shared_copy :: "nat \<Rightarrow> own \<Rightarrow> own" where
  "shared_copy p s = s\<lparr>use_count := (use_count s)(p := use_count s p + 1)\<rparr>"

definition shared_release :: "(nat \<Rightarrow> exn option) \<Rightarrow> tid \<Rightarrow> nat \<Rightarrow> own \<Rightarrow> exn option \<times> own" where
  "shared_release thr this_thread p s =
     (let s1 = s\<lparr>use_count := (use_count s)(p := use_count s p - 1)\<rparr> in
      if use_count s1 p = 0 then loop_deleter thr this_thread p s1 else (None, s1))"

definition own_start :: "tid \<Rightarrow> own" where
  "own_start t =
     \<lparr>loop_running = True, loop_thread_id = t, loop_thread = True, loop_joinable = True, job_queue = [],
      waker_active = False, tickers = Map.empty, watchers = Map.empty,
      use_count = (\<lambda>_. 0), alive = {}, freed = []\<rparr>"

text \<open>
  Any thread \<open>t\<close> makes, copies and releases pointers and queues jobs; the loop's thread
  processes the queue. An address may be used again once its object is gone.
\<close>

inductive own_step :: "(nat \<Rightarrow> exn option) \<Rightarrow> own \<Rightarrow> own \<Rightarrow> bool" for thr where
  make: "p \<notin> alive s \<Longrightarrow> own_step thr s (make_shared p s)"
| copy: "0 < use_count s p \<Longrightarrow> own_step thr s (shared_copy p s)"
| release: "0 < use_count s p \<Longrightarrow> shared_release thr t p s = (x, s') \<Longrightarrow> own_step thr s s'"
| post: "own_step thr s (call_soon (Own_other k) s)"
| process: "process_job_queue (run_own thr) (loop_thread_id s) s = (x, s') \<Longrightarrow> own_step thr s s'"

inductive_cases own_step_E: "own_step thr s s'"

section \<open>The invariant\<close>

fun deletes :: "own_job list \<Rightarrow> nat list" where
  "deletes [] = []"
| "deletes (Own_delete p # js) = p # deletes js"
| "deletes (Own_other k # js) = deletes js"

lemma deletes_append [simp]: "deletes (js @ ks) = deletes js @ deletes ks"
  by (induction js rule: deletes.induct) simp_all

text \<open>
  Whatever is owned is alive; an object whose deletion is still to run, in \<open>js\<close>, is
  alive, has no owner, and is there once.
\<close>

definition owns :: "own_job list \<Rightarrow> own \<Rightarrow> bool" where
  "owns js s \<longleftrightarrow>
     {p. 0 < use_count s p} \<subseteq> alive s \<and> set (deletes js) \<subseteq> alive s \<and>
     (\<forall>p \<in> set (deletes js). use_count s p = 0) \<and> distinct (deletes js)"

lemma owns_run:
  assumes "owns js s" and "run_jobs (run_own thr) js s = (x, s')"
  shows "owns [] s' \<and> job_queue s' = job_queue s \<and>
         (case x of
            None \<Rightarrow> alive s' = alive s - set (deletes js) \<and> freed s' = freed s @ deletes js
          | Some e \<Rightarrow> \<exists>pre k post. js = pre @ Own_other k # post \<and> thr k = Some e \<and>
              alive s' = alive s - set (deletes pre) \<and> freed s' = freed s @ deletes pre)"
  using assms
proof (induction js arbitrary: s)
  case (Cons j js)
  show ?case
  proof (cases j)
    case (Own_delete p)
    let ?s = "s\<lparr>alive := alive s - {p}, freed := freed s @ [p]\<rparr>"
    have p: "p \<in> alive s" "p \<notin> set (deletes js)" "use_count s p = 0"
      using Cons.prems(1) Own_delete by (simp_all add: owns_def)
    then have "owns js ?s" using Cons.prems(1) Own_delete by (auto simp: owns_def)
    moreover have "run_jobs (run_own thr) js ?s = (x, s')" using Cons.prems(2) Own_delete p(1) by simp
    ultimately have h: "owns [] s' \<and> job_queue s' = job_queue ?s \<and>
         (case x of
            None \<Rightarrow> alive s' = alive ?s - set (deletes js) \<and> freed s' = freed ?s @ deletes js
          | Some e \<Rightarrow> \<exists>pre k post. js = pre @ Own_other k # post \<and> thr k = Some e \<and>
              alive s' = alive ?s - set (deletes pre) \<and> freed s' = freed ?s @ deletes pre)"
      by (rule Cons.IH)
    show ?thesis
    proof (cases x)
      case None
      have "alive s' = alive s - {p} - set (deletes js)" using h None by simp
      then have "alive s' = alive s - set (deletes (Own_delete p # js))" by auto
      then show ?thesis using h None Own_delete by simp
    next
      case (Some e)
      then obtain pre k post where r: "js = pre @ Own_other k # post" "thr k = Some e"
        "alive s' = alive ?s - set (deletes pre)" "freed s' = freed ?s @ deletes pre"
        using h by auto
      then have "j # js = (j # pre) @ Own_other k # post" "alive s' = alive s - set (deletes (j # pre))"
        "freed s' = freed s @ deletes (j # pre)" using Own_delete by auto
      then have "\<exists>pre k post. j # js = pre @ Own_other k # post \<and> thr k = Some e \<and>
          alive s' = alive s - set (deletes pre) \<and> freed s' = freed s @ deletes pre" using r(2) by blast
      then show ?thesis using h Some by simp
    qed
  next
    case (Own_other k)
    then have o: "owns js s" using Cons.prems(1) by (simp add: owns_def)
    show ?thesis
    proof (cases "thr k")
      case None
      then have "run_jobs (run_own thr) js s = (x, s')" using Cons.prems(2) Own_other by simp
      then have h: "owns [] s' \<and> job_queue s' = job_queue s \<and>
         (case x of
            None \<Rightarrow> alive s' = alive s - set (deletes js) \<and> freed s' = freed s @ deletes js
          | Some e \<Rightarrow> \<exists>pre k post. js = pre @ Own_other k # post \<and> thr k = Some e \<and>
              alive s' = alive s - set (deletes pre) \<and> freed s' = freed s @ deletes pre)"
        using Cons.IH [OF o] by blast
      show ?thesis
      proof (cases x)
        case None
        then show ?thesis using h Own_other by simp
      next
        case (Some e)
        then obtain pre i post where r: "js = pre @ Own_other i # post" "thr i = Some e"
          "alive s' = alive s - set (deletes pre)" "freed s' = freed s @ deletes pre"
          using h by auto
        then have "j # js = (j # pre) @ Own_other i # post" "deletes (j # pre) = deletes pre"
          using Own_other by simp_all
        then have "\<exists>pre k post. j # js = pre @ Own_other k # post \<and> thr k = Some e \<and>
            alive s' = alive s - set (deletes pre) \<and> freed s' = freed s @ deletes pre" using r(2-4) by metis
        then show ?thesis using h Some by simp
      qed
    next
      case (Some e)
      then have "x = Some e" "s' = s" using Cons.prems(2) Own_other by simp_all
      moreover have "owns [] s" using o by (simp add: owns_def)
      moreover have "j # js = [] @ Own_other k # js" "alive s = alive s - set (deletes [])"
        "freed s = freed s @ deletes []" using Own_other by simp_all
      ultimately have "\<exists>pre k post. j # js = pre @ Own_other k # post \<and> thr k = Some e \<and>
          alive s' = alive s - set (deletes pre) \<and> freed s' = freed s @ deletes pre"
        "owns [] s' \<and> job_queue s' = job_queue s" using Some by metis+
      then show ?thesis using \<open>x = Some e\<close> by simp
    qed
  qed
qed (simp add: owns_def)

definition own_inv :: "own \<Rightarrow> bool" where
  "own_inv s \<longleftrightarrow> owns (job_queue s) s"

lemma own_process:
  assumes i: "own_inv s" and r: "process_job_queue (run_own thr) (loop_thread_id s) s = (x, s')"
  shows "owns [] s' \<and> job_queue s' = [] \<and>
         (case x of
            None \<Rightarrow> alive s' = alive s - set (deletes (job_queue s)) \<and> freed s' = freed s @ deletes (job_queue s)
          | Some e \<Rightarrow> \<exists>pre k post. job_queue s = pre @ Own_other k # post \<and> thr k = Some e \<and>
              alive s' = alive s - set (deletes pre) \<and> freed s' = freed s @ deletes pre)"
proof -
  have a: "run_jobs (run_own thr) (job_queue s) (s\<lparr>job_queue := []\<rparr>) = (x, s')"
    using r by (simp add: process_job_queue_def in_event_loop_def Let_def)
  have b: "owns (job_queue s) (s\<lparr>job_queue := []\<rparr>)" using i by (simp add: own_inv_def owns_def)
  show ?thesis using owns_run [OF b a] by (cases x) simp_all
qed

lemma own_run_count: "run_jobs (run_own thr) js s = (x, s') \<Longrightarrow> use_count s' = use_count s"
proof (induction js arbitrary: s)
  case (Cons j js)
  obtain y s1 where j: "run_own thr j s = (y, s1)" by fastforce
  then have "use_count s1 = use_count s" by (cases j) (auto split: if_splits)
  then show ?case using Cons j by (cases y) auto
qed simp

lemma own_process_count:
  "process_job_queue (run_own thr) (loop_thread_id s) s = (x, s') \<Longrightarrow> use_count s' = use_count s"
  using own_run_count [of thr "job_queue s" "s\<lparr>job_queue := []\<rparr>" x s']
  by (simp add: process_job_queue_def in_event_loop_def Let_def)

lemma own_step_inv: "own_step thr s s' \<Longrightarrow> own_inv s \<Longrightarrow> own_inv s'"
proof (induction rule: own_step.induct)
  case (make p s)
  then show ?case by (auto simp: make_shared_def own_inv_def owns_def)
next
  case (copy s p)
  then show ?case by (auto simp: shared_copy_def own_inv_def owns_def)
next
  case (release s p t x s')
  then show ?case
    by (auto simp: shared_release_def loop_deleter_def loop_call_def call_soon_def own_inv_def owns_def Let_def
        split: if_splits)
next
  case (post s k)
  then show ?case by (simp add: call_soon_def own_inv_def owns_def)
next
  case (process s x s')
  then show ?case using own_process [of s thr x s'] by (simp add: own_inv_def)
qed

lemma own_reach: "(own_step thr)\<^sup>*\<^sup>* (own_start t) s \<Longrightarrow> own_inv s"
proof (induction rule: rtranclp_induct)
  case base
  show ?case by (simp add: own_start_def own_inv_def owns_def)
qed (rule own_step_inv)

section \<open>Properties\<close>



end
