(* ===== verification/Loop_Setup.thy ===== *)
theory Loop_Setup
  imports Loop Log_Calls
begin

text \<open>
  How an event loop comes to be (\<open>src/loop.cpp\<close>): the process-wide part, done by the
  first loop only, the configuration of the base, the waker of the job queue and the
  loop's thread; and the callback that receives libevent's own log messages.
\<close>

section \<open>libevent's log messages\<close>

definition EVENT_LOG_DEBUG :: int where [const_defs]: "EVENT_LOG_DEBUG = 0"
definition EVENT_LOG_MSG :: int where [const_defs]: "EVENT_LOG_MSG = 1"
definition EVENT_LOG_WARN :: int where [const_defs]: "EVENT_LOG_WARN = 2"
definition EVENT_LOG_ERR :: int where [const_defs]: "EVENT_LOG_ERR = 3"

datatype ending = Returned | Aborted

text \<open>
  The callback of \<open>setup_libevent_logging\<close>: the \<open>switch\<close> only chooses the level, and
  \<open>std::abort()\<close> follows it.
\<close>

definition libevent_log_cb :: "int \<Rightarrow> string \<Rightarrow> Logger \<times> log_lines \<Rightarrow> ending \<times> Logger \<times> log_lines" where
  "libevent_log_cb severity msg s =
     (Aborted,
      snd ((if severity = EVENT_LOG_ERR then log_error msg
            else if severity = EVENT_LOG_WARN then log_warn msg
            else if severity = EVENT_LOG_MSG then log_info msg
            else if severity = EVENT_LOG_DEBUG then log_debug msg
            else returnc ()) s))"

section \<open>The backends\<close>

text \<open>
  \<open>event_get_supported_methods()\<close>: a null pointer, or an array of C strings up to a
  null entry; reading on past its end is out of bounds.
\<close>

fun methods_from :: "string option list \<Rightarrow> string list result" where
  "methods_from [] = Inl out_of_bounds"
| "methods_from (None # _) = Inr []"
| "methods_from (Some m # ms) = bind_result (methods_from ms) (\<lambda>r. Inr (m # r))"

definition get_ev_methods :: "string option list option \<Rightarrow> string list result" where
  "get_ev_methods methods = (case methods of None \<Rightarrow> Inr [] | Some ms \<Rightarrow> methods_from ms)"

lemma methods_from_eq:
  "methods_from ms = (if None \<in> set ms then Inr (map the (takeWhile (\<lambda>m. m \<noteq> None) ms)) else Inl out_of_bounds)"
  by (induction ms rule: methods_from.induct) auto

section \<open>Construction\<close>

definition EVENT_BASE_FLAG_NO_CACHE_TIME :: nat where [const_defs]: "EVENT_BASE_FLAG_NO_CACHE_TIME = 8"
definition EVENT_BASE_FLAG_EPOLL_USE_CHANGELIST :: nat where [const_defs]: "EVENT_BASE_FLAG_EPOLL_USE_CHANGELIST = 16"
definition EVENT_BASE_FLAG_PRECISE_TIMER :: nat where [const_defs]: "EVENT_BASE_FLAG_PRECISE_TIMER = 32"
definition EVLOOP_NO_EXIT_ON_EMPTY :: nat where [const_defs]: "EVLOOP_NO_EXIT_ON_EMPTY = 4"

datatype setup_call =
    Set_log_callback | Use_pthreads | Get_methods | Config_new | Config_flag nat | Base_new
  | Base_method | Waker_new | Thread_start | Base_loop nat

text \<open>What outlives a loop: the two function-local statics, and the calls made so far.\<close>

record process =
  once :: bool
  ev_methods_avail :: "string list option"
  setup_calls :: "setup_call list"

definition process_start :: process where
  "process_start = \<lparr>once = False, ev_methods_avail = None, setup_calls = []\<rparr>"

record ev_api =
  supported_methods :: "string option list option"
  base_new_ok :: bool   \<comment> \<open>\<open>event_base_new_with_config\<close>\<close>
  waker_new_ok :: bool  \<comment> \<open>\<open>event_new\<close> of the waker\<close>

definition setup_call :: "setup_call \<Rightarrow> (process, unit) comp" where
  "setup_call c = modifyc (\<lambda>p. p\<lparr>setup_calls := setup_calls p @ [c]\<rparr>)"

definition setup_once :: "(process, unit) comp" where
  "setup_once =
     bindc getc (\<lambda>p. if once p then returnc ()
       else thenc (modifyc (\<lambda>p. p\<lparr>once := True\<rparr>))
           (thenc (setup_call Set_log_callback) (setup_call Use_pthreads)))"

definition load_methods :: "ev_api \<Rightarrow> (process, unit) comp" where
  "load_methods api =
     bindc getc (\<lambda>p. case ev_methods_avail p of
       Some _ \<Rightarrow> returnc ()
     | None \<Rightarrow> thenc (setup_call Get_methods)
         (case get_ev_methods (supported_methods api) of
            Inl x \<Rightarrow> throwc x
          | Inr ms \<Rightarrow> modifyc (\<lambda>p. p\<lparr>ev_methods_avail := Some ms\<rparr>)))"

text \<open>\<open>setup_job_waker\<close>; the waker's callback is \<open>process_job_queue\<close> on this loop.\<close>

definition setup_job_waker :: "ev_api \<Rightarrow> (process, unit) comp" where
  "setup_job_waker api = thenc (setup_call Waker_new) (guardc (waker_new_ok api) assert_failed)"

definition waker_callback :: "('j, 'z) job_runner \<Rightarrow> tid \<Rightarrow> ('j, 'z) event_loop_scheme \<Rightarrow>
    exn option \<times> ('j, 'z) event_loop_scheme" where
  "waker_callback run this_thread s = process_job_queue run this_thread s"

text \<open>
  The constructor. Without a base \<open>event_base_get_method\<close> reads through a null pointer.
  \<open>t\<close> is the identifier of the thread it starts, which the loop then belongs to.
\<close>

definition event_loop_construct :: "ev_api \<Rightarrow> tid \<Rightarrow> (process, 'j event_loop) comp" where
  "event_loop_construct api t =
     thenc setup_once
    (thenc (load_methods api)
    (thenc (setup_call Config_new)
    (thenc (setup_call (Config_flag EVENT_BASE_FLAG_PRECISE_TIMER))
    (thenc (setup_call (Config_flag EVENT_BASE_FLAG_NO_CACHE_TIME))
    (thenc (setup_call (Config_flag EVENT_BASE_FLAG_EPOLL_USE_CHANGELIST))
    (thenc (setup_call Base_new)
    (thenc (guardc (base_new_ok api) null_deref)
    (thenc (setup_call Base_method)
    (thenc (setup_job_waker api)
    (thenc (setup_call Thread_start)
    (thenc (setup_call (Base_loop EVLOOP_NO_EXIT_ON_EMPTY))
           (returnc (event_loop_new t)))))))))))))"

definition event_loop_make :: "ev_api \<Rightarrow> tid \<Rightarrow> (process, 'j event_loop) comp" where
  "event_loop_make api t = event_loop_construct api t"

text \<open>The loops a process makes one after the other.\<close>

fun make_loops :: "(ev_api \<times> tid) list \<Rightarrow> process \<Rightarrow> 'j event_loop result list \<times> process" where
  "make_loops [] p = ([], p)"
| "make_loops ((api, t) # ls) p =
     (let (r, p1) = event_loop_make api t p; (rs, p2) = make_loops ls p1 in (r # rs, p2))"

section \<open>Lemmas\<close>

lemma setup_defs_apply:
  "setup_call c p = (Inr (), p\<lparr>setup_calls := setup_calls p @ [c]\<rparr>)"
  "setup_once p = (Inr (), if once p then p
     else p\<lparr>once := True, setup_calls := setup_calls p @ [Set_log_callback, Use_pthreads]\<rparr>)"
  by (simp_all add: setup_call_def setup_once_def thenc_def bindc_def)

definition loop_calls :: "setup_call list" where
  "loop_calls =
     [Config_new, Config_flag EVENT_BASE_FLAG_PRECISE_TIMER, Config_flag EVENT_BASE_FLAG_NO_CACHE_TIME,
      Config_flag EVENT_BASE_FLAG_EPOLL_USE_CHANGELIST, Base_new, Base_method, Waker_new, Thread_start,
      Base_loop EVLOOP_NO_EXIT_ON_EMPTY]"

text \<open>What the first loop of a process does before the others' part, and what every one adds.\<close>

lemma construct_calls:
  assumes "event_loop_construct api t p = (r, p')"
  shows "once p' \<and> (\<exists>cs. setup_calls p' =
      setup_calls p @ (if once p then [] else [Set_log_callback, Use_pthreads]) @ cs \<and>
      set cs \<subseteq> insert Get_methods (set loop_calls)) \<and>
    (case r of Inr l \<Rightarrow> l = event_loop_new t | Inl x \<Rightarrow> x \<in> {out_of_bounds, null_deref, assert_failed})"
proof (cases "get_ev_methods (supported_methods api)")
  case (Inl x)
  then have "x = out_of_bounds"
    by (auto simp: get_ev_methods_def methods_from_eq split: option.splits if_splits)
  then show ?thesis
    using assms Inl
    by (auto simp: event_loop_construct_def load_methods_def setup_job_waker_def thenc_def bindc_def
        setup_defs_apply guardc_cases loop_calls_def split: option.splits if_splits)
next
  case (Inr ms)
  then show ?thesis
    using assms
    by (auto simp: event_loop_construct_def load_methods_def setup_job_waker_def thenc_def bindc_def
        setup_defs_apply guardc_cases loop_calls_def split: option.splits if_splits)
qed

lemma make_loops_calls:
  fixes rs :: "'j event_loop result list"
  assumes "make_loops ls p = (rs, p')"
  shows "\<exists>cs. setup_calls p' =
           setup_calls p @ (if once p \<or> ls = [] then [] else [Set_log_callback, Use_pthreads]) @ cs \<and>
           set cs \<subseteq> insert Get_methods (set loop_calls) \<and>
           list_all2 (\<lambda>(api, t) r. case r of Inr l \<Rightarrow> l = event_loop_new t
                        | Inl x \<Rightarrow> x \<in> {out_of_bounds, null_deref, assert_failed}) ls rs"
  using assms
proof (induction ls arbitrary: p p' rs)
  case (Cons a ls)
  obtain api t where a: "a = (api, t)" by fastforce
  obtain r :: "'j event_loop result" and p1 where r: "event_loop_make api t p = (r, p1)" by fastforce
  obtain rs1 :: "'j event_loop result list" and p2 where rs1: "make_loops ls p1 = (rs1, p2)" by fastforce
  obtain cs1 where c1: "once p1" "setup_calls p1 =
      setup_calls p @ (if once p then [] else [Set_log_callback, Use_pthreads]) @ cs1"
      "set cs1 \<subseteq> insert Get_methods (set loop_calls)"
      "case r of Inr l \<Rightarrow> l = event_loop_new t | Inl x \<Rightarrow> x \<in> {out_of_bounds, null_deref, assert_failed}"
    using construct_calls [OF r [unfolded event_loop_make_def]] by blast
  obtain cs2 where c2: "setup_calls p2 = setup_calls p1 @ cs2" "set cs2 \<subseteq> insert Get_methods (set loop_calls)"
      "list_all2 (\<lambda>(api, t) r. case r of Inr l \<Rightarrow> l = event_loop_new t
          | Inl x \<Rightarrow> x \<in> {out_of_bounds, null_deref, assert_failed}) ls rs1"
    using Cons.IH [OF rs1] c1(1) by auto
  have "rs = r # rs1" "p' = p2" using Cons.prems a r rs1 by simp_all
  then show ?case
    using a c1 c2 by (intro exI [of _ "cs1 @ cs2"]) (cases r; simp)
qed simp

section \<open>Properties\<close>

text \<open>
  Any message that libevent logs ends the program: after the message has been
  logged at the level of its severity the callback aborts, also for a warning or a
  plain message, which libevent documents as no reason to stop.
\<close>

theorem libevent_message_aborts:
  "libevent_log_cb severity msg (\<lparr>logger_ptr = Some p\<rparr>, lines) =
     (Aborted, \<lparr>logger_ptr = Some p\<rparr>,
      lines @ (case map_of [(EVENT_LOG_ERR, err), (EVENT_LOG_WARN, warn), (EVENT_LOG_MSG, info),
                            (EVENT_LOG_DEBUG, debug)] severity of
                 None \<Rightarrow> []
               | Some lv \<Rightarrow> if log_level p \<le> lv then [(lv, msg)] else []))"
  by (auto simp: libevent_log_cb_def log_error_def log_warn_def log_info_def log_debug_def log_at_def
      const_defs)

text \<open>
  The loops of a process share one set-up: whichever of them succeed, libevent's
  thread support and log callback are installed once, by the first, before any base is
  created, and never again; each constructor returns an empty running loop on the
  thread it started, or ends on a failed assertion, a null base or an unterminated
  table of backends.
\<close>

theorem loops_share_setup:
  assumes "make_loops ls process_start = (rs, p)" and "ls \<noteq> []"
  shows "take 2 (setup_calls p) = [Set_log_callback, Use_pthreads] \<and>
         {Set_log_callback, Use_pthreads} \<inter> set (drop 2 (setup_calls p)) = {} \<and>
         list_all2 (\<lambda>(api, t) r. case r of Inr l \<Rightarrow> l = event_loop_new t
                      | Inl x \<Rightarrow> x \<in> {out_of_bounds, null_deref, assert_failed}) ls rs"
proof -
  obtain cs where "setup_calls p = [Set_log_callback, Use_pthreads] @ cs"
      "set cs \<subseteq> insert Get_methods (set loop_calls)"
      "list_all2 (\<lambda>(api, t) r. case r of Inr l \<Rightarrow> l = event_loop_new t
          | Inl x \<Rightarrow> x \<in> {out_of_bounds, null_deref, assert_failed}) ls rs"
    using make_loops_calls [OF assms(1)] assms(2) by (auto simp: process_start_def)
  then show ?thesis by (auto simp: loop_calls_def)
qed

definition toy_ev_api :: ev_api where
  "toy_ev_api = \<lparr>supported_methods = Some [Some ''epoll'', None], base_new_ok = True, waker_new_ok = True\<rparr>"

theorem loops_share_setup_witness:
  "\<exists>p. make_loops [(toy_ev_api, 3), (toy_ev_api\<lparr>waker_new_ok := False\<rparr>, 4)] process_start =
         ([Inr (event_loop_new 3 :: nat event_loop), Inl assert_failed], p) \<and>
       {Set_log_callback, Use_pthreads} \<inter> set (drop 2 (setup_calls p)) = {}"
proof -
  let ?ls = "[(toy_ev_api, 3), (toy_ev_api\<lparr>waker_new_ok := False\<rparr>, 4)]"
  obtain rs p where r: "make_loops ?ls process_start = (rs :: nat event_loop result list, p)" by fastforce
  then have "rs = [Inr (event_loop_new 3), Inl assert_failed]"
    by (auto simp: toy_ev_api_def event_loop_make_def event_loop_construct_def load_methods_def
        setup_job_waker_def thenc_def bindc_def setup_defs_apply guardc_cases get_ev_methods_def process_start_def)
  then show ?thesis using loops_share_setup [OF r] r by auto
qed

text \<open>
  Reading the table of backends stops at its first null entry and gives the names
  before it; without one it reads out of bounds.
\<close>

theorem ev_methods_terminated:
  "get_ev_methods (Some (map Some names @ None # rest)) = Inr names \<and>
   get_ev_methods (Some (map Some names)) = Inl out_of_bounds \<and> get_ev_methods None = Inr []"
  by (simp add: get_ev_methods_def methods_from_eq takeWhile_append takeWhile_map comp_def)

end
