(* ===== verification/Accessors.thy ===== *)
theory Accessors
  imports Api Owners Loop_Setup
begin

text \<open>
  The small members through which the parts of the program reach each other: copies,
  getters, setters and equalities of addresses and paths, the literal operators and the
  patterns of log lines, what a node is known by, the arrays behind a list of
  headers or settings, the pass-through members of an endpoint and its two \<open>make\<close>
  functions.
\<close>

section \<open>Addresses and paths\<close>

definition set_port :: "u16 \<Rightarrow> ip_address \<Rightarrow> ip_address" where
  "set_port p a = a\<lparr>ip_port := p\<rparr>"

text \<open>Copy construction and assignment go through \<open>_copy_internals\<close>; the old value does not matter.\<close>

definition ip_copy :: "ip_address \<Rightarrow> ip_address" where
  "ip_copy a = copy_internals a"

definition ip_assign :: "ip_address \<Rightarrow> ip_address \<Rightarrow> ip_address" where
  "ip_assign this a = copy_internals a"

definition path_make :: "ip_address \<Rightarrow> ip_address \<Rightarrow> conn_path" where
  "path_make l r = \<lparr>path_local = ip_copy l, path_remote = ip_copy r\<rparr>"

definition path_copy :: "conn_path \<Rightarrow> conn_path" where
  "path_copy p = path_make (path_local p) (path_remote p)"

definition path_assign :: "conn_path \<Rightarrow> conn_path \<Rightarrow> conn_path" where
  "path_assign this p =
     this\<lparr>path_local := ip_assign (path_local this) (path_local p),
          path_remote := ip_assign (path_remote this) (path_remote p)\<rparr>"

definition ip_get_port :: "ip_address \<Rightarrow> u16" where
  "ip_get_port a = ip_port a"

text \<open>The cached flag, which \<open>cached_flag_decides\<close> is about, not the variant.\<close>

definition ip_is_ipv4 :: "ip_address \<Rightarrow> bool" where
  "ip_is_ipv4 a = is_v4 a"

definition path_get_local :: "conn_path \<Rightarrow> ip_address" where
  "path_get_local p = path_local p"

definition path_get_remote :: "conn_path \<Rightarrow> ip_address" where
  "path_get_remote p = path_remote p"

text \<open>Equality goes through the comparison.\<close>

definition ipv4_eq :: "ipv4 \<Rightarrow> ipv4 \<Rightarrow> bool" where
  "ipv4_eq a b \<longleftrightarrow> ipv4_compare a b = ord_equal"

definition ipv6_eq :: "ipv6 \<Rightarrow> ipv6 \<Rightarrow> bool" where
  "ipv6_eq a b \<longleftrightarrow> ipv6_compare a b = ord_equal"

text \<open>\<open>uri::parse\<close> on a span.\<close>

definition uri_parse_span :: "'u ada_api \<Rightarrow> byte list \<Rightarrow> ('u url_parser, uri) comp" where
  "uri_parse_span ada u = uri_parse ada (map char_of_byte u)"

section \<open>Nodes\<close>

definition node_href :: "node \<Rightarrow> string" where
  "node_href n = uri_href (node_uri n)"

definition hash_node :: "(string \<Rightarrow> size_t) \<Rightarrow> node \<Rightarrow> size_t" where
  "hash_node h n = h (node_href n)"

definition handle_nd_opts :: "ip_address \<Rightarrow> node \<Rightarrow> node" where
  "handle_nd_opts local n = n\<lparr>node_local := Some (ip_copy local)\<rparr>"

text \<open>An outbound session's \<open>get_uri\<close>: the uri of the node it belongs to.\<close>

definition session_get_uri :: "nat \<Rightarrow> 'u world \<Rightarrow> uri result" where
  "session_get_uri sid w =
     (case outbounds w sid of
        None \<Rightarrow> Inl use_after_free
      | Some (_, nid) \<Rightarrow> (case nodes w nid of None \<Rightarrow> Inl use_after_free | Some n \<Rightarrow> Inr (node_uri n)))"

definition session_path :: "session \<Rightarrow> conn_path" where
  "session_path s = sess_path s"

definition session_is_outbound :: "session \<Rightarrow> bool" where
  "session_is_outbound s = sess_is_outbound s"

text \<open>The conversion to the \<open>nghttp2_session*\<close>: null before there is one.\<close>

definition session_handle :: "session \<Rightarrow> session_callback set option" where
  "session_handle s = sess_nghttp2 s"

definition stream_get_fd :: "stream \<Rightarrow> int" where
  "stream_get_fd s = stream_fd s"

definition context_I :: "app_context \<Rightarrow> ssl_ctx option" where
  "context_I c = ctx_I c"

definition context_O :: "app_context \<Rightarrow> ssl_ctx option" where
  "context_O c = ctx_O c"

section \<open>Constants\<close>

text \<open>The literal operators: the span of the whole array.\<close>

definition operator_sp :: "string \<Rightarrow> char list" where
  "operator_sp s = sp s"

definition operator_usp :: "string \<Rightarrow> byte list" where
  "operator_usp s = usp s"

definition operator_bsp :: "string \<Rightarrow> byte list" where
  "operator_bsp s = bsp s"

definition types_get :: "byte list" where
  "types_get = operator_usp ''GET''"

text \<open>The patterns of a log line; the second is not used. \<open>ESC\<close> starts a terminal sequence.\<close>

definition ESC :: char where
  "ESC = CHR 0x1B"

definition PATTERN_COLOR :: string where
  "PATTERN_COLOR = ''[%H:%M:%S.%e] [%*] ['' @ [ESC] @ ''[1m%n'' @ [ESC] @ ''[0m:%^%l%$] >> %v''"

definition PATTERN_COLOR2 :: string where
  "PATTERN_COLOR2 = ''[%H:%M:%S.%e] [%*] ['' @ [ESC] @ ''[1m%n'' @ [ESC] @ ''[0m:%^%l%$|'' @ [ESC] @
     ''[3m%g:%#'' @ [ESC] @ ''[0m] >> %v''"

section \<open>The arrays given to nghttp2\<close>

definition headers_data :: "headers \<Rightarrow> nghttp2_nv list" where
  "headers_data h = hdrs h"

definition settings_data :: "settings \<Rightarrow> settings_entry list" where
  "settings_data s = setting_list s"

definition settings_size :: "settings \<Rightarrow> size_t" where
  "settings_size s = of_nat (length (setting_list s))"

section \<open>The endpoint\<close>

definition endpoint_in_event_loop :: "tid \<Rightarrow> 'u world \<Rightarrow> bool" where
  "endpoint_in_event_loop this_thread w = in_event_loop this_thread w"

definition endpoint_make_shared :: "nat \<Rightarrow> own \<Rightarrow> own" where
  "endpoint_make_shared p s = make_shared p s"

text \<open>\<open>shared_ptr\<close>, of the loop and of the endpoint: the deleter of the pointer it makes.\<close>

definition loop_shared_ptr :: "('p \<Rightarrow> (('j, 'z) event_loop_scheme, unit) comp) \<Rightarrow> tid \<Rightarrow> 'p \<Rightarrow> 'j \<Rightarrow>
    ('j, 'z) event_loop_scheme \<Rightarrow> unit waiting \<times> ('j, 'z) event_loop_scheme" where
  "loop_shared_ptr deleter this_thread p promise_job s = wrapped_deleter deleter this_thread p promise_job s"

definition endpoint_shared_ptr :: "('p \<Rightarrow> (('j, 'z) event_loop_scheme, unit) comp) \<Rightarrow> tid \<Rightarrow> 'p \<Rightarrow> 'j \<Rightarrow>
    ('j, 'z) event_loop_scheme \<Rightarrow> unit waiting \<times> ('j, 'z) event_loop_scheme" where
  "endpoint_shared_ptr deleter this_thread p promise_job s = loop_shared_ptr deleter this_thread p promise_job s"

text \<open>
  \<open>make\<close> on an existing loop, which the endpoint shares with whoever else uses it, and
  \<open>make\<close> with a loop of its own. The results are the new endpoint, the next client id
  and the process.
\<close>

definition on_loop :: "job event_loop \<Rightarrow> 'u world \<Rightarrow> 'u world" where
  "on_loop l w =
     w\<lparr>loop_running := loop_running l, loop_thread_id := loop_thread_id l, loop_thread := loop_thread l,
       loop_joinable := loop_joinable l, job_queue := job_queue l, waker_active := waker_active l,
       tickers := tickers l, watchers := watchers l\<rparr>"

definition endpoint_make_on :: "openssl \<Rightarrow> ssl_creds option \<Rightarrow> job event_loop \<Rightarrow> u16 \<Rightarrow> 'u url_parser \<Rightarrow> int set \<Rightarrow>
    'u world result \<times> u16" where
  "endpoint_make_on ssl creds ev_loop next_id prs fds =
     apfst (map_sum id (on_loop ev_loop)) (endpoint_make ssl creds (loop_thread_id ev_loop) next_id prs fds)"

definition endpoint_make_new :: "ev_api \<Rightarrow> tid \<Rightarrow> openssl \<Rightarrow> ssl_creds option \<Rightarrow> u16 \<Rightarrow> 'u url_parser \<Rightarrow> int set \<Rightarrow>
    process \<Rightarrow> 'u world result \<times> u16 \<times> process" where
  "endpoint_make_new api t ssl creds next_id prs fds pr =
     (case event_loop_make api t pr of
        (Inl x, pr') \<Rightarrow> (Inl x, next_id, pr')
      | (Inr l, pr') \<Rightarrow>
          (let (r, next') = endpoint_make_on ssl creds l next_id prs fds in (r, next', pr')))"

section \<open>Theorems\<close>

text \<open>
  A copied or assigned address or path is the original in all that \<open>==\<close>, hashing and
  printing look at, the cached flag included; setting the port keeps the flag honest.
\<close>

theorem copies_exact:
  "ip_copy a = a \<and> ip_assign x a = a \<and> path_copy p = p \<and> path_assign q p = p \<and>
   flag_ok (set_port n a) = flag_ok a \<and> ip (set_port n a) = ip a"
  by (simp add: ip_copy_def ip_assign_def copy_internals_def path_copy_def path_make_def path_assign_def
      flag_ok_def set_port_def)

text \<open>The equalities that go through a comparison are equality.\<close>

theorem address_equalities:
  "ipv4_eq a b = (a = b) \<and> ipv6_eq c d = (c = d)"
  by (simp add: ipv4_eq_def ipv6_eq_def ipv4_compare_eq_iff ipv6_compare_eq_iff)

text \<open>Every literal is one element longer than what it spells, the request type included.\<close>

theorem literal_lengths:
  "length (operator_sp s) = length s + 1 \<and> length (operator_usp s) = length s + 1 \<and>
   length (operator_bsp s) = length s + 1 \<and> length types_get = 4"
  by (simp add: operator_sp_def operator_usp_def operator_bsp_def types_get_def sp_def usp_def bsp_def
      literal_span_def literal_arr_def c_literal_def)

theorem recv_path_header_parses_span:
  "recv_path_header ada path s e =
     (case uri_parse_span ada path (url_state e) of
        (Inl x, p) \<Rightarrow> (Inl x, s, e\<lparr>url_state := p\<rparr>)
      | (Inr u, p) \<Rightarrow>
          (Inr (if uri_bool u then 0 else NGHTTP2_ERR_CALLBACK_FAILURE), s\<lparr>stream_req := u\<rparr>, e\<lparr>url_state := p\<rparr>))"
  by (simp add: recv_path_header_def uri_parse_span_def)

text \<open>
  An endpoint with a loop of its own works on that loop's thread and starts with nothing
  listening, no connection and an empty queue; its id is the next one. On a loop that is
  in use the jobs and tickers already there stay.
\<close>

lemma endpoint_make_on_fields:
  assumes "endpoint_make_on ssl creds l next_id prs fds = (Inr w, next')"
  shows "endpoint_in_event_loop (loop_thread_id l) w" "ep_client_id w = next_id + 1" "next' = next_id + 1"
    "ep_listeners w = []" "ep_nodes w = []" "job_queue w = job_queue l" "tickers w = tickers l" "inbounds w = Map.empty"
    "outbounds w = Map.empty"
  using assms
  by (auto simp: endpoint_make_on_def endpoint_make_def take_client_id_def on_loop_def endpoint_in_event_loop_def
      in_event_loop_def split: sum.splits)

theorem endpoint_make_new_fresh:
  assumes "endpoint_make_new api t ssl creds next_id prs fds pr = (Inr w, next', pr')"
  shows "endpoint_in_event_loop t w \<and> ep_client_id w = next_id + 1 \<and> next' = next_id + 1 \<and>
         ep_listeners w = [] \<and> ep_nodes w = [] \<and> inbounds w = Map.empty \<and> outbounds w = Map.empty \<and>
         job_queue w = [] \<and> tickers w = Map.empty"
proof -
  obtain l where l: "event_loop_make api t pr = (Inr (l :: job event_loop), pr')"
      "endpoint_make_on ssl creds l next_id prs fds = (Inr w, next')"
    using assms by (auto simp: endpoint_make_new_def split: prod.splits sum.splits)
  have "l = event_loop_new t"
    using construct_calls [OF l(1) [unfolded event_loop_make_def]] by simp
  then show ?thesis using endpoint_make_on_fields [OF l(2)] by (simp add: event_loop_new_def)
qed

end
