(* ===== verification/Happens_Before.thy ===== *)
theory Happens_Before
  imports Main
begin

text \<open>
  What C++ calls a data race (\<open>intro.races\<close>): two accesses of one object by different
  threads, one of them a write, that happens-before does not order. An execution is the
  list of its events in the order in which they took place; the sources of order are the
  program order of a thread and the synchronisation of a release with a later acquire of
  the same object (a mutex that is unlocked and locked, a promise that is set and waited
  for). Beside the definition there is a scan from left to right that follows what is
  known of one event, and the proof that it finds exactly what happens-before orders. The
  locale \<open>guarded\<close> says what a discipline must keep for a location never to race.
\<close>

section \<open>Executions and happens-before\<close>

datatype ('l, 'm) event = Rd 'l | Wr 'l | Acquire 'm | Release 'm | Sync 'm

text \<open>\<open>Sync m\<close> acquires and releases \<open>m\<close>: a call that locks and unlocks it inside.\<close>

type_synonym ('t, 'l, 'm) execution = "('t \<times> ('l, 'm) event) list"

fun acquires :: "('l, 'm) event \<Rightarrow> 'm option" where
  "acquires (Acquire m) = Some m"
| "acquires (Sync m) = Some m"
| "acquires _ = None"

fun releases :: "('l, 'm) event \<Rightarrow> 'm option" where
  "releases (Release m) = Some m"
| "releases (Sync m) = Some m"
| "releases _ = None"

fun accesses :: "('l, 'm) event \<Rightarrow> 'l option" where
  "accesses (Rd x) = Some x"
| "accesses (Wr x) = Some x"
| "accesses _ = None"

definition synchronizes :: "('l, 'm) event \<Rightarrow> ('l, 'm) event \<Rightarrow> bool" where
  "synchronizes e f \<longleftrightarrow> (\<exists>m. releases e = Some m \<and> acquires f = Some m)"

definition ordered_pair :: "('t, 'l, 'm) execution \<Rightarrow> nat \<Rightarrow> nat \<Rightarrow> bool" where
  "ordered_pair tr i j \<longleftrightarrow> i < j \<and> j < length tr \<and>
     (fst (tr ! i) = fst (tr ! j) \<or> synchronizes (snd (tr ! i)) (snd (tr ! j)))"

abbreviation happens_before :: "('t, 'l, 'm) execution \<Rightarrow> nat \<Rightarrow> nat \<Rightarrow> bool" where
  "happens_before tr \<equiv> (ordered_pair tr)\<^sup>+\<^sup>+"

definition conflict :: "('l, 'm) event \<Rightarrow> ('l, 'm) event \<Rightarrow> 'l \<Rightarrow> bool" where
  "conflict e f x \<longleftrightarrow> accesses e = Some x \<and> accesses f = Some x \<and> (e = Wr x \<or> f = Wr x)"

definition data_race :: "('t, 'l, 'm) execution \<Rightarrow> 'l \<Rightarrow> bool" where
  "data_race tr x \<longleftrightarrow> (\<exists>i j. i < j \<and> j < length tr \<and> fst (tr ! i) \<noteq> fst (tr ! j) \<and>
     conflict (snd (tr ! i)) (snd (tr ! j)) x \<and> \<not> happens_before tr i j)"

lemma happens_before_bounds: "happens_before tr i j \<Longrightarrow> i < j \<and> j < length tr"
  by (induction rule: tranclp_induct) (auto simp: ordered_pair_def)

lemma ordered_pair_append:
  "j < length tr \<Longrightarrow> ordered_pair (tr @ es) i j \<longleftrightarrow> ordered_pair tr i j"
  by (auto simp: ordered_pair_def nth_append)

text \<open>What comes later does not change the order of what came before.\<close>

lemma happens_before_append:
  assumes "j < length tr"
  shows "happens_before (tr @ es) i j \<longleftrightarrow> happens_before tr i j"
proof
  show "happens_before tr i j" if "happens_before (tr @ es) i j"
    using that assms
  proof (induction rule: tranclp_induct)
    case (base j) then show ?case by (simp add: ordered_pair_append tranclp.r_into_trancl)
  next
    case (step j k)
    then have "ordered_pair tr j k" by (simp add: ordered_pair_append)
    then have "j < length tr" by (simp add: ordered_pair_def)
    then show ?case using step \<open>ordered_pair tr j k\<close> by (meson tranclp.trancl_into_trancl)
  qed
next
  show "happens_before (tr @ es) i j" if "happens_before tr i j"
    using that
  proof (induction rule: tranclp_induct)
    case (base j)
    then show ?case by (metis ordered_pair_append ordered_pair_def tranclp.r_into_trancl)
  next
    case (step j k)
    then show ?case by (metis ordered_pair_append ordered_pair_def tranclp.trancl_into_trancl)
  qed
qed

section \<open>Following what is known of an event\<close>

text \<open>A node is a thread that knows of the event, or an object released by one that does.\<close>

datatype ('t, 'm) node = Thread 't | Object 'm

fun learn :: "('t, 'm) node set \<Rightarrow> 't \<times> ('l, 'm) event \<Rightarrow> ('t, 'm) node set" where
  "learn K (t, Acquire m) = (if Object m \<in> K then insert (Thread t) K else K)"
| "learn K (t, Release m) = (if Thread t \<in> K then insert (Object m) K else K)"
| "learn K (t, Sync m) =
     (if Object m \<in> K \<or> Thread t \<in> K then insert (Thread t) (insert (Object m) K) else K)"
| "learn K (t, _) = K"

definition knows :: "('t, 'm) node set \<Rightarrow> ('t, 'l, 'm) execution \<Rightarrow> ('t, 'm) node set" where
  "knows K es = fold (\<lambda>e K. learn K e) es K"

lemma knows_simps [simp]:
  "knows K [] = K"
  "knows K (es @ [e]) = learn (knows K es) e"
  by (simp_all add: knows_def)

lemma learn_mono: "n \<in> K \<Longrightarrow> n \<in> learn K e"
  by (cases "(K, e)" rule: learn.cases) auto

lemma learn_thread:
  "Thread u \<in> learn K (t, e) \<longleftrightarrow>
     Thread u \<in> K \<or> u = t \<and> (\<exists>m. acquires e = Some m \<and> Object m \<in> K)"
  by (cases e) auto

lemma learn_object:
  "Object m \<in> learn K (t, e) \<longleftrightarrow>
     Object m \<in> K \<or> releases e = Some m \<and>
       (Thread t \<in> K \<or> (\<exists>m'. acquires e = Some m' \<and> Object m' \<in> K))"
  by (cases e) auto

text \<open>
  A thread knows of position \<open>i\<close> when one of its events is \<open>i\<close> or after it; an object when it
  was released there.
\<close>

definition from_on :: "('t, 'l, 'm) execution \<Rightarrow> nat \<Rightarrow> nat \<Rightarrow> bool" where
  "from_on tr i p \<longleftrightarrow> p < length tr \<and> (p = i \<or> happens_before tr i p)"

lemma from_on_snoc:
  assumes i: "i < length tr"
  shows "from_on (tr @ [(t, e)]) i p \<longleftrightarrow>
    from_on tr i p \<or>
    p = length tr \<and> (\<exists>q. from_on tr i q \<and>
      (fst (tr ! q) = t \<or> synchronizes (snd (tr ! q)) e))"
    (is "?l \<longleftrightarrow> _ \<or> p = length tr \<and> ?r")
proof -
  let ?tr = "tr @ [(t, e)]"
  have old: "from_on ?tr i p \<longleftrightarrow> from_on tr i p" if "p < length tr" for p
    using that by (simp add: from_on_def happens_before_append)
  have new: "ordered_pair ?tr q (length tr) \<longleftrightarrow>
      q < length tr \<and> (fst (tr ! q) = t \<or> synchronizes (snd (tr ! q)) e)" for q
    by (auto simp: ordered_pair_def nth_append)
  have "from_on ?tr i (length tr) \<longleftrightarrow> happens_before ?tr i (length tr)"
    using i by (simp add: from_on_def)
  also have "\<dots> \<longleftrightarrow> (\<exists>q. (i = q \<or> happens_before ?tr i q) \<and> ordered_pair ?tr q (length tr))"
    by (subst tranclp.simps) blast
  also have "\<dots> \<longleftrightarrow> ?r"
    using old by (auto simp: new from_on_def)
  finally have last: "from_on ?tr i (length tr) \<longleftrightarrow> ?r" .
  have b: "p < length tr" if "from_on tr i p" using that by (simp add: from_on_def)
  show ?thesis
  proof (cases "p < length tr")
    case True then show ?thesis using old by simp
  next
    case False
    then have "\<not> from_on tr i p" by (simp add: from_on_def)
    moreover have "\<not> from_on ?tr i p" if "p \<noteq> length tr"
      using that False by (simp add: from_on_def)
    ultimately show ?thesis using last by (cases "p = length tr") simp_all
  qed
qed

lemma knows_exact:
  assumes a: "releases a = None"
  shows "Thread v \<in> knows {Thread u} mid \<longleftrightarrow>
      (\<exists>p. from_on (pre @ (u, a) # mid) (length pre) p \<and> fst ((pre @ (u, a) # mid) ! p) = v)"
    and "Object m \<in> knows {Thread u} mid \<longleftrightarrow>
      (\<exists>p. from_on (pre @ (u, a) # mid) (length pre) p \<and>
        releases (snd ((pre @ (u, a) # mid) ! p)) = Some m)"
proof (induction mid arbitrary: v m rule: rev_induct)
  case Nil
  have f: "from_on (pre @ [(u, a)]) (length pre) p \<longleftrightarrow> p = length pre" for p
    using happens_before_bounds [of "pre @ [(u, a)]" "length pre" p] by (auto simp: from_on_def)
  { case 1 show ?case by (auto simp: f) }
  { case 2 show ?case by (auto simp: f a) }
next
  case (snoc e mid)
  obtain t f where e: "e = (t, f)" by (cases e)
  let ?tr = "pre @ (u, a) # mid"
  let ?i = "length pre"
  let ?on = "from_on ?tr ?i"
  have s: "from_on (pre @ (u, a) # mid @ [e]) ?i p \<longleftrightarrow>
      ?on p \<or> p = length ?tr \<and>
        (\<exists>q. ?on q \<and> (fst (?tr ! q) = t \<or> synchronizes (snd (?tr ! q)) f))" for p
    using from_on_snoc [of ?i ?tr t f p] by (simp add: e)
  have n: "(pre @ (u, a) # mid @ [e]) ! p = (if p = length ?tr then e else ?tr ! p)"
    if "p \<le> length ?tr" for p
    using that nth_append [of ?tr "[e]" p] by auto
  have b: "p < length ?tr" if "?on p" for p using that by (simp add: from_on_def)
  have sync: "(\<exists>q. ?on q \<and> synchronizes (snd (?tr ! q)) f) \<longleftrightarrow>
      (\<exists>m. acquires f = Some m \<and> Object m \<in> knows {Thread u} mid)"
    by (auto simp: synchronizes_def snoc.IH(2))
  have all: "(\<exists>p. from_on (pre @ (u, a) # mid @ [e]) ?i p \<and> Q ((pre @ (u, a) # mid @ [e]) ! p)) \<longleftrightarrow>
      (\<exists>p. ?on p \<and> Q (?tr ! p)) \<or> Q e \<and> (Thread t \<in> knows {Thread u} mid \<or>
        (\<exists>m. acquires f = Some m \<and> Object m \<in> knows {Thread u} mid))" for Q
  proof -
    have "(\<exists>p. from_on (pre @ (u, a) # mid @ [e]) ?i p \<and> Q ((pre @ (u, a) # mid @ [e]) ! p)) \<longleftrightarrow>
        (\<exists>p. ?on p \<and> Q (?tr ! p)) \<or>
        Q e \<and> (\<exists>q. ?on q \<and> (fst (?tr ! q) = t \<or> synchronizes (snd (?tr ! q)) f))"
      unfolding s by (metis b less_imp_le n nat_neq_iff order_refl)
    then show ?thesis by (auto simp: snoc.IH(1) simp flip: sync)
  qed
  { case 1
    show ?case using all [of "\<lambda>x. fst x = v"]
      by (auto simp: e learn_thread snoc.IH(1)) }
  { case 2
    show ?case using all [of "\<lambda>x. releases (snd x) = Some m"]
      by (auto simp: e learn_object snoc.IH(2)) }
qed

text \<open>So an access after \<open>mid\<close> is ordered exactly when its thread has learnt of the first.\<close>

lemma ordered_iff_knows:
  assumes "releases a = None" and "acquires b = None"
  shows "happens_before (pre @ (u, a) # mid @ (v, b) # post) (length pre) (Suc (length pre + length mid))
    \<longleftrightarrow> Thread v \<in> knows {Thread u} mid"
proof -
  let ?tr = "pre @ (u, a) # mid"
  have "happens_before ((?tr @ [(v, b)]) @ post) (length pre) (length ?tr) \<longleftrightarrow>
      happens_before (?tr @ [(v, b)]) (length pre) (length ?tr)"
    by (rule happens_before_append) simp
  also have "\<dots> \<longleftrightarrow> from_on (?tr @ [(v, b)]) (length pre) (length ?tr)"
    by (simp add: from_on_def)
  also have "\<dots> \<longleftrightarrow> (\<exists>q. from_on ?tr (length pre) q \<and> fst (?tr ! q) = v)"
    using assms(2) by (subst from_on_snoc) (auto simp: from_on_def synchronizes_def)
  also have "\<dots> \<longleftrightarrow> Thread v \<in> knows {Thread u} mid"
    by (rule knows_exact(1) [OF assms(1), symmetric])
  finally show ?thesis by simp
qed

text \<open>The race of the standard, read off from left to right.\<close>

lemma data_race_iff:
  "data_race tr x \<longleftrightarrow> (\<exists>pre u a mid v b post. tr = pre @ (u, a) # mid @ (v, b) # post \<and> u \<noteq> v \<and>
     conflict a b x \<and> Thread v \<notin> knows {Thread u} mid)"
proof
  assume "data_race tr x"
  then obtain i j where ij: "i < j" "j < length tr" "fst (tr ! i) \<noteq> fst (tr ! j)"
      "conflict (snd (tr ! i)) (snd (tr ! j)) x" "\<not> happens_before tr i j"
    by (auto simp: data_race_def)
  define pre mid post where "pre = take i tr" and "mid = take (j - Suc i) (drop (Suc i) tr)"
    and "post = drop (Suc j) tr"
  obtain u a v b where uv: "tr ! i = (u, a)" "tr ! j = (v, b)" by (metis prod.exhaust)
  have "drop (Suc i) tr = mid @ drop (j - Suc i) (drop (Suc i) tr)"
    by (simp only: mid_def append_take_drop_id)
  also have "drop (j - Suc i) (drop (Suc i) tr) = tr ! j # post"
    using ij by (simp add: post_def Cons_nth_drop_Suc)
  finally have tr: "tr = pre @ (u, a) # mid @ (v, b) # post"
    using ij uv id_take_nth_drop [of i tr] by (simp add: pre_def)
  have len: "length pre = i" "Suc (length pre + length mid) = j"
    using ij by (auto simp: pre_def mid_def)
  have uv': "u \<noteq> v" "conflict a b x" using ij(3,4) uv by auto
  then have "releases a = None" "acquires b = None"
    by (auto simp: conflict_def elim: accesses.elims)
  then have "Thread v \<notin> knows {Thread u} mid"
    using ordered_iff_knows [of a b pre u mid v post] ij(5) len tr by simp
  then show "\<exists>pre u a mid v b post. tr = pre @ (u, a) # mid @ (v, b) # post \<and> u \<noteq> v \<and>
     conflict a b x \<and> Thread v \<notin> knows {Thread u} mid"
    using tr uv' by blast
next
  assume "\<exists>pre u a mid v b post. tr = pre @ (u, a) # mid @ (v, b) # post \<and> u \<noteq> v \<and>
     conflict a b x \<and> Thread v \<notin> knows {Thread u} mid"
  then obtain pre u a mid v b post where tr: "tr = pre @ (u, a) # mid @ (v, b) # post" "u \<noteq> v"
     "conflict a b x" "Thread v \<notin> knows {Thread u} mid" by blast
  have "releases a = None" "acquires b = None"
    using tr(3) by (auto simp: conflict_def elim: accesses.elims)
  then have "\<not> happens_before tr (length pre) (Suc (length pre + length mid))"
    using tr(4) by (simp add: tr(1) ordered_iff_knows)
  moreover have "tr ! length pre = (u, a)" "tr ! Suc (length pre + length mid) = (v, b)"
    by (simp_all add: tr(1) nth_append)
  ultimately show "data_race tr x"
    unfolding data_race_def using tr(2,3)
    by (intro exI [of _ "length pre"] exI [of _ "Suc (length pre + length mid)"]) (simp add: tr(1))
qed

section \<open>Disciplines\<close>

text \<open>
  A discipline for the location \<open>x\<close> of a transition system that records its execution:
  \<open>guard s a K\<close> says who must know of an earlier access \<open>a\<close> in the state \<open>s\<close>. It holds
  when the access is made, every step keeps it, and a thread that is about to make a
  conflicting access is among those who know.
\<close>

locale traced =
  fixes init :: "'s \<Rightarrow> bool" and step :: "'s \<Rightarrow> 's \<Rightarrow> bool" and inv :: "'s \<Rightarrow> bool"
    and exec :: "'s \<Rightarrow> ('t, 'l, 'm) execution"
  assumes inv_init: "init s \<Longrightarrow> inv s"
    and inv_step: "inv s \<Longrightarrow> step s s' \<Longrightarrow> inv s'"
    and grows: "step s s' \<Longrightarrow> exec s' = exec s \<or> (\<exists>t e. exec s' = exec s @ [(t, e)])"
    and start_clean: "init s \<Longrightarrow> \<not> data_race (exec s) x"

locale guarded = traced init step inv exec
  for init :: "'s \<Rightarrow> bool" and step :: "'s \<Rightarrow> 's \<Rightarrow> bool" and inv :: "'s \<Rightarrow> bool"
    and exec :: "'s \<Rightarrow> ('t, 'l, 'm) execution" +
  fixes x :: 'l and guard :: "'s \<Rightarrow> ('l, 'm) event \<Rightarrow> ('t, 'm) node set \<Rightarrow> bool"
  assumes start: "init s \<Longrightarrow> exec s = pre @ (u, a) # mid \<Longrightarrow> accesses a = Some x \<Longrightarrow>
      guard s a (knows {Thread u} mid)"
    and silent: "inv s \<Longrightarrow> step s s' \<Longrightarrow> exec s' = exec s \<Longrightarrow> guard s a K \<Longrightarrow> guard s' a K"
    and keeps: "inv s \<Longrightarrow> step s s' \<Longrightarrow> exec s' = exec s @ [(t, e)] \<Longrightarrow> guard s a K \<Longrightarrow>
      guard s' a (learn K (t, e))"
    and makes: "inv s \<Longrightarrow> step s s' \<Longrightarrow> exec s' = exec s @ [(t, a)] \<Longrightarrow> accesses a = Some x \<Longrightarrow>
      guard s' a {Thread t}"
    and checks: "inv s \<Longrightarrow> step s s' \<Longrightarrow> exec s' = exec s @ [(t, b)] \<Longrightarrow> conflict a b x \<Longrightarrow>
      guard s a K \<Longrightarrow> Thread t \<in> K"
begin

definition clean :: "'s \<Rightarrow> bool" where
  "clean s \<longleftrightarrow> inv s \<and> \<not> data_race (exec s) x \<and>
     (\<forall>pre u a mid. exec s = pre @ (u, a) # mid \<and> accesses a = Some x \<longrightarrow>
        guard s a (knows {Thread u} mid))"

lemma clean_init: "init s \<Longrightarrow> clean s"
  unfolding clean_def using inv_init start start_clean by blast

lemma clean_step:
  assumes c: "clean s" and st: "step s s'"
  shows "clean s'"
proof -
  have i: "inv s" and i': "inv s'" using c st inv_step by (auto simp: clean_def)
  have g: "guard s a (knows {Thread u} mid)" if "exec s = pre @ (u, a) # mid" "accesses a = Some x"
    for pre u a mid using c that by (auto simp: clean_def)
  from grows [OF st] show ?thesis
  proof
    assume same: "exec s' = exec s"
    then show ?thesis using c i' silent [OF i st same] by (simp add: clean_def)
  next
    assume "\<exists>t e. exec s' = exec s @ [(t, e)]"
    then obtain t e where ex: "exec s' = exec s @ [(t, e)]" by blast
    have "guard s' a (knows {Thread u} mid)"
      if tr: "exec s' = pre @ (u, a) # mid" and a: "accesses a = Some x" for pre u a mid
    proof (cases mid rule: rev_cases)
      case Nil
      then show ?thesis using makes [OF i st] tr ex a by simp
    next
      case (snoc mid' f)
      then have "exec s = pre @ (u, a) # mid'" "f = (t, e)" using tr ex by auto
      then show ?thesis using keeps [OF i st ex g] a snoc by simp
    qed
    moreover have "\<not> data_race (exec s') x"
    proof
      assume "data_race (exec s') x"
      then obtain pre u a mid v b post where r: "exec s' = pre @ (u, a) # mid @ (v, b) # post"
          "u \<noteq> v" "conflict a b x" "Thread v \<notin> knows {Thread u} mid"
        unfolding data_race_iff by blast
      show False
      proof (cases post rule: rev_cases)
        case Nil
        then have "exec s = pre @ (u, a) # mid" "t = v" "e = b" using r(1) ex by auto
        then show False
          using checks [OF i st ex, of a] g [of pre u a mid] r(3,4) by (auto simp: conflict_def)
      next
        case (snoc post' f)
        then have "exec s = pre @ (u, a) # mid @ (v, b) # post'" using r(1) ex by simp
        then have "data_race (exec s) x" unfolding data_race_iff using r(2-4) by blast
        then show False using c by (simp add: clean_def)
      qed
    qed
    ultimately show ?thesis using i' by (simp add: clean_def)
  qed
qed

lemma reachable_clean: "step\<^sup>*\<^sup>* s s' \<Longrightarrow> init s \<Longrightarrow> clean s'"
  by (induction rule: rtranclp_induct) (blast intro: clean_init clean_step)+

lemma race_free: "init s \<Longrightarrow> step\<^sup>*\<^sup>* s s' \<Longrightarrow> \<not> data_race (exec s') x"
  using reachable_clean by (simp add: clean_def)

end

end
