(* ===== verification/Data_Races.thy ===== *)
theory Data_Races
  imports Happens_Before Request
begin

text \<open>
  Which data of the library threads may touch at the same time. Any number of threads make
  event loops and endpoints and use them; every operation is the list of what it does to the
  memory it shares with others (\<open>instr\<close>): the flag \<open>once\<close> of the first loop, the queue of a
  loop, its map of tickers, its thread's id, the frame of a caller of \<open>call_get\<close> (the closure
  works on it by reference), the network objects of a loop, and two variables of the whole
  program, the url parser and the next client id. What synchronises is the mutex of the
  queue, the promise of \<open>call_get\<close>, libevent, whose calls lock the base once
  \<open>evthread_use_pthreads\<close> has been called, and the program itself, when one of its threads
  gets the pointer to a loop from the one that made it. Jobs do not throw, the loops are not
  stopped, and the handles that \<open>call_every\<close> returns are not used; \<open>call_every\<close> has its default
  arguments, which arm the event. What spdlog, evdns, the static initialisers and the counts
  of shared pointers synchronise inside is left out: without it more would race, not less.
\<close>

section \<open>Threads, data and operations\<close>

datatype thr = User nat | Looper nat

datatype loc =
    Loop_once     \<comment> \<open>the static \<open>once\<close> of \<open>event_loop\<close>'s constructor\<close>
  | Job_queue nat \<comment> \<open>\<open>event_loop::job_queue\<close>, per loop\<close>
  | Tickers nat
  | Loop_tid nat  \<comment> \<open>\<open>event_loop::loop_thread_id\<close>\<close>
  | Frame thr     \<comment> \<open>\<open>f\<close> and \<open>prom\<close> on the stack of a caller\<close>
  | Objects nat   \<comment> \<open>the maps of the endpoints of a loop, and all they own\<close>
  | Url_parser    \<comment> \<open>the global \<open>parser\<close>\<close>
  | Next_client_id

datatype sync_object = Queue_mutex nat | Event_base nat | Promise thr | Handover nat

text \<open>
  What a program can call, with the closures it hands over. A truth value stands for what
  only the data decides: whether a delay is over when its job runs, whether a url is
  accepted, \<open>_close_immediately\<close>.
\<close>

datatype op =
    Call nat clo
  | Call_soon nat clo
  | Call_get nat clo
  | Call_later nat bool clo
  | Call_every nat clo
  | Listen nat
  | Connect nat bool
  | Close_listener nat
  | Test_parse nat bool
  | Parse_url bool
  | Make_loop nat
  | Make_endpoint_new nat
  | Make_endpoint nat
  | Drop_endpoint nat bool
and clo =
    Fn "op list"
  | Later_fn bool clo
  | Listen_fn
  | Connect_fn bool
  | Close_fn
  | Test_parse_fn bool
  | Delete_endpoint_fn bool

datatype instr =
    Read loc
  | Write loc
  | Lock nat
  | Unlock nat
  | Emplace nat "thr option" clo
  | Swap nat
  | Activate nat
  | Arm nat clo
  | Register nat
  | Await
  | Test_once
  | Set_once
  | New_loop nat
  | Publish nat
  | Obtain nat

section \<open>What the operations do\<close>

definition call_soon_acts :: "nat \<Rightarrow> thr option \<Rightarrow> clo \<Rightarrow> instr list" where
  "call_soon_acts b w c = [Lock b, Emplace b w c, Unlock b, Activate b]"

text \<open>\<open>body\<close> is what the closure does when the call finds itself on the loop's thread.\<close>

definition call_acts :: "thr \<Rightarrow> nat \<Rightarrow> clo \<Rightarrow> instr list \<Rightarrow> instr list" where
  "call_acts t b c body =
     Read (Loop_tid b) # (if t = Looper b then body else call_soon_acts b None c)"

definition call_get_acts :: "thr \<Rightarrow> nat \<Rightarrow> clo \<Rightarrow> instr list \<Rightarrow> instr list" where
  "call_get_acts t b c body =
     Read (Loop_tid b) #
     (if t = Looper b then body
      else Write (Frame t) # call_soon_acts b (Some t) c @ [Await, Write (Frame t)])"

definition make_handler_acts :: "nat \<Rightarrow> instr list" where
  "make_handler_acts b = [Read (Tickers b), Write (Tickers b)]"

definition call_every_acts :: "nat \<Rightarrow> clo \<Rightarrow> instr list" where
  "call_every_acts b c = make_handler_acts b @ [Arm b c]"

definition add_oneshot_acts :: "nat \<Rightarrow> clo \<Rightarrow> instr list" where
  "add_oneshot_acts b c = make_handler_acts b @ [Arm b c]"

definition call_later_acts :: "thr \<Rightarrow> nat \<Rightarrow> bool \<Rightarrow> clo \<Rightarrow> instr list" where
  "call_later_acts t b over c =
     Read (Loop_tid b) #
     (if t = Looper b then add_oneshot_acts b c else call_soon_acts b None (Later_fn over c))"

definition process_job_queue_acts :: "nat \<Rightarrow> instr list" where
  "process_job_queue_acts b = [Read (Loop_tid b), Lock b, Swap b, Unlock b]"

definition parser_read_acts :: "bool \<Rightarrow> instr list" where
  "parser_read_acts ok =
     [Write Url_parser, Read Url_parser, Write Url_parser] @ (if ok then [] else [Write Url_parser])"

definition uri_parse_acts :: "bool \<Rightarrow> instr list" where
  "uri_parse_acts ok = parser_read_acts ok @ (if ok then [Read Url_parser] else [])"

definition listen_acts :: "nat \<Rightarrow> instr list" where
  "listen_acts b = [Write (Objects b), Register b, Write (Objects b)]"

definition connect_acts :: "nat \<Rightarrow> bool \<Rightarrow> instr list" where
  "connect_acts b ok = uri_parse_acts ok @ [Write (Objects b), Register b, Write (Objects b)]"

definition close_listener_acts :: "nat \<Rightarrow> instr list" where
  "close_listener_acts b = [Write (Objects b)]"

text \<open>The constructor of a loop starts its thread and then writes its id.\<close>

definition event_loop_acts :: "nat \<Rightarrow> instr list" where
  "event_loop_acts b = [Test_once, Set_once, New_loop b]"

definition make_endpoint_acts :: "instr list" where
  "make_endpoint_acts = [Read Next_client_id, Write Next_client_id]"

definition delete_endpoint_acts :: "nat \<Rightarrow> bool \<Rightarrow> instr list" where
  "delete_endpoint_acts b now =
     (if now then [] else [Read (Loop_tid b), Write (Objects b)]) @
     [Write (Objects b), Read (Tickers b)]"

text \<open>
  A network event of a listener or connection: the hooks of a session, of which one gets a
  header \<open>hdr\<close> and, if it is the path, parses its value.
\<close>

definition path_header_acts :: "nat \<Rightarrow> byte list \<Rightarrow> bool \<Rightarrow> instr list" where
  "path_header_acts b hdr ok =
     Read (Objects b) # (if span_eq fields_path hdr then uri_parse_acts ok else []) @
     [Write (Objects b)]"

text \<open>
  A thread that uses the loop \<open>b\<close> has got the pointer from the one that made it; a loop or an
  endpoint with a loop of its own can be passed on when its \<open>make\<close> returns.
\<close>

fun acts :: "thr \<Rightarrow> op \<Rightarrow> instr list" and body :: "nat \<Rightarrow> clo \<Rightarrow> instr list" where
  "acts t (Call b c) = Obtain b # call_acts t b c (body b c)"
| "acts t (Call_soon b c) = Obtain b # call_soon_acts b None c"
| "acts t (Call_get b c) = Obtain b # call_get_acts t b c (body b c)"
| "acts t (Call_later b over c) = Obtain b # call_later_acts t b over c"
| "acts t (Call_every b c) = Obtain b # call_every_acts b c"
| "acts t (Listen b) = Obtain b # call_get_acts t b Listen_fn (listen_acts b)"
| "acts t (Connect b ok) = Obtain b # call_get_acts t b (Connect_fn ok) (connect_acts b ok)"
| "acts t (Close_listener b) = Obtain b # call_get_acts t b Close_fn (close_listener_acts b)"
| "acts t (Test_parse b ok) = Obtain b # call_get_acts t b (Test_parse_fn ok) (uri_parse_acts ok)"
| "acts t (Parse_url ok) = uri_parse_acts ok"
| "acts t (Make_loop b) = event_loop_acts b @ [Publish b]"
| "acts t (Make_endpoint_new b) = event_loop_acts b @ make_endpoint_acts @ [Publish b]"
| "acts t (Make_endpoint b) = Obtain b # make_endpoint_acts"
| "acts t (Drop_endpoint b now) =
     Obtain b # call_acts t b (Delete_endpoint_fn now) (delete_endpoint_acts b now)"
| "body b (Fn ops) = concat (map (acts (Looper b)) ops)"
| "body b (Later_fn over c) = (if over then body b c else add_oneshot_acts b c)"
| "body b Listen_fn = listen_acts b"
| "body b (Connect_fn ok) = connect_acts b ok"
| "body b Close_fn = close_listener_acts b"
| "body b (Test_parse_fn ok) = uri_parse_acts ok"
| "body b (Delete_endpoint_fn now) = delete_endpoint_acts b now"

lemmas acts_defs = call_acts_def call_get_acts_def call_soon_acts_def make_handler_acts_def
  call_every_acts_def add_oneshot_acts_def call_later_acts_def parser_read_acts_def
  uri_parse_acts_def listen_acts_def connect_acts_def close_listener_acts_def event_loop_acts_def
  make_endpoint_acts_def
  delete_endpoint_acts_def path_header_acts_def

section \<open>The machine\<close>

text \<open>Where the \<open>call_get\<close> of a thread is; \<open>Answered\<close> until the thread takes the result.\<close>

datatype place = Home | Queued nat | In_batch nat | Running nat | Answered

record machine =
  prog :: "thr \<Rightarrow> instr list"
  holder :: "nat \<Rightarrow> thr option"
  jobs :: "nat \<Rightarrow> (thr option \<times> clo) list"
  active :: "nat \<Rightarrow> bool"
  armed :: "nat \<Rightarrow> clo list"
  registered :: "nat \<Rightarrow> bool"
  batch :: "nat \<Rightarrow> (thr option \<times> clo) list"
  serving :: "nat \<Rightarrow> thr option"
  place :: "thr \<Rightarrow> place"
  once_done :: bool
  found :: "thr \<Rightarrow> bool" \<comment> \<open>what a thread read from \<open>once\<close>\<close>
  maker :: "nat \<Rightarrow> thr option"
  made :: "nat \<Rightarrow> bool"
  events :: "(thr, loc, sync_object) execution"

fun queue_call :: "nat \<Rightarrow> thr option \<Rightarrow> (thr \<Rightarrow> place) \<Rightarrow> thr \<Rightarrow> place" where
  "queue_call b None p = p"
| "queue_call b (Some u) p = p(u := Queued b)"

definition take_calls :: "nat \<Rightarrow> (thr \<Rightarrow> place) \<Rightarrow> thr \<Rightarrow> place" where
  "take_calls b p u = (if p u = Queued b then In_batch b else p u)"

definition emit :: "thr \<Rightarrow> (loc, sync_object) event \<Rightarrow> machine \<Rightarrow> machine" where
  "emit t e s = s\<lparr>events := events s @ [(t, e)]\<rparr>"

fun exec :: "thr \<Rightarrow> instr \<Rightarrow> machine \<Rightarrow> machine option" where
  "exec t (Read x) s = Some (emit t (Rd x) s)"
| "exec t (Write x) s = Some (emit t (Wr x) s)"
| "exec t (Lock b) s = (if holder s b = None
     then Some (emit t (Acquire (Queue_mutex b)) (s\<lparr>holder := (holder s)(b := Some t)\<rparr>)) else None)"
| "exec t (Unlock b) s =
     Some (emit t (Release (Queue_mutex b)) (s\<lparr>holder := (holder s)(b := None)\<rparr>))"
| "exec t (Emplace b w c) s =
     Some (emit t (Wr (Job_queue b)) (s\<lparr>jobs := (jobs s)(b := jobs s b @ [(w, c)]),
       place := queue_call b w (place s)\<rparr>))"
| "exec t (Swap b) s =
     Some (emit t (Wr (Job_queue b)) (s\<lparr>jobs := (jobs s)(b := []), batch := (batch s)(b := jobs s b),
       place := take_calls b (place s)\<rparr>))"
| "exec t (Activate b) s = Some (emit t (Sync (Event_base b)) (s\<lparr>active := (active s)(b := True)\<rparr>))"
| "exec t (Arm b c) s =
     Some (emit t (Sync (Event_base b)) (s\<lparr>armed := (armed s)(b := armed s b @ [c])\<rparr>))"
| "exec t (Register b) s =
     Some (emit t (Sync (Event_base b)) (s\<lparr>registered := (registered s)(b := True)\<rparr>))"
| "exec t Await s = (if place s t = Answered
     then Some (emit t (Acquire (Promise t)) (s\<lparr>place := (place s)(t := Home)\<rparr>)) else None)"
| "exec t Test_once s = Some (emit t (Rd Loop_once) (s\<lparr>found := (found s)(t := once_done s)\<rparr>))"
| "exec t Set_once s =
     Some (if found s t then s else emit t (Wr Loop_once) (s\<lparr>once_done := True\<rparr>))"
| "exec t (New_loop b) s = (if maker s b = None
     then Some (emit t (Wr (Loop_tid b)) (s\<lparr>maker := (maker s)(b := Some t)\<rparr>)) else None)"
| "exec t (Publish b) s = Some (emit t (Release (Handover b)) (s\<lparr>made := (made s)(b := True)\<rparr>))"
| "exec t (Obtain b) s = (if made s b then Some (emit t (Acquire (Handover b)) s) else None)"

text \<open>
  What can happen next: a thread runs on; an idle loop dispatches its waker, a due event or a
  network event, that is, a header of some name (nghttp2 passes on no name with a NUL in it);
  it takes the next job of the batch, or fulfils the promise of the one it ran.
\<close>

datatype move = Run thr | Dispatch nat | Fire nat nat | Network nat "byte list" bool | Begin nat | Reply nat

definition idle :: "machine \<Rightarrow> nat \<Rightarrow> bool" where
  "idle s b \<longleftrightarrow> prog s (Looper b) = [] \<and> serving s b = None \<and> batch s b = []"

definition continue :: "thr \<Rightarrow> instr list \<Rightarrow> machine \<Rightarrow> machine" where
  "continue t is s = s\<lparr>prog := (prog s)(t := is)\<rparr>"

fun advance :: "move \<Rightarrow> machine \<Rightarrow> machine option" where
  "advance (Run t) s = (case prog s t of [] \<Rightarrow> None | i # is \<Rightarrow> exec t i (continue t is s))"
| "advance (Dispatch b) s = (if idle s b \<and> active s b
     then Some (emit (Looper b) (Sync (Event_base b))
       (continue (Looper b) (process_job_queue_acts b) (s\<lparr>active := (active s)(b := False)\<rparr>)))
     else None)"
| "advance (Fire b k) s = (if idle s b \<and> k < length (armed s b)
     then Some (emit (Looper b) (Sync (Event_base b))
       (continue (Looper b) (body b (armed s b ! k))
         (s\<lparr>armed := (armed s)(b := take k (armed s b) @ drop (Suc k) (armed s b))\<rparr>)))
     else None)"
| "advance (Network b hdr ok) s = (if idle s b \<and> registered s b \<and> 0 \<notin> set hdr
     then Some (emit (Looper b) (Sync (Event_base b)) (continue (Looper b) (path_header_acts b hdr ok) s))
     else None)"
| "advance (Begin b) s = (if prog s (Looper b) = [] \<and> serving s b = None
     then (case batch s b of [] \<Rightarrow> None | (w, c) # js \<Rightarrow>
       let s' = continue (Looper b) (body b c) (s\<lparr>batch := (batch s)(b := js)\<rparr>)
       in Some (case w of None \<Rightarrow> s' | Some u \<Rightarrow> emit (Looper b) (Rd (Frame u))
         (s'\<lparr>serving := (serving s)(b := Some u), place := (place s)(u := Running b)\<rparr>)))
     else None)"
| "advance (Reply b) s = (if prog s (Looper b) = []
     then (case serving s b of None \<Rightarrow> None | Some u \<Rightarrow>
       Some (emit (Looper b) (Release (Promise u))
         (s\<lparr>serving := (serving s)(b := None), place := (place s)(u := Answered)\<rparr>)))
     else None)"

definition mstep :: "machine \<Rightarrow> machine \<Rightarrow> bool" where
  "mstep s s' \<longleftrightarrow> (\<exists>m. advance m s = Some s')"

text \<open>At the start there are no loops; \<open>P n\<close> is what thread \<open>n\<close> calls.\<close>

definition launch :: "(nat \<Rightarrow> op list) \<Rightarrow> machine" where
  "launch P = \<lparr>
     prog = (\<lambda>t. case t of User n \<Rightarrow> concat (map (acts t) (P n)) | Looper b \<Rightarrow> []),
     holder = Map.empty, jobs = (\<lambda>_. []), active = (\<lambda>_. False), armed = (\<lambda>_. []), registered = (\<lambda>_. False),
     batch = (\<lambda>_. []), serving = Map.empty, place = (\<lambda>_. Home),
     once_done = False, found = (\<lambda>_. False), maker = Map.empty, made = (\<lambda>_. False), events = []\<rparr>"

abbreviation reaches :: "(nat \<Rightarrow> op list) \<Rightarrow> machine \<Rightarrow> bool" where
  "reaches P \<equiv> mstep\<^sup>*\<^sup>* (launch P)"

fun runs :: "move list \<Rightarrow> machine \<Rightarrow> machine option" where
  "runs [] s = Some s"
| "runs (m # ms) s = (case advance m s of None \<Rightarrow> None | Some s' \<Rightarrow> runs ms s')"

lemma runs_reaches: "runs ms s = Some s' \<Longrightarrow> mstep\<^sup>*\<^sup>* s s'"
proof (induction ms arbitrary: s)
  case (Cons m ms)
  then obtain s1 where "advance m s = Some s1" "runs ms s1 = Some s'"
    by (auto split: option.splits)
  then show ?case using Cons.IH by (metis converse_rtranclp_into_rtranclp mstep_def)
qed simp

section \<open>The shape of what is left to do\<close>

text \<open>
  \<open>fits t h home is\<close>: thread \<open>t\<close>, holding the mutex \<open>h\<close>, may do \<open>is\<close>; \<open>home\<close> when none of its
  calls is under way. The queue is touched under its mutex only, the frame of a caller by
  the caller at home, the objects of a loop by the loop; the thread id is written by \<open>New_loop\<close> only.
\<close>

fun fits :: "thr \<Rightarrow> nat option \<Rightarrow> bool \<Rightarrow> instr list \<Rightarrow> bool" where
  "fits t h home [] \<longleftrightarrow> h = None \<and> home"
| "fits t h home (Read x # is) \<longleftrightarrow> (case x of Job_queue b \<Rightarrow> False | Frame u \<Rightarrow> False
     | Objects b \<Rightarrow> t = Looper b | _ \<Rightarrow> True) \<and> fits t h home is"
| "fits t h home (Write x # is) \<longleftrightarrow> (case x of Job_queue b \<Rightarrow> False | Frame u \<Rightarrow> u = t \<and> home
     | Objects b \<Rightarrow> t = Looper b | Loop_tid b \<Rightarrow> False | _ \<Rightarrow> True) \<and> fits t h home is"
| "fits t h home (Lock b # is) \<longleftrightarrow> h = None \<and> fits t (Some b) home is"
| "fits t h home (Unlock b # is) \<longleftrightarrow> h = Some b \<and> fits t None home is"
| "fits t h home (Emplace b w c # is) \<longleftrightarrow> h = Some b \<and>
     (case w of None \<Rightarrow> fits t h home is | Some u \<Rightarrow> u = t \<and> home \<and> fits t h False is)"
| "fits t h home (Swap b # is) \<longleftrightarrow> h = Some b \<and> t = Looper b \<and> home \<and> is = [Unlock b]"
| "fits t h home (Await # is) \<longleftrightarrow> \<not> home \<and> fits t h True is"
| "fits t h home (_ # is) \<longleftrightarrow> fits t h home is"

definition swap_free :: "instr list \<Rightarrow> bool" where
  "swap_free is \<longleftrightarrow> (\<forall>b. Swap b \<notin> set is)"

lemma fits_append:
  "fits t h home is \<Longrightarrow> swap_free is \<Longrightarrow> fits t None True js \<Longrightarrow> fits t h home (is @ js)"
  by (induction t h home "is" rule: fits.induct) (auto simp: swap_free_def split: option.splits)

lemma fits_concat:
  "(\<And>x. x \<in> set xs \<Longrightarrow> fits t None True (f x) \<and> swap_free (f x)) \<Longrightarrow>
   fits t None True (concat (map f xs)) \<and> swap_free (concat (map f xs))"
  by (induction xs) (auto simp: fits_append swap_free_def)

lemma acts_fit:
  "fits t None True (acts t o1) \<and> swap_free (acts t o1)"
  "fits (Looper b) None True (body b c) \<and> swap_free (body b c)"
proof (induction t o1 and b c rule: acts_body.induct)
  case (15 b ops)
  then show ?case using fits_concat [of ops "Looper b" "acts (Looper b)"] by simp
qed (auto simp: acts_defs swap_free_def)

lemma process_fits: "fits (Looper b) None True (process_job_queue_acts b)"
  by (simp add: process_job_queue_acts_def)

lemma network_fits: "fits (Looper b) None True (path_header_acts b hdr ok)"
  by (simp add: acts_defs)

text \<open>What arrives on the network never reaches the url parser: no name is the literal with its NUL.\<close>

lemma network_acts: "0 \<notin> set hdr \<Longrightarrow> path_header_acts b hdr ok = [Read (Objects b), Write (Objects b)]"
  by (auto simp: path_header_acts_def fields_path_def usp_def literal_span_def literal_arr_eq
      byte_of_char_def)

section \<open>The invariant\<close>

definition well_run :: "machine \<Rightarrow> bool" where
  "well_run s \<longleftrightarrow> (\<forall>t. \<exists>h. fits t h (place s t = Home) (prog s t) \<and>
     (\<forall>b. holder s b = Some t \<longleftrightarrow> h = Some b))"

lemma well_run_step:
  assumes "well_run s" and "prog s' = (prog s)(t := rest)"
    and "\<And>v. v \<noteq> t \<Longrightarrow> (place s' v = Home) = (place s v = Home)"
    and "\<And>v b. v \<noteq> t \<Longrightarrow> holder s' b = Some v \<longleftrightarrow> holder s b = Some v"
    and "fits t h (place s' t = Home) rest" and "\<And>b. holder s' b = Some t \<longleftrightarrow> h = Some b"
  shows "well_run s'"
  unfolding well_run_def
proof
  fix v
  show "\<exists>h. fits v h (place s' v = Home) (prog s' v) \<and> (\<forall>b. (holder s' b = Some v) = (h = Some b))"
  proof (cases "v = t")
    case True then show ?thesis using assms(2,5,6) by auto
  next
    case False
    then show ?thesis using assms(1-4) by (auto simp: well_run_def)
  qed
qed

lemma well_run_exec:
  assumes w: "well_run s" and p: "prog s t = i # rest"
    and x: "exec t i (continue t rest s) = Some s'"
  shows "well_run s'"
proof -
  obtain h where f: "fits t h (place s t = Home) (i # rest)"
    and h: "\<And>b. holder s b = Some t \<longleftrightarrow> h = Some b"
    using w p by (metis well_run_def)
  note step = well_run_step [OF w, where t = t and rest = rest]
  have quiet: ?thesis if "prog s' = (prog s)(t := rest)" "holder s' = holder s" "place s' = place s"
      "fits t h (place s t = Home) rest"
    using that h by (intro step [where h = h]) simp_all
  show ?thesis
  proof (cases i)
    case (Lock b)
    show ?thesis using f h x
      by (intro step [where h = "Some b"]) (auto simp: Lock emit_def continue_def split: if_splits)
  next
    case (Unlock b)
    then have b: "holder s b = Some t" "h = Some b" using f h by simp_all
    have s': "s' = emit t (Release (Queue_mutex b)) (s\<lparr>prog := (prog s)(t := rest),
        holder := (holder s)(b := None)\<rparr>)"
      using x by (simp add: Unlock continue_def)
    have "holder s' b' = Some v \<longleftrightarrow> holder s b' = Some v" if "v \<noteq> t" for v b'
      using that b(1) by (auto simp: s' emit_def)
    moreover have "holder s' b' \<noteq> Some t" for b' using h b(2) by (simp add: s' emit_def)
    moreover have "fits t None (place s' t = Home) rest" using f by (simp add: Unlock s' emit_def)
    moreover have "prog s' = (prog s)(t := rest)" "place s' = place s" by (simp_all add: s' emit_def)
    ultimately show ?thesis by (intro step [where h = None]) simp_all
  next
    case (Emplace b w c)
    have "s' = emit t (Wr (Job_queue b)) (s\<lparr>prog := (prog s)(t := rest),
        jobs := (jobs s)(b := jobs s b @ [(w, c)]),
        place := queue_call b w (place s)\<rparr>)"
      using x by (simp add: Emplace continue_def)
    then show ?thesis using f h
      by (intro step [where h = h]; cases w) (simp_all add: Emplace emit_def)
  next
    case (Swap b)
    have "s' = emit t (Wr (Job_queue b)) (s\<lparr>prog := (prog s)(t := rest), jobs := (jobs s)(b := []),
        batch := (batch s)(b := jobs s b), place := take_calls b (place s)\<rparr>)"
      using x by (simp add: Swap continue_def)
    moreover have "t = Looper b" "place s (Looper b) = Home" using f by (auto simp: Swap)
    ultimately show ?thesis using f h
      by (intro step [where h = h]) (simp_all add: Swap emit_def take_calls_def)
  next
    case Await
    have "s' = emit t (Acquire (Promise t)) (s\<lparr>prog := (prog s)(t := rest), place := (place s)(t := Home)\<rparr>)"
      using x by (simp add: Await continue_def split: if_splits)
    then show ?thesis using f h
      by (intro step [where h = h]) (simp_all add: Await emit_def)
  qed (use f x in \<open>intro quiet; auto simp: emit_def continue_def split: if_splits\<close>)+
qed

text \<open>A call under way is in exactly one place: queued, in a batch, running or answered.\<close>

definition counted :: "(nat \<Rightarrow> (thr option \<times> clo) list) \<Rightarrow> (nat \<Rightarrow> place) \<Rightarrow> (thr \<Rightarrow> place) \<Rightarrow> bool" where
  "counted q at p \<longleftrightarrow> (\<forall>b u. count_list (map fst (q b)) (Some u) = (if p u = at b then 1 else 0))"

definition served :: "(nat \<Rightarrow> thr option) \<Rightarrow> (thr \<Rightarrow> place) \<Rightarrow> bool" where
  "served sv p \<longleftrightarrow> (\<forall>b u. sv b = Some u \<longleftrightarrow> p u = Running b)"

definition swap_clear :: "machine \<Rightarrow> bool" where
  "swap_clear s \<longleftrightarrow> (\<forall>b. Swap b \<in> set (prog s (Looper b)) \<longrightarrow> batch s b = [])"

definition calls_placed :: "machine \<Rightarrow> bool" where
  "calls_placed s \<longleftrightarrow> counted (jobs s) Queued (place s) \<and> counted (batch s) In_batch (place s) \<and>
     served (serving s) (place s) \<and> swap_clear s"

definition minv :: "machine \<Rightarrow> bool" where
  "minv s \<longleftrightarrow> well_run s \<and> calls_placed s"

lemma counted_none [simp]: "counted (q(b := q b @ [(None, c)])) at p = counted q at p"
  by (auto simp: counted_def fun_upd_def)

lemma counted_add:
  assumes "counted q at p" "inj at" "\<And>b. p u \<noteq> at b"
  shows "counted (q(b := q b @ [(Some u, c)])) at (p(u := at b))"
  unfolding counted_def
proof (intro allI)
  fix b' v
  have "count_list (map fst (q b')) (Some v) = (if p v = at b' then 1 else 0)"
    using assms(1) by (simp add: counted_def)
  then show "count_list (map fst ((q(b := q b @ [(Some u, c)])) b')) (Some v) =
      (if (p(u := at b)) v = at b' then 1 else 0)"
    using assms(2,3) by (cases "b' = b"; cases "v = u") (simp_all add: inj_eq)
qed

lemma counted_elsewhere:
  "counted q at p \<Longrightarrow> (\<And>b. p u \<noteq> at b) \<Longrightarrow> (\<And>b. x \<noteq> at b) \<Longrightarrow> counted q at (p(u := x))"
  by (auto simp: counted_def)

lemma counted_drop_none:
  assumes "counted q at p" "q b = (None, c) # js"
  shows "counted (q(b := js)) at p"
  unfolding counted_def
proof (intro allI)
  fix b' v
  have "count_list (map fst (q b')) (Some v) = (if p v = at b' then 1 else 0)"
    using assms(1) by (simp add: counted_def)
  then show "count_list (map fst ((q(b := js)) b')) (Some v) = (if p v = at b' then 1 else 0)"
    using assms(2) by (cases "b' = b") simp_all
qed

lemma counted_drop:
  assumes "counted q at p" "q b = (Some u, c) # js" "\<And>b. x \<noteq> at b" "inj at"
  shows "counted (q(b := js)) at (p(u := x))" and "p u = at b"
proof -
  have n: "count_list (map fst (q b')) (Some v) = (if p v = at b' then 1 else 0)" for b' v
    using assms(1) by (simp add: counted_def)
  show u: "p u = at b" using n [of b u] assms(2) by (simp split: if_splits)
  show "counted (q(b := js)) at (p(u := x))"
    unfolding counted_def
  proof (intro allI)
    fix b' v
    show "count_list (map fst ((q(b := js)) b')) (Some v) = (if (p(u := x)) v = at b' then 1 else 0)"
      using n [of b' v] u assms(2-4) by (cases "b' = b"; cases "v = u") (simp_all add: inj_eq)
  qed
qed

lemma counted_empty: "counted q at p \<Longrightarrow> q b = [] \<Longrightarrow> p u \<noteq> at b"
  unfolding counted_def by (metis count_list.simps(1) list.map(1) zero_neq_one)

lemma counted_swap:
  assumes "counted q Queued p" and "counted r In_batch p" and e: "r b = []"
  shows "counted (q(b := [])) Queued (take_calls b p)"
    and "counted (r(b := q b)) In_batch (take_calls b p)"
  using assms(1,2) counted_empty [OF assms(2) e] by (auto simp: counted_def take_calls_def)

lemma served_elsewhere:
  "served sv p \<Longrightarrow> (\<And>b. p u \<noteq> Running b) \<Longrightarrow> (\<And>b. x \<noteq> Running b) \<Longrightarrow> served sv (p(u := x))"
  by (auto simp: served_def)

lemma place_inj: "inj Queued" "inj In_batch" by (simp_all add: inj_def)

lemma swap_clear_step:
  "swap_clear s \<Longrightarrow> prog s' = (prog s)(t := rest) \<Longrightarrow> batch s' = batch s \<Longrightarrow>
   (\<And>b. t = Looper b \<Longrightarrow> Swap b \<in> set rest \<Longrightarrow> batch s b = []) \<Longrightarrow> swap_clear s'"
  by (auto simp: swap_clear_def split: if_splits)

lemma calls_placed_exec:
  assumes w: "well_run s" and c: "calls_placed s" and p: "prog s t = i # rest"
    and x: "exec t i (continue t rest s) = Some s'"
  shows "calls_placed s'"
proof -
  obtain h where f: "fits t h (place s t = Home) (i # rest)"
    and h: "\<And>b. holder s b = Some t \<longleftrightarrow> h = Some b"
    using w p by (metis well_run_def)
  have q: "counted (jobs s) Queued (place s)" and r: "counted (batch s) In_batch (place s)"
    and sv: "served (serving s) (place s)" and sc: "swap_clear s"
    using c by (simp_all add: calls_placed_def)
  have sub: "Swap b \<in> set rest \<Longrightarrow> t = Looper b \<Longrightarrow> batch s b = []" for b
    using sc p by (auto simp: swap_clear_def)
  have sc': "swap_clear s'" if "prog s' = (prog s)(t := rest)" "batch s' = batch s"
    using swap_clear_step [OF sc that] sub by blast
  show ?thesis
  proof (cases i)
    case (Emplace b w k)
    show ?thesis
    proof (cases w)
      case None
      then show ?thesis using q r sv sc' x by (auto simp: Emplace emit_def continue_def calls_placed_def)
    next
      case (Some u)
      then have "u = t" "place s t = Home" using f by (simp_all add: Emplace)
      then show ?thesis using counted_add [OF q place_inj(1), of t b k]
          counted_elsewhere [OF r, of t "Queued b"] served_elsewhere [OF sv, of t "Queued b"] sc' x Some
        by (auto simp: Emplace emit_def continue_def calls_placed_def)
    qed
  next
    case (Swap b)
    then have t: "t = Looper b" "rest = [Unlock b]" using f by simp_all
    have e: "batch s b = []" using sc p Swap t by (auto simp: swap_clear_def)
    have "swap_clear s'" using x t sc
      by (auto simp: Swap emit_def continue_def swap_clear_def split: if_splits)
    moreover have "served (serving s) (take_calls b (place s))"
      using sv by (auto simp: served_def take_calls_def)
    ultimately show ?thesis using counted_swap [OF q r e] x
      by (auto simp: Swap emit_def continue_def calls_placed_def)
  next
    case Await
    then have "place s t = Answered" using x by (auto simp: continue_def split: if_splits)
    then show ?thesis using x sc' counted_elsewhere [OF q, of t Home] Await
        counted_elsewhere [OF r, of t Home] served_elsewhere [OF sv, of t Home]
      by (auto simp: emit_def continue_def calls_placed_def)
  qed (use q r sv sc' x in \<open>auto simp: emit_def continue_def calls_placed_def split: if_splits\<close>)
qed

text \<open>The loop's moves other than running on start from an empty program.\<close>

lemma loop_move:
  assumes i: "minv s" and e: "prog s (Looper b) = []"
    and p: "prog s' = (prog s)(Looper b := rest)" and f: "fits (Looper b) None True rest"
    and h: "holder s' = holder s" and l: "\<And>v. (place s' v = Home) = (place s v = Home)"
  shows "well_run s'"
proof -
  have w: "well_run s" using i by (simp add: minv_def)
  have "place s (Looper b) = Home" and "holder s b' \<noteq> Some (Looper b)" for b'
    using w e by (auto simp: well_run_def dest: spec [of _ "Looper b"])
  then show ?thesis
    using h l f by (intro well_run_step [OF w p, where h = None]) auto
qed

lemma minv_step:
  assumes i: "minv s" and st: "mstep s s'"
  shows "minv s'"
proof -
  obtain m where m: "advance m s = Some s'" using st by (auto simp: mstep_def)
  have w: "well_run s" and c: "calls_placed s" using i by (simp_all add: minv_def)
  have q: "counted (jobs s) Queued (place s)" and r: "counted (batch s) In_batch (place s)"
    and sv: "served (serving s) (place s)" and sc: "swap_clear s"
    using c by (simp_all add: calls_placed_def)
  note defs = idle_def emit_def continue_def
  show "minv s'"
  proof (cases m)
    case (Run t)
    then obtain j rest where "prog s t = j # rest" "exec t j (continue t rest s) = Some s'"
      using m by (auto split: list.splits)
    then show ?thesis using well_run_exec [OF w] calls_placed_exec [OF w c] by (simp add: minv_def)
  next
    case (Dispatch b)
    then have e: "prog s (Looper b) = []" "batch s b = []" using m by (auto simp: idle_def split: if_splits)
    have "well_run s'" using m Dispatch
      by (intro loop_move [OF i e(1) _ process_fits]) (auto simp: defs split: if_splits)
    moreover have "calls_placed s'" using m Dispatch q r sv e swap_clear_step [OF sc, of s' "Looper b"]
      by (auto simp: defs calls_placed_def split: if_splits)
    ultimately show ?thesis by (simp add: minv_def)
  next
    case (Fire b k)
    then have e: "prog s (Looper b) = []" "batch s b = []" using m by (auto simp: idle_def split: if_splits)
    have "well_run s'" using m Fire acts_fit(2) [of b "armed s b ! k"]
      by (intro loop_move [OF i e(1), where rest = "body b (armed s b ! k)"]) (auto simp: defs split: if_splits)
    moreover have "calls_placed s'" using m Fire q r sv e swap_clear_step [OF sc, of s' "Looper b"]
      by (auto simp: defs calls_placed_def split: if_splits)
    ultimately show ?thesis by (simp add: minv_def)
  next
    case (Network b hdr ok)
    then have e: "prog s (Looper b) = []" "batch s b = []" using m by (auto simp: idle_def split: if_splits)
    have "well_run s'" using m Network
      by (intro loop_move [OF i e(1) _ network_fits [of b hdr ok]]) (auto simp: defs split: if_splits)
    moreover have "calls_placed s'" using m Network q r sv e swap_clear_step [OF sc, of s' "Looper b"]
      by (auto simp: defs calls_placed_def split: if_splits)
    ultimately show ?thesis by (simp add: minv_def)
  next
    case (Begin b)
    then obtain w1 k js where b: "prog s (Looper b) = []" "serving s b = None" "batch s b = (w1, k) # js"
      using m by (auto split: if_splits list.splits)
    note fit = acts_fit(2) [of b k]
    have sc': "swap_clear s'" using m Begin b fit sc
      by (auto simp: defs Let_def swap_clear_def swap_free_def split: option.splits if_splits)
    show ?thesis
    proof (cases w1)
      case None
      have "well_run s'" using m Begin b fit None
        by (intro loop_move [OF i b(1), where rest = "body b k"]) (auto simp: defs Let_def)
      moreover have "calls_placed s'" using m Begin b None q sv sc' counted_drop_none [OF r, of b k js]
        by (auto simp: defs Let_def calls_placed_def)
      ultimately show ?thesis by (simp add: minv_def)
    next
      case (Some u)
      then have d: "counted ((batch s)(b := js)) In_batch ((place s)(u := Running b))" "place s u = In_batch b"
        using counted_drop [OF r, of b u k js "Running b"] b(3) by (simp_all add: inj_def)
      have "well_run s'" using m Begin b fit Some d(2)
        by (intro loop_move [OF i b(1), where rest = "body b k"]) (auto simp: defs Let_def split: if_splits)
      moreover have "place s v \<noteq> Running b" for v using sv b(2) by (metis option.simps(3) served_def)
      then have "served ((serving s)(b \<mapsto> u)) ((place s)(u := Running b))"
        using sv d(2) by (auto simp: served_def)
      ultimately show ?thesis using m Begin b Some sc' d counted_elsewhere [OF q, of u "Running b"]
        by (auto simp: defs Let_def calls_placed_def minv_def)
    qed
  next
    case (Reply b)
    then obtain u where b: "prog s (Looper b) = []" "serving s b = Some u"
      using m by (auto split: if_splits option.splits)
    then have u: "place s u = Running b" using sv by (simp add: served_def)
    have "well_run s'" using m Reply b u
      by (intro loop_move [OF i b(1), where rest = "[]"]) (auto simp: defs split: if_splits)
    moreover have "served ((serving s)(b := None)) ((place s)(u := Answered))"
      unfolding served_def
    proof (intro allI)
      fix b' v
      have sv': "place s w = Running c \<longleftrightarrow> serving s c = Some w" for w c
        using sv by (simp add: served_def)
      show "((serving s)(b := None)) b' = Some v \<longleftrightarrow> ((place s)(u := Answered)) v = Running b'"
      proof (cases "v = u")
        case True
        have "b' = b" if "serving s b' = Some u" using u that sv' [of u b'] by simp
        then show ?thesis using True by auto
      next
        case False
        then show ?thesis using sv' [of v b'] b(2) by auto
      qed
    qed
    ultimately show ?thesis
      using m Reply b u sc counted_elsewhere [OF q, of u Answered] counted_elsewhere [OF r, of u Answered]
      by (auto simp: defs calls_placed_def minv_def swap_clear_def)
  qed
qed

lemma minv_launch: "minv (launch P)"
proof -
  have "fits t None True (prog (launch P) t)" for t
    using fits_concat [of _ t "acts t"] acts_fit(1) by (cases t) (simp_all add: launch_def)
  then have "well_run (launch P)"
    unfolding well_run_def by (intro allI exI [of _ None]) (auto simp: launch_def)
  then show ?thesis
    by (auto simp: minv_def calls_placed_def counted_def served_def swap_clear_def launch_def)
qed

end
