(* ===== verification/Race_Freedom.thy ===== *)
theory Race_Freedom
  imports Data_Races
begin

text \<open>
  The disciplines by which the shared data of \<open>Data_Races\<close> is safe, one interpretation of the
  locale \<open>guarded\<close> each: the queue by its mutex, the frame of a caller by the way its call
  travels, the thread id of a loop by being written before the loop is passed on, the
  objects of a loop by staying on its thread; and the data that has no discipline.
\<close>

section \<open>What a step does\<close>

lemma mstep_cases [consumes 1, case_names Exec Dispatch Fire Network Begin Reply]:
  assumes "mstep s s'"
  obtains
    (Exec) t i rest where "prog s t = i # rest" "exec t i (continue t rest s) = Some s'"
  | (Dispatch) b where "idle s b" "active s b"
      "s' = emit (Looper b) (Sync (Event_base b))
        (continue (Looper b) (process_job_queue_acts b) (s\<lparr>active := (active s)(b := False)\<rparr>))"
  | (Fire) b k where "idle s b" "k < length (armed s b)"
      "s' = emit (Looper b) (Sync (Event_base b)) (continue (Looper b) (body b (armed s b ! k))
        (s\<lparr>armed := (armed s)(b := take k (armed s b) @ drop (Suc k) (armed s b))\<rparr>))"
  | (Network) b hdr ok where "idle s b" "registered s b" "0 \<notin> set hdr"
      "s' = emit (Looper b) (Sync (Event_base b)) (continue (Looper b) (path_header_acts b hdr ok) s)"
  | (Begin) b w c js where "prog s (Looper b) = []" "serving s b = None" "batch s b = (w, c) # js"
      "s' = (case w of None \<Rightarrow> continue (Looper b) (body b c) (s\<lparr>batch := (batch s)(b := js)\<rparr>)
        | Some u \<Rightarrow> emit (Looper b) (Rd (Frame u))
            ((continue (Looper b) (body b c) (s\<lparr>batch := (batch s)(b := js)\<rparr>))
              \<lparr>serving := (serving s)(b := Some u), place := (place s)(u := Running b)\<rparr>))"
  | (Reply) b u where "prog s (Looper b) = []" "serving s b = Some u"
      "s' = emit (Looper b) (Release (Promise u))
        (s\<lparr>serving := (serving s)(b := None), place := (place s)(u := Answered)\<rparr>)"
proof -
  obtain m where m: "advance m s = Some s'" using assms by (auto simp: mstep_def)
  show ?thesis
  proof (cases m)
    case (Run t)
    then show ?thesis using m Exec by (auto split: list.splits)
  next
    case (Dispatch b)
    then show ?thesis using m that(2) by (auto split: if_splits)
  next
    case (Fire b k)
    then show ?thesis using m that(3) by (auto split: if_splits)
  next
    case (Network b hdr ok)
    then show ?thesis using m that(4) by (auto split: if_splits)
  next
    case (Begin b)
    then obtain w c js where "prog s (Looper b) = []" "serving s b = None" "batch s b = (w, c) # js"
      using m by (auto split: if_splits list.splits)
    then show ?thesis using m Begin that(5) [of b w c js] by (simp add: Let_def)
  next
    case (Reply b)
    then obtain u where "prog s (Looper b) = []" "serving s b = Some u"
      using m by (auto split: if_splits option.splits)
    then show ?thesis using m Reply that(6) [of b u] by simp
  qed
qed

lemma events_grow:
  assumes "mstep s s'"
  shows "events s' = events s \<or> (\<exists>t e. events s' = events s @ [(t, e)])"
  using assms
proof (cases rule: mstep_cases)
  case (Exec t i rest)
  then show ?thesis by (cases i) (auto simp: emit_def continue_def split: if_splits)
qed (auto simp: emit_def continue_def split: option.splits)

lemma fits_head:
  assumes "minv s" and "prog s t = i # rest"
  obtains h where "fits t h (place s t = Home) (i # rest)" and "\<And>b. holder s b = Some t \<longleftrightarrow> h = Some b"
  using assms by (metis minv_def well_run_def)

lemma holder_step:
  assumes i: "minv s" and st: "mstep s s'"
  shows "holder s' b = holder s b \<or>
    (\<exists>t. holder s b = None \<and> holder s' b = Some t \<and> events s' = events s @ [(t, Acquire (Queue_mutex b))]) \<or>
    (\<exists>t. holder s b = Some t \<and> holder s' b = None \<and> events s' = events s @ [(t, Release (Queue_mutex b))])"
  using st
proof (cases rule: mstep_cases)
  case (Exec t j rest)
  obtain h where f: "fits t h (place s t = Home) (j # rest)"
    and h: "\<And>b. holder s b = Some t \<longleftrightarrow> h = Some b"
    using fits_head [OF i Exec(1)] by blast
  show ?thesis
  proof (cases j)
    case (Unlock c)
    then have "holder s c = Some t" using f h by simp
    then show ?thesis using Exec(2) by (cases "c = b") (auto simp: Unlock emit_def continue_def)
  qed (use Exec(2) in \<open>auto simp: emit_def continue_def split: if_splits\<close>)
qed (auto simp: emit_def continue_def split: option.splits)

lemma place_step:
  assumes i: "minv s" and st: "mstep s s'"
  shows "place s' u = place s u \<or>
    (\<exists>b. place s u = Home \<and> place s' u = Queued b \<and> holder s b = Some u \<and> holder s' b = Some u \<and>
       events s' = events s @ [(u, Wr (Job_queue b))]) \<or>
    (\<exists>b. place s u = Queued b \<and> place s' u = In_batch b \<and> holder s b = Some (Looper b) \<and>
       place s (Looper b) = Home \<and>
       events s' = events s @ [(Looper b, Wr (Job_queue b))]) \<or>
    (\<exists>b. place s u = In_batch b \<and> place s' u = Running b \<and> place s (Looper b) = Home \<and>
       events s' = events s @ [(Looper b, Rd (Frame u))]) \<or>
    (\<exists>b. place s u = Running b \<and> place s' u = Answered \<and>
       events s' = events s @ [(Looper b, Release (Promise u))]) \<or>
    (place s u = Answered \<and> place s' u = Home \<and> events s' = events s @ [(u, Acquire (Promise u))])"
  using st
proof (cases rule: mstep_cases)
  case (Exec t j rest)
  obtain h where f: "fits t h (place s t = Home) (j # rest)"
    and h: "\<And>b. holder s b = Some t \<longleftrightarrow> h = Some b"
    using fits_head [OF i Exec(1)] by blast
  show ?thesis
  proof (cases j)
    case (Emplace b w c)
    show ?thesis
    proof (cases w)
      case None then show ?thesis using Exec(2) by (auto simp: Emplace emit_def continue_def)
    next
      case (Some v)
      then have "v = t" "place s t = Home" "holder s b = Some t" using f h by (simp_all add: Emplace)
      then show ?thesis using Exec(2) Some
        by (cases "u = t") (auto simp: Emplace emit_def continue_def)
    qed
  next
    case (Swap b)
    then have "t = Looper b" "holder s b = Some t" "place s t = Home" using f h by auto
    then show ?thesis using Exec(2) by (auto simp: Swap emit_def continue_def take_calls_def)
  qed (use Exec(2) in \<open>auto simp: emit_def continue_def split: if_splits\<close>)
next
  case (Begin b w c js)
  have "counted (batch s) In_batch (place s)" using i by (simp add: minv_def calls_placed_def)
  then have "place s v = In_batch b" if "w = Some v" for v
    using counted_drop(2) [of "batch s" In_batch "place s" b v c js Home] Begin(3) that
    by (simp add: inj_def)
  moreover have "place s (Looper b) = Home"
    using i Begin(1) by (auto simp: minv_def well_run_def dest: spec [of _ "Looper b"])
  ultimately show ?thesis using Begin by (auto simp: emit_def continue_def split: option.splits)
next
  case (Reply b v)
  have "place s v = Running b" using i Reply(2) by (simp add: minv_def calls_placed_def served_def)
  then show ?thesis using Reply by (auto simp: emit_def continue_def)
qed (auto simp: emit_def continue_def)

text \<open>Who makes which access, and in which situation.\<close>

lemma access_step:
  assumes i: "minv s" and st: "mstep s s'" and ev: "events s' = events s @ [(t, e)]"
  shows "accesses e = Some (Job_queue b) \<Longrightarrow> holder s b = Some t \<and> holder s' b = Some t"
    and "accesses e = Some (Frame u) \<Longrightarrow> (u = t \<and> place s u = Home \<and> place s' u = Home) \<or>
      (\<exists>b. t = Looper b \<and> place s u = In_batch b \<and> place s' u = Running b)"
    and "accesses e = Some (Objects b) \<Longrightarrow> t = Looper b"
    and "e = Wr (Loop_tid b) \<Longrightarrow> maker s b = None \<and> (\<exists>rest. prog s t = New_loop b # rest)"
    and "e = Rd (Loop_tid b) \<Longrightarrow> \<exists>rest. prog s t = Read (Loop_tid b) # rest"
    and "accesses e = Some (Tickers b) \<Longrightarrow> \<exists>rest. prog s t \<in> {Read (Tickers b) # rest, Write (Tickers b) # rest}"
proof -
  have "(accesses e = Some (Job_queue b) \<longrightarrow> holder s b = Some t \<and> holder s' b = Some t) \<and>
    (accesses e = Some (Frame u) \<longrightarrow> (u = t \<and> place s u = Home \<and> place s' u = Home) \<or>
      (\<exists>b. t = Looper b \<and> place s u = In_batch b \<and> place s' u = Running b)) \<and>
    (accesses e = Some (Objects b) \<longrightarrow> t = Looper b) \<and>
    (e = Wr (Loop_tid b) \<longrightarrow> maker s b = None \<and> (\<exists>rest. prog s t = New_loop b # rest)) \<and>
    (e = Rd (Loop_tid b) \<longrightarrow> (\<exists>rest. prog s t = Read (Loop_tid b) # rest)) \<and>
    (accesses e = Some (Tickers b) \<longrightarrow>
      (\<exists>rest. prog s t \<in> {Read (Tickers b) # rest, Write (Tickers b) # rest}))"
    using st
  proof (cases rule: mstep_cases)
    case (Exec v j rest)
    obtain h where f: "fits v h (place s v = Home) (j # rest)"
      and h: "\<And>b. holder s b = Some v \<longleftrightarrow> h = Some b"
      using fits_head [OF i Exec(1)] by blast
    show ?thesis
      using Exec ev f h
      by (cases j) (auto simp: emit_def continue_def split: if_splits loc.splits)
  next
    case (Begin c w k js)
    have "counted (batch s) In_batch (place s)" using i by (simp add: minv_def calls_placed_def)
    then have "place s v = In_batch c" if "w = Some v" for v
      using counted_drop(2) [of "batch s" In_batch "place s" c v k js Home] Begin(3) that
      by (simp add: inj_def)
    then show ?thesis using Begin ev by (auto simp: emit_def continue_def split: option.splits)
  qed (use ev in \<open>auto simp: emit_def continue_def\<close>)
  then show "accesses e = Some (Job_queue b) \<Longrightarrow> holder s b = Some t \<and> holder s' b = Some t"
    and "accesses e = Some (Frame u) \<Longrightarrow> (u = t \<and> place s u = Home \<and> place s' u = Home) \<or>
      (\<exists>b. t = Looper b \<and> place s u = In_batch b \<and> place s' u = Running b)"
    and "accesses e = Some (Objects b) \<Longrightarrow> t = Looper b"
    and "e = Wr (Loop_tid b) \<Longrightarrow> maker s b = None \<and> (\<exists>rest. prog s t = New_loop b # rest)"
    and "e = Rd (Loop_tid b) \<Longrightarrow> \<exists>rest. prog s t = Read (Loop_tid b) # rest"
    and "accesses e = Some (Tickers b) \<Longrightarrow> \<exists>rest. prog s t \<in> {Read (Tickers b) # rest, Write (Tickers b) # rest}"
    by blast+
qed

section \<open>The disciplines\<close>

definition init :: "machine \<Rightarrow> bool" where
  "init s \<longleftrightarrow> (\<exists>P. s = launch P)"

lemma init_inv: "init s \<Longrightarrow> minv s"
  by (auto simp: init_def minv_launch)

lemma init_events: "init s \<Longrightarrow> events s = []"
  by (auto simp: init_def launch_def)

lemma init_clean: "init s \<Longrightarrow> \<not> data_race (events s) x"
  by (simp add: init_events data_race_def)

text \<open>The queue: whoever holds its mutex knows, or else the mutex does.\<close>

definition queue_guard :: "nat \<Rightarrow> machine \<Rightarrow> (thr, sync_object) node set \<Rightarrow> bool" where
  "queue_guard b s K \<longleftrightarrow>
     (case holder s b of None \<Rightarrow> Object (Queue_mutex b) \<in> K | Some t \<Rightarrow> Thread t \<in> K)"

lemma queue_guard_step:
  assumes "minv s" and "mstep s s'" and g: "queue_guard b s K"
  shows "events s' = events s \<Longrightarrow> queue_guard b s' K"
    and "events s' = events s @ [(t, e)] \<Longrightarrow> queue_guard b s' (learn K (t, e))"
proof -
  show "events s' = events s \<Longrightarrow> queue_guard b s' K"
    using holder_step [OF assms(1,2), of b] g by (auto simp: queue_guard_def)
  show "events s' = events s @ [(t, e)] \<Longrightarrow> queue_guard b s' (learn K (t, e))"
    using holder_step [OF assms(1,2), of b] g
    by (auto simp: queue_guard_def learn_mono split: option.splits)
qed

text \<open>The frame of a caller travels with its call.\<close>

definition frame_guard :: "thr \<Rightarrow> machine \<Rightarrow> (thr, sync_object) node set \<Rightarrow> bool" where
  "frame_guard u s K \<longleftrightarrow> (case place s u of
       Home \<Rightarrow> Thread u \<in> K
     | Queued b \<Rightarrow> queue_guard b s K
     | In_batch b \<Rightarrow> Thread (Looper b) \<in> K
     | Running b \<Rightarrow> Thread (Looper b) \<in> K
     | Answered \<Rightarrow> Object (Promise u) \<in> K)"

lemma frame_guard_step:
  assumes i: "minv s" and st: "mstep s s'" and g: "frame_guard u s K"
  shows "events s' = events s \<Longrightarrow> frame_guard u s' K"
    and "events s' = events s @ [(t, e)] \<Longrightarrow> frame_guard u s' (learn K (t, e))"
proof -
  show "events s' = events s \<Longrightarrow> frame_guard u s' K"
    using place_step [OF i st, of u] g queue_guard_step(1) [OF i st]
    by (auto simp: frame_guard_def split: place.splits)
  show "events s' = events s @ [(t, e)] \<Longrightarrow> frame_guard u s' (learn K (t, e))"
    using place_step [OF i st, of u] g queue_guard_step(2) [OF i st]
    by (auto simp: frame_guard_def queue_guard_def learn_mono split: place.splits)
qed

text \<open>
  The thread id of a loop is written once, by its maker. \<open>wants b is\<close>: what is left to do uses
  the loop before it gets its pointer. \<open>users\<close> are the threads and objects from which the
  loop can be reached; whoever is one of them knows that the id was written.
\<close>

fun uses :: "nat \<Rightarrow> instr \<Rightarrow> bool" where
  "uses b (Read x) \<longleftrightarrow> x = Loop_tid b"
| "uses b (Activate c) \<longleftrightarrow> c = b"
| "uses b (Arm c f) \<longleftrightarrow> c = b"
| "uses b (Register c) \<longleftrightarrow> c = b"
| "uses b (Publish c) \<longleftrightarrow> c = b"
| "uses b _ \<longleftrightarrow> False"

fun wants :: "nat \<Rightarrow> instr list \<Rightarrow> bool" where
  "wants b [] \<longleftrightarrow> False"
| "wants b (i # is) \<longleftrightarrow> i \<noteq> Obtain b \<and> i \<noteq> New_loop b \<and> (uses b i \<or> wants b is)"

lemma wants_append: "\<not> wants b is \<Longrightarrow> \<not> wants b js \<Longrightarrow> \<not> wants b (is @ js)"
  by (induction "is") auto

lemma wants_concat: "(\<And>x. x \<in> set xs \<Longrightarrow> \<not> wants b (f x)) \<Longrightarrow> \<not> wants b (concat (map f xs))"
  by (induction xs) (auto simp: wants_append)

lemma acts_want:
  "\<not> wants d (acts t o1)"
  "d \<noteq> b \<Longrightarrow> \<not> wants d (body b c)"
proof (induction t o1 and b c rule: acts_body.induct)
  case (15 b ops)
  then show ?case using wants_concat [of ops d "acts (Looper b)"] by auto
qed (auto simp: acts_defs)

definition woken :: "machine \<Rightarrow> nat \<Rightarrow> bool" where
  "woken s b \<longleftrightarrow> active s b \<or> armed s b \<noteq> [] \<or> registered s b"

definition users :: "nat \<Rightarrow> machine \<Rightarrow> (thr, sync_object) node set" where
  "users b s = (if made s b then {Object (Handover b)} else {}) \<union>
     (if woken s b then {Object (Event_base b)} else {}) \<union>
     (if idle s b then {} else {Thread (Looper b)}) \<union> {Thread t | t. wants b (prog s t)}"

lemma users_subset:
  "users b s \<subseteq> K \<longleftrightarrow> (made s b \<longrightarrow> Object (Handover b) \<in> K) \<and>
     (woken s b \<longrightarrow> Object (Event_base b) \<in> K) \<and> (\<not> idle s b \<longrightarrow> Thread (Looper b) \<in> K) \<and>
     (\<forall>t. wants b (prog s t) \<longrightarrow> Thread t \<in> K)"
  by (auto simp: users_def)

lemma users_keep:
  assumes g: "users b s \<subseteq> K" and K: "K \<subseteq> K'"
    and "made s' b \<Longrightarrow> made s b \<or> Object (Handover b) \<in> K'"
    and "woken s' b \<Longrightarrow> woken s b \<or> Object (Event_base b) \<in> K'"
    and "\<not> idle s' b \<Longrightarrow> \<not> idle s b \<or> Thread (Looper b) \<in> K'"
    and "\<And>u. wants b (prog s' u) \<Longrightarrow> wants b (prog s u) \<or> Thread u \<in> K'"
  shows "users b s' \<subseteq> K'"
  using assms unfolding users_subset by blast

lemma learn_subset: "K \<subseteq> learn K e"
  by (auto intro: learn_mono)

text \<open>What a thread knows when it carries out an instruction that matters to \<open>b\<close>.\<close>

lemma users_runner:
  assumes g: "users b s \<subseteq> K" and p: "prog s t = i # rest"
    and x: "exec t i (continue t rest s) = Some s'" and ev: "events s' = events s @ [(t, e)]"
  shows "i = Obtain b \<Longrightarrow> Thread t \<in> learn K (t, e)"
    and "uses b i \<Longrightarrow> Thread t \<in> K"
proof -
  show "Thread t \<in> learn K (t, e)" if "i = Obtain b"
    using g x ev that unfolding users_subset
    by (auto simp: emit_def continue_def split: if_splits)
  show "Thread t \<in> K" if u: "uses b i"
  proof -
    have "wants b (prog s t)" using p u by (cases i) auto
    then show ?thesis using g unfolding users_subset by blast
  qed
qed

lemma users_exec:
  assumes i: "minv s" and p: "prog s t = i # rest" and x: "exec t i (continue t rest s) = Some s'"
    and m: "maker s' b = maker s b" and g: "users b s \<subseteq> K" and ev: "events s' = events s @ [(t, e)]"
  shows "users b s' \<subseteq> learn K (t, e)"
proof -
  note runner = users_runner [OF g p x ev]
  have new: "i \<noteq> New_loop b" using x m by (auto simp: emit_def continue_def split: if_splits)
  have swap: "t = Looper c" if "i = Swap c" for c
    using fits_head [OF i p] that by (metis fits.simps(7))
  have p': "prog s' = (prog s)(t := rest)" using x
    by (cases i) (auto simp: emit_def continue_def split: if_splits)
  have k: "Thread t \<in> learn K (t, e)" if "uses b i" using runner(2) that by (simp add: learn_mono)
  show ?thesis
  proof (rule users_keep [OF g learn_subset])
    show "made s b \<or> Object (Handover b) \<in> learn K (t, e)" if "made s' b"
      using that x ev runner(2) by (cases i) (auto simp: emit_def continue_def split: if_splits)
    show "woken s b \<or> Object (Event_base b) \<in> learn K (t, e)" if "woken s' b"
      using that x ev runner(2) by (cases i) (auto simp: woken_def emit_def continue_def split: if_splits)
    show "\<not> idle s b \<or> Thread (Looper b) \<in> learn K (t, e)" if "\<not> idle s' b"
      using that x p swap
      by (cases i; cases "t = Looper b") (auto simp: emit_def continue_def idle_def split: if_splits)
    show "wants b (prog s u) \<or> Thread u \<in> learn K (t, e)" if "wants b (prog s' u)" for u
      using that p p' new runner(1) by (cases "u = t") auto
  qed
qed

lemma users_step:
  assumes i: "minv s" and st: "mstep s s'" and m: "maker s' b = maker s b" and g: "users b s \<subseteq> K"
  shows "events s' = events s \<Longrightarrow> users b s' \<subseteq> K"
    and "events s' = events s @ [(t, e)] \<Longrightarrow> users b s' \<subseteq> learn K (t, e)"
proof -
  have body: "c = b" if "wants b (body c f)" for c f using acts_want(2) [of b c f] that by auto
  note start = users_subset woken_def idle_def emit_def continue_def
  show "users b s' \<subseteq> K" if same: "events s' = events s"
    using st
  proof (cases rule: mstep_cases)
    case (Exec v j rest)
    then have "j = Set_once" "s' = continue v rest s" using same
      by (cases j; auto simp: emit_def continue_def split: if_splits)+
    moreover have "idle s' b \<longrightarrow> v \<noteq> Looper b \<or> rest = []" using calculation(2) by (auto simp: idle_def continue_def)
    ultimately show ?thesis using Exec(1)
      by (intro users_keep [OF g]) (auto simp: start split: if_splits)
  next
    case (Begin c w f js)
    then have "w = None" using same by (auto simp: emit_def continue_def split: option.splits)
    moreover have "wants b (body c f) \<Longrightarrow> Thread (Looper c) \<in> K"
      using body [of c f] g Begin by (auto simp: users_subset idle_def)
    ultimately show ?thesis using Begin
      by (intro users_keep [OF g]) (auto simp: start split: if_splits)
  qed (use same in \<open>auto simp: emit_def continue_def\<close>)
  show "users b s' \<subseteq> learn K (t, e)" if ev: "events s' = events s @ [(t, e)]"
    using st
  proof (cases rule: mstep_cases)
    case (Exec v j rest)
    then have "v = t" using ev by (cases j) (auto simp: emit_def continue_def split: if_splits)
    then show ?thesis using users_exec [OF i _ _ m g ev] Exec by blast
  next
    case (Dispatch c)
    then have "t = Looper c" "e = Sync (Event_base c)" using ev by (auto simp: emit_def continue_def)
    moreover have "c = b \<Longrightarrow> Object (Event_base b) \<in> K" using g Dispatch(2) by (auto simp: users_subset woken_def)
    ultimately show ?thesis using Dispatch
      by (intro users_keep [OF g learn_subset])
        (auto simp: start process_job_queue_acts_def split: if_splits)
  next
    case (Fire c k)
    then have "t = Looper c" "e = Sync (Event_base c)" using ev by (auto simp: emit_def continue_def)
    moreover have "armed s c \<noteq> []" using Fire(2) by auto
    then have "c = b \<Longrightarrow> Object (Event_base b) \<in> K" using g by (auto simp: users_subset woken_def)
    ultimately show ?thesis using Fire body
      by (intro users_keep [OF g learn_subset]) (auto simp: start split: if_splits)
  next
    case (Network c hdr ok)
    then have "t = Looper c" "e = Sync (Event_base c)" using ev by (auto simp: emit_def continue_def)
    moreover have "c = b \<Longrightarrow> Object (Event_base b) \<in> K" using g Network(2) by (auto simp: users_subset woken_def)
    ultimately show ?thesis using Network
      by (intro users_keep [OF g learn_subset]) (auto simp: start network_acts split: if_splits)
  next
    case (Begin c w f js)
    moreover have "wants b (body c f) \<Longrightarrow> Thread (Looper c) \<in> K"
      using body [of c f] g Begin by (auto simp: users_subset idle_def)
    ultimately show ?thesis
      by (intro users_keep [OF g learn_subset])
        (auto simp: start learn_mono split: if_splits option.splits)
  next
    case (Reply c u)
    then show ?thesis
      by (intro users_keep [OF g learn_subset]) (auto simp: start split: if_splits)
  qed
qed

text \<open>No thread has a loop before it is made.\<close>

definition loops_made :: "machine \<Rightarrow> bool" where
  "loops_made s \<longleftrightarrow> (\<forall>b. maker s b = None \<longrightarrow> users b s = {})"

lemma new_loop_users:
  assumes st: "mstep s s'" and none: "users b s = {}" and p: "prog s t = New_loop b # rest"
    and ev: "events s' = events s @ [(t, Wr (Loop_tid b))]"
  shows "users b s' \<subseteq> {Thread t} \<and> maker s' b \<noteq> None"
  using st
proof (cases rule: mstep_cases)
  case (Exec v j js)
  then have "v = t" using ev by (cases j) (auto simp: emit_def continue_def split: if_splits)
  then have "j = New_loop b" "js = rest" using Exec(1) p by simp_all
  then show ?thesis using Exec(2) none p \<open>v = t\<close>
    by (cases "t = Looper b")
      (auto simp: users_def woken_def idle_def emit_def continue_def split: if_splits)
qed (use ev in \<open>auto simp: emit_def continue_def split: option.splits\<close>)

lemma maker_step:
  assumes "mstep s s'"
  shows "maker s' b = maker s b \<or> maker s b = None \<and> maker s' b \<noteq> None"
  using assms
proof (cases rule: mstep_cases)
  case (Exec t i rest)
  then show ?thesis by (cases i) (auto simp: emit_def continue_def split: if_splits)
qed (auto simp: emit_def continue_def split: option.splits)

lemma loops_made_step:
  assumes i: "minv s" and l: "loops_made s" and st: "mstep s s'"
  shows "loops_made s'"
  unfolding loops_made_def
proof (intro allI impI)
  fix b assume n: "maker s' b = None"
  then have m: "maker s' b = maker s b" using maker_step [OF st, of b] by auto
  then have none: "users b s \<subseteq> {}" using l n by (simp add: loops_made_def)
  from events_grow [OF st] show "users b s' = {}"
  proof
    assume "events s' = events s"
    then show ?thesis using users_step(1) [OF i st m none] by simp
  next
    assume "\<exists>t e. events s' = events s @ [(t, e)]"
    then obtain t e where "events s' = events s @ [(t, e)]" by blast
    moreover have "learn {} (t, e) = {}" by (cases e) auto
    ultimately show ?thesis using users_step(2) [OF i st m none] by simp
  qed
qed

lemma loops_made_launch: "init s \<Longrightarrow> loops_made s"
proof -
  assume "init s"
  then obtain P where s: "s = launch P" by (auto simp: init_def)
  have "\<not> wants b (prog s t)" for b t
    using wants_concat [of _ b "acts t"] acts_want(1) by (cases t) (simp_all add: s launch_def)
  then show ?thesis by (simp add: loops_made_def users_def woken_def idle_def s launch_def)
qed

section \<open>No races\<close>

interpretation machine: traced init mstep minv events
  by unfold_locales (rule init_inv minv_step events_grow init_clean; assumption)+

interpretation queue: guarded init mstep minv events "Job_queue b" "\<lambda>s a. queue_guard b s" for b
proof unfold_locales
  fix s s' :: machine and K t e and a f :: "(loc, sync_object) event"
  show "queue_guard b s (knows {Thread u} mid)"
    if "init s" "events s = pre @ (u, a) # mid" "accesses a = Some (Job_queue b)" for pre u mid
    using init_events [OF that(1)] that(2) by simp
  show "queue_guard b s' K" if "minv s" "mstep s s'" "events s' = events s" "queue_guard b s K"
    using queue_guard_step(1) that by blast
  show "queue_guard b s' (learn K (t, e))"
    if "minv s" "mstep s s'" "events s' = events s @ [(t, e)]" "queue_guard b s K"
    using queue_guard_step(2) that by blast
  show "queue_guard b s' {Thread t}"
    if "minv s" "mstep s s'" "events s' = events s @ [(t, a)]" "accesses a = Some (Job_queue b)"
    using access_step(1) [OF that(1-3)] that(4) by (simp add: queue_guard_def)
  show "Thread t \<in> K" if "minv s" "mstep s s'" "events s' = events s @ [(t, f)]"
    "conflict a f (Job_queue b)" "queue_guard b s K"
    using access_step(1) [OF that(1-3)] that(4,5) by (simp add: queue_guard_def conflict_def)
qed

interpretation frame: guarded init mstep minv events "Frame v" "\<lambda>s a. frame_guard v s" for v
proof unfold_locales
  fix s s' :: machine and K t e and a f :: "(loc, sync_object) event"
  show "frame_guard v s (knows {Thread u} mid)"
    if "init s" "events s = pre @ (u, a) # mid" "accesses a = Some (Frame v)" for pre u mid
    using init_events [OF that(1)] that(2) by simp
  show "frame_guard v s' K" if "minv s" "mstep s s'" "events s' = events s" "frame_guard v s K"
    using frame_guard_step(1) that by blast
  show "frame_guard v s' (learn K (t, e))"
    if "minv s" "mstep s s'" "events s' = events s @ [(t, e)]" "frame_guard v s K"
    using frame_guard_step(2) that by blast
  show "frame_guard v s' {Thread t}"
    if "minv s" "mstep s s'" "events s' = events s @ [(t, a)]" "accesses a = Some (Frame v)"
    using access_step(2) [OF that(1-3)] that(4) by (auto simp: frame_guard_def)
  show "Thread t \<in> K" if "minv s" "mstep s s'" "events s' = events s @ [(t, f)]"
    "conflict a f (Frame v)" "frame_guard v s K"
    using access_step(2) [OF that(1-3)] that(4,5) by (auto simp: frame_guard_def conflict_def)
qed

text \<open>The thread id is written once, and whoever can reach the loop knows that it was.\<close>

definition tid_guard :: "nat \<Rightarrow> machine \<Rightarrow> (loc, sync_object) event \<Rightarrow> (thr, sync_object) node set \<Rightarrow> bool" where
  "tid_guard b s a K \<longleftrightarrow> maker s b \<noteq> None \<and> (a = Wr (Loop_tid b) \<longrightarrow> users b s \<subseteq> K)"

lemma tid_guard_step:
  assumes "minv s" and st: "mstep s s'" and g: "tid_guard b s a K"
  shows "events s' = events s \<Longrightarrow> tid_guard b s' a K"
    and "events s' = events s @ [(t, e)] \<Longrightarrow> tid_guard b s' a (learn K (t, e))"
proof -
  have m: "maker s' b = maker s b" using maker_step [OF st, of b] g by (auto simp: tid_guard_def)
  note step = users_step [OF assms(1) st m]
  show "events s' = events s \<Longrightarrow> tid_guard b s' a K"
    using step(1) g m by (auto simp: tid_guard_def)
  show "events s' = events s @ [(t, e)] \<Longrightarrow> tid_guard b s' a (learn K (t, e))"
    using step(2) [of K t e] g m by (auto simp: tid_guard_def)
qed

lemma tid_reader:
  assumes "prog s t = Read (Loop_tid b) # rest"
  shows "Thread t \<in> users b s"
  using assms by (auto simp: users_def)

interpretation loop_tid: guarded init mstep "\<lambda>s. minv s \<and> loops_made s" events "Loop_tid b" "tid_guard b" for b
proof unfold_locales
  fix s s' :: machine and K t e and a f :: "(loc, sync_object) event" and x
  show "minv s \<and> loops_made s" if "init s" using that init_inv loops_made_launch by blast
  show "minv s' \<and> loops_made s'" if "minv s \<and> loops_made s" "mstep s s'"
    using that minv_step loops_made_step by blast
  show "events s' = events s \<or> (\<exists>t e. events s' = events s @ [(t, e)])" if "mstep s s'"
    using that by (rule events_grow)
  show "\<not> data_race (events s) x" if "init s" using that by (rule init_clean)
  show "tid_guard b s a (knows {Thread u} mid)"
    if "init s" "events s = pre @ (u, a) # mid" "accesses a = Some (Loop_tid b)" for pre u mid
    using init_events [OF that(1)] that(2) by simp
  show "tid_guard b s' a K"
    if "minv s \<and> loops_made s" "mstep s s'" "events s' = events s" "tid_guard b s a K"
    using tid_guard_step(1) that by blast
  show "tid_guard b s' a (learn K (t, e))"
    if "minv s \<and> loops_made s" "mstep s s'" "events s' = events s @ [(t, e)]" "tid_guard b s a K"
    using tid_guard_step(2) that by blast
  have maker: "maker s b \<noteq> None" if c: "minv s \<and> loops_made s" "prog s t = Read (Loop_tid b) # rest" for t rest
    using tid_reader [OF c(2)] c(1) by (auto simp: loops_made_def)
  show "tid_guard b s' a {Thread t}"
    if c: "minv s \<and> loops_made s" "mstep s s'" "events s' = events s @ [(t, a)]" "accesses a = Some (Loop_tid b)"
  proof (cases "a = Wr (Loop_tid b)")
    case True
    then obtain rest where p: "maker s b = None" "prog s t = New_loop b # rest"
      using access_step(4) [OF conjunct1 [OF c(1)] c(2,3)] by blast
    have none: "users b s = {}" using c(1) p(1) by (simp add: loops_made_def)
    have ev: "events s' = events s @ [(t, Wr (Loop_tid b))]" using c(3) True by simp
    then show ?thesis using new_loop_users [OF c(2) none p(2) ev] by (simp add: tid_guard_def)
  next
    case False
    then have "a = Rd (Loop_tid b)" using c(4) by (cases a) auto
    then obtain rest where "prog s t = Read (Loop_tid b) # rest"
      using access_step(5) [OF conjunct1 [OF c(1)] c(2,3)] by blast
    then have "maker s b \<noteq> None" using maker [OF c(1)] by blast
    then show ?thesis using False maker_step [OF c(2), of b] by (auto simp: tid_guard_def)
  qed
  show "Thread t \<in> K" if c: "minv s \<and> loops_made s" "mstep s s'" "events s' = events s @ [(t, f)]"
    "conflict a f (Loop_tid b)" "tid_guard b s a K"
  proof -
    have "f \<noteq> Wr (Loop_tid b)"
      using access_step(4) [OF conjunct1 [OF c(1)] c(2,3)] c(5) by (auto simp: tid_guard_def)
    then have a: "a = Wr (Loop_tid b)" and f: "f = Rd (Loop_tid b)"
      using c(4) by (cases f; auto simp: conflict_def)+
    obtain rest where "prog s t = Read (Loop_tid b) # rest"
      using access_step(5) [OF conjunct1 [OF c(1)] c(2,3)] f by blast
    then show ?thesis using tid_reader [of s t b rest] c(5) a by (auto simp: tid_guard_def)
  qed
qed

interpretation objects: guarded init mstep minv events "Objects b" "\<lambda>s a K. Thread (Looper b) \<in> K" for b
proof unfold_locales
  fix s s' :: machine and K t e and a f :: "(loc, sync_object) event"
  show "Thread (Looper b) \<in> knows {Thread u} mid"
    if "init s" "events s = pre @ (u, a) # mid" "accesses a = Some (Objects b)" for pre u mid
    using init_events [OF that(1)] that(2) by simp
  show "Thread (Looper b) \<in> learn K (t, e)" if "Thread (Looper b) \<in> K" using that by (rule learn_mono)
  show "Thread (Looper b) \<in> {Thread t}"
    if "minv s" "mstep s s'" "events s' = events s @ [(t, a)]" "accesses a = Some (Objects b)"
    using access_step(3) [OF that(1-3)] that(4) by simp
  show "Thread t \<in> K" if "minv s" "mstep s s'" "events s' = events s @ [(t, f)]"
    "conflict a f (Objects b)" "Thread (Looper b) \<in> K"
    using access_step(3) [OF that(1-3)] that(4,5) by (simp add: conflict_def)
qed

theorem loop_data_race_free:
  assumes "reaches P s"
  shows "\<not> data_race (events s) (Job_queue b)" and "\<not> data_race (events s) (Loop_tid b)"
    and "\<not> data_race (events s) (Frame t)" and "\<not> data_race (events s) (Objects b)"
proof -
  have i: "init (launch P)" by (auto simp: init_def)
  show "\<not> data_race (events s) (Job_queue b)" by (rule queue.race_free [OF i assms])
  show "\<not> data_race (events s) (Loop_tid b)" by (rule loop_tid.race_free [OF i assms])
  show "\<not> data_race (events s) (Frame t)" by (rule frame.race_free [OF i assms])
  show "\<not> data_race (events s) (Objects b)" by (rule objects.race_free [OF i assms])
qed

end
