(* ===== verification/Race_Props.thy ===== *)
theory Race_Props
  imports Race_Freedom
begin

text \<open>
  What follows for programs that use the library from several threads: which data can race,
  that it does, and how calls between loops block each other for good.
\<close>

section \<open>Tickers\<close>

text \<open>
  \<open>off_loop b t o1\<close>: carrying out \<open>o1\<close> on \<open>t\<close> calls \<open>call_every\<close> of the loop \<open>b\<close>, at once or in
  a closure, on another thread than the loop's.
\<close>

fun off_loop :: "nat \<Rightarrow> thr \<Rightarrow> op \<Rightarrow> bool" and off_clo :: "nat \<Rightarrow> nat \<Rightarrow> clo \<Rightarrow> bool" where
  "off_loop b t (Call c f) \<longleftrightarrow> off_clo b c f"
| "off_loop b t (Call_soon c f) \<longleftrightarrow> off_clo b c f"
| "off_loop b t (Call_get c f) \<longleftrightarrow> off_clo b c f"
| "off_loop b t (Call_later c over f) \<longleftrightarrow> off_clo b c f"
| "off_loop b t (Call_every c f) \<longleftrightarrow> c = b \<and> t \<noteq> Looper b \<or> off_clo b c f"
| "off_loop b t (Listen c) \<longleftrightarrow> False"
| "off_loop b t (Connect c ok) \<longleftrightarrow> False"
| "off_loop b t (Close_listener c) \<longleftrightarrow> False"
| "off_loop b t (Test_parse c ok) \<longleftrightarrow> False"
| "off_loop b t (Parse_url ok) \<longleftrightarrow> False"
| "off_loop b t (Make_loop c) \<longleftrightarrow> False"
| "off_loop b t (Make_endpoint_new c) \<longleftrightarrow> False"
| "off_loop b t (Make_endpoint c) \<longleftrightarrow> False"
| "off_loop b t (Drop_endpoint c now) \<longleftrightarrow> False"
| "off_clo b c (Fn ops) \<longleftrightarrow> list_ex (off_loop b (Looper c)) ops"
| "off_clo b c (Later_fn over f) \<longleftrightarrow> off_clo b c f"
| "off_clo b c Listen_fn \<longleftrightarrow> False"
| "off_clo b c (Connect_fn ok) \<longleftrightarrow> False"
| "off_clo b c Close_fn \<longleftrightarrow> False"
| "off_clo b c (Test_parse_fn ok) \<longleftrightarrow> False"
| "off_clo b c (Delete_endpoint_fn now) \<longleftrightarrow> False"

fun quiet_instr :: "nat \<Rightarrow> thr \<Rightarrow> instr \<Rightarrow> bool" where
  "quiet_instr b t (Read (Tickers c)) \<longleftrightarrow> c = b \<longrightarrow> t = Looper b"
| "quiet_instr b t (Write (Tickers c)) \<longleftrightarrow> c = b \<longrightarrow> t = Looper b"
| "quiet_instr b t (Emplace c w f) \<longleftrightarrow> \<not> off_clo b c f"
| "quiet_instr b t (Arm c f) \<longleftrightarrow> \<not> off_clo b c f"
| "quiet_instr b t _ \<longleftrightarrow> True"

definition quiet_acts :: "nat \<Rightarrow> thr \<Rightarrow> instr list \<Rightarrow> bool" where
  "quiet_acts b t is \<longleftrightarrow> (\<forall>i \<in> set is. quiet_instr b t i)"

lemma quiet_acts_simps [simp]:
  "quiet_acts b t []"
  "quiet_acts b t (i # is) \<longleftrightarrow> quiet_instr b t i \<and> quiet_acts b t is"
  "quiet_acts b t (is @ js) \<longleftrightarrow> quiet_acts b t is \<and> quiet_acts b t js"
  by (auto simp: quiet_acts_def)

lemma quiet_concat: "(\<And>x. x \<in> set xs \<Longrightarrow> quiet_acts b t (f x)) \<Longrightarrow> quiet_acts b t (concat (map f xs))"
  by (auto simp: quiet_acts_def)

lemma acts_quiet:
  "\<not> off_loop b t o1 \<Longrightarrow> quiet_acts b t (acts t o1)"
  "\<not> off_clo b c f \<Longrightarrow> quiet_acts b (Looper c) (body c f)"
proof (induction t o1 and c f rule: acts_body.induct)
  case (15 c ops)
  then show ?case by (auto simp: list_ex_iff intro!: quiet_concat)
qed (auto simp: acts_defs)

definition quiet :: "nat \<Rightarrow> machine \<Rightarrow> bool" where
  "quiet b s \<longleftrightarrow> (\<forall>t. quiet_acts b t (prog s t)) \<and>
     (\<forall>c w f. (w, f) \<in> set (jobs s c) \<longrightarrow> \<not> off_clo b c f) \<and>
     (\<forall>c w f. (w, f) \<in> set (batch s c) \<longrightarrow> \<not> off_clo b c f) \<and>
     (\<forall>c f. f \<in> set (armed s c) \<longrightarrow> \<not> off_clo b c f)"

lemma quiet_step:
  assumes q: "quiet b s" and st: "mstep s s'"
  shows "quiet b s'"
  using st
proof (cases rule: mstep_cases)
  case (Exec t i rest)
  have "quiet_acts b t (i # rest)" using q Exec(1) by (metis quiet_def)
  then show ?thesis using q Exec(2)
    by (cases i) (auto simp: quiet_def emit_def continue_def split: if_splits)
next
  case (Dispatch c)
  then show ?thesis using q by (auto simp: quiet_def emit_def continue_def process_job_queue_acts_def)
next
  case (Fire c k)
  then have "\<not> off_clo b c (armed s c ! k)" using q by (auto simp: quiet_def)
  then show ?thesis using q Fire acts_quiet(2)
    by (auto simp: quiet_def emit_def continue_def dest: in_set_takeD in_set_dropD)
next
  case (Network c hdr ok)
  then show ?thesis using q by (auto simp: quiet_def emit_def continue_def network_acts)
next
  case (Begin c w f js)
  have "\<not> off_clo b c g" if "(v, g) \<in> set ((w, f) # js)" for v g
    using that q Begin(3) by (simp add: quiet_def)
  then have "\<not> off_clo b c f" and "\<And>v g. (v, g) \<in> set js \<Longrightarrow> \<not> off_clo b c g" by auto
  then show ?thesis using q Begin acts_quiet(2) [of b c f]
    by (auto simp: quiet_def emit_def continue_def split: option.splits)
next
  case (Reply c u)
  then show ?thesis using q by (auto simp: quiet_def emit_def)
qed

definition quiet_init :: "nat \<Rightarrow> machine \<Rightarrow> bool" where
  "quiet_init b s \<longleftrightarrow> (\<exists>P. s = launch P \<and> (\<forall>n. \<forall>o1 \<in> set (P n). \<not> off_loop b (User n) o1))"

lemma quiet_init_quiet: "quiet_init b s \<Longrightarrow> quiet b s"
  by (auto simp: quiet_init_def quiet_def launch_def intro!: quiet_concat acts_quiet split: thr.splits)

lemma quiet_init_init: "quiet_init b s \<Longrightarrow> init s"
  by (auto simp: quiet_init_def init_def)

interpretation tickers: guarded "quiet_init b" mstep "\<lambda>s. minv s \<and> quiet b s" events "Tickers b"
  "\<lambda>s a K. Thread (Looper b) \<in> K" for b
proof unfold_locales
  fix s s' :: machine and K t e and a f :: "(loc, sync_object) event" and x
  show "minv s \<and> quiet b s" if "quiet_init b s"
    using that quiet_init_init quiet_init_quiet init_inv by blast
  show "minv s' \<and> quiet b s'" if "minv s \<and> quiet b s" "mstep s s'"
    using that minv_step quiet_step by blast
  show "events s' = events s \<or> (\<exists>t e. events s' = events s @ [(t, e)])" if "mstep s s'"
    using that by (rule events_grow)
  show "\<not> data_race (events s) x" if "quiet_init b s"
    using that init_clean quiet_init_init by blast
  show "Thread (Looper b) \<in> knows {Thread u} mid"
    if "quiet_init b s" "events s = pre @ (u, a) # mid" "accesses a = Some (Tickers b)" for pre u mid
    using init_events [OF quiet_init_init [OF that(1)]] that(2) by simp
  show "Thread (Looper b) \<in> learn K (t, e)" if "Thread (Looper b) \<in> K" using that by (rule learn_mono)
  have own: "t = Looper b" if c: "minv s \<and> quiet b s" "mstep s s'" "events s' = events s @ [(t, f)]"
    "accesses f = Some (Tickers b)" for f :: "(loc, sync_object) event"
  proof -
    obtain rest where "prog s t \<in> {Read (Tickers b) # rest, Write (Tickers b) # rest}"
      using access_step(6) [OF conjunct1 [OF c(1)] c(2,3)] c(4) by blast
    moreover have "quiet_acts b t (prog s t)" using c(1) by (simp add: quiet_def)
    ultimately show ?thesis by auto
  qed
  show "Thread (Looper b) \<in> {Thread t}"
    if "minv s \<and> quiet b s" "mstep s s'" "events s' = events s @ [(t, a)]" "accesses a = Some (Tickers b)"
    using own [OF that] by simp
  show "Thread t \<in> K" if c: "minv s \<and> quiet b s" "mstep s s'" "events s' = events s @ [(t, f)]"
    "conflict a f (Tickers b)" "Thread (Looper b) \<in> K"
    using own [OF c(1-3)] c(4,5) by (simp add: conflict_def)
qed

section \<open>Which data races\<close>

text \<open>
  C4. Which data can race. However many threads make loops and endpoints and use them with the
  operations of \<open>op\<close>, and however they interleave, happens-before orders every two conflicting
  accesses to the queue of a loop, to its thread id, to the frame of a caller of \<open>call_get\<close>
  that its closure works on, and to the endpoints, listeners and sessions of a loop, unless
  the flag by which the first loop sets up libevent has itself been in a race (the bases are
  then not sure to have locks). Beside that flag only three variables of those modelled can
  be in a data race: the global url parser, the counter of client ids, and the tickers of a
  loop, these last only in a program that calls \<open>call_every\<close> off the loop's thread. A thread is
  taken to get its pointer to a loop by a synchronisation with the thread that made it.
\<close>

theorem only_unguarded_data_races:
  assumes r: "reaches P s" and race: "data_race (events s) x"
  shows "data_race (events s) Loop_once \<or> x = Url_parser \<or> x = Next_client_id \<or>
    (\<exists>b n o1. x = Tickers b \<and> o1 \<in> set (P n) \<and> off_loop b (User n) o1)"
proof (cases x)
  case (Tickers b)
  have "\<not> quiet_init b (launch P)" using tickers.race_free [OF _ r, of b] race by (auto simp: Tickers)
  then show ?thesis unfolding Tickers quiet_init_def by blast
qed (use loop_data_race_free [OF r] race in auto)

text \<open>All of them do race: threads that are about to use one at the same time race on it.\<close>

lemma neighbours_race:
  assumes "events s = pre @ (u, a) # mid @ (v, b) # post" and "u \<noteq> v" and "conflict a b x"
    and "knows {Thread u} mid = {Thread u}"
  shows "data_race (events s) x"
proof -
  have "Thread v \<notin> knows {Thread u} mid" using assms(2,4) by simp
  then show ?thesis unfolding data_race_iff using assms(1-3) by blast
qed

fun touches :: "loc \<Rightarrow> instr \<Rightarrow> bool" where
  "touches x (Read y) \<longleftrightarrow> x = y"
| "touches x (Write y) \<longleftrightarrow> x = y"
| "touches x _ \<longleftrightarrow> False"

theorem unguarded_data_races:
  assumes r: "reaches P s" and tu: "t \<noteq> u" and p: "prog s t = Write x # is" "prog s u = j # js"
    and j: "touches x j"
  shows "\<exists>s'. reaches P s' \<and> data_race (events s') x"
proof -
  have "runs [Run t, Run u] s \<noteq> None"
    using tu p j by (cases j) (auto simp: emit_def continue_def)
  then obtain s' where run: "runs [Run t, Run u] s = Some s'" by blast
  then obtain e where "events s' = events s @ (t, Wr x) # [] @ (u, e) # []" "accesses e = Some x"
    using tu p j by (cases j) (auto simp: emit_def continue_def)
  then have "data_race (events s') x"
    by (intro neighbours_race) (use tu in \<open>auto simp: conflict_def\<close>)
  moreover have "reaches P s'" using r runs_reaches [OF run] by (rule rtranclp_trans)
  ultimately show ?thesis by blast
qed

text \<open>
  Two threads make an endpoint each, in step; then each calls \<open>connect\<close> up to the moment
  when its loop has taken up the job.
\<close>

definition making_moves :: "nat \<Rightarrow> nat \<Rightarrow> move list" where
  "making_moves m n = map (Run \<circ> User) [m, m, n, n, m, n, m, m, n, n, m, n]"

definition calling_moves :: "nat \<Rightarrow> nat \<Rightarrow> move list" where
  "calling_moves m a = replicate 7 (Run (User m)) @ [Dispatch a] @ replicate 4 (Run (Looper a)) @ [Begin a]"

definition calling_events :: "nat \<Rightarrow> nat \<Rightarrow> (thr, loc, sync_object) execution" where
  "calling_events m a =
     map (Pair (User m)) [Acquire (Handover a), Rd (Loop_tid a), Wr (Frame (User m)), Acquire (Queue_mutex a),
       Wr (Job_queue a), Release (Queue_mutex a), Sync (Event_base a)] @
     map (Pair (Looper a)) [Sync (Event_base a), Rd (Loop_tid a), Acquire (Queue_mutex a), Wr (Job_queue a),
       Release (Queue_mutex a), Rd (Frame (User m))]"

lemmas run_defs = making_moves_def calling_moves_def calling_events_def numeral_eq_Suc launch_def idle_def
  emit_def continue_def acts_defs process_job_queue_acts_def take_calls_def

text \<open>
  C11. Threads that share nothing race. Two threads that each make an endpoint with a loop of
  its own and connect it, and that have no object in common, can race on three variables of
  the library in one run: on the flag by which the first loop sets up libevent, on the
  counter of client ids, and on the url parser, which the two loops use for them.
\<close>

theorem independent_endpoints_race:
  assumes mn: "m \<noteq> n" and ab: "a \<noteq> b"
    and P: "P m = Make_endpoint_new a # Connect a ok # p" "P n = Make_endpoint_new b # Connect b ok' # q"
  shows "\<exists>s. reaches P s \<and> data_race (events s) Loop_once \<and> data_race (events s) Next_client_id \<and>
    data_race (events s) Url_parser"
proof -
  let ?ms = "making_moves m n @ calling_moves m a @ calling_moves n b @ [Run (Looper a), Run (Looper b)]"
  let ?u = "User m" and ?v = "User n"
  note ne = mn mn [symmetric] ab ab [symmetric]
  have "runs ?ms (launch P) \<noteq> None" using ne by (simp add: run_defs P)
  then obtain s where run: "runs ?ms (launch P) = Some s" by blast
  have ev: "events s = [(?u, Rd Loop_once), (?u, Wr Loop_once), (?v, Rd Loop_once),
      (?u, Wr (Loop_tid a)), (?v, Wr (Loop_tid b)), (?u, Rd Next_client_id), (?u, Wr Next_client_id),
      (?v, Rd Next_client_id), (?v, Wr Next_client_id), (?u, Release (Handover a)), (?v, Release (Handover b))] @
      calling_events m a @ calling_events n b @ [(Looper a, Wr Url_parser), (Looper b, Wr Url_parser)]"
    using run ne by (simp add: run_defs P) auto
  have "data_race (events s) Loop_once"
    by (rule neighbours_race [where pre = "[(?u, Rd Loop_once)]" and u = ?u and a = "Wr Loop_once"
          and mid = "[]" and v = ?v and b = "Rd Loop_once"]) (use mn in \<open>simp_all add: ev conflict_def\<close>)
  moreover have "data_race (events s) Next_client_id"
    by (rule neighbours_race [where pre = "take 6 (events s)" and u = ?u and a = "Wr Next_client_id"
          and mid = "[]" and v = ?v and b = "Rd Next_client_id"])
      (use mn in \<open>simp_all add: ev conflict_def\<close>)
  moreover have "data_race (events s) Url_parser"
    by (rule neighbours_race [where u = "Looper a" and a = "Wr Url_parser"
          and mid = "[]" and v = "Looper b" and b = "Wr Url_parser" and post = "[]"
          and pre = "take 37 (events s)"])
      (use ab in \<open>simp_all add: ev conflict_def calling_events_def\<close>)
  ultimately show ?thesis using runs_reaches [OF run] by blast
qed

section \<open>Calls that wait for each other\<close>

definition waiting_for :: "machine \<Rightarrow> thr \<Rightarrow> nat \<Rightarrow> bool" where
  "waiting_for s t b \<longleftrightarrow> place s t = Queued b \<or> place s t = In_batch b"

definition knot :: "machine \<Rightarrow> nat set \<Rightarrow> bool" where
  "knot s B \<longleftrightarrow> (\<forall>b \<in> B. \<exists>c \<in> B. waiting_for s (Looper b) c)"

lemma knot_step:
  assumes i: "minv s" and st: "mstep s s'" and k: "knot s B" and w: "waiting_for s t b" and b: "b \<in> B"
  shows "place s' t = place s t"
proof -
  have "place s (Looper b) \<noteq> Home" using k b by (auto simp: knot_def waiting_for_def)
  then show ?thesis using place_step [OF i st, of t] w by (auto simp: waiting_for_def)
qed

lemma knot_steps:
  assumes "mstep\<^sup>*\<^sup>* s s'" and "minv s" and k: "knot s B"
  shows "minv s' \<and> knot s' B \<and> (\<forall>t. (\<exists>b \<in> B. waiting_for s t b) \<longrightarrow> place s' t = place s t)"
  using assms(1,2)
proof (induction rule: rtranclp_induct)
  case base then show ?case using k by simp
next
  case (step s1 s2)
  then have i: "minv s1" and k1: "knot s1 B"
    and p1: "\<And>t b. waiting_for s t b \<Longrightarrow> b \<in> B \<Longrightarrow> place s1 t = place s t" by auto
  have p2: "place s2 t = place s t" if "waiting_for s t b" "b \<in> B" for t b
    using knot_step [OF i step(2) k1 _ that(2), of t] p1 [OF that] that(1) by (simp add: waiting_for_def)
  have "knot s2 B"
    unfolding knot_def
  proof
    fix b assume "b \<in> B"
    then obtain c where c: "c \<in> B" "waiting_for s (Looper b) c" using k by (auto simp: knot_def)
    then have "waiting_for s2 (Looper b) c" using p2 [OF c(2,1)] by (simp add: waiting_for_def)
    then show "\<exists>c \<in> B. waiting_for s2 (Looper b) c" using c(1) by blast
  qed
  then show ?case using p2 i minv_step step(2) by blast
qed

text \<open>
  C13. Calls between loops can block for good. \<open>call_get\<close> sees whether it is on the thread of
  the loop it calls, and no further: once each loop of a set is in a \<open>call_get\<close> that waits in
  the queue of a loop of that set, then every call that waits for one of them, from whatever
  thread, waits there for ever, however the program goes on.
\<close>

theorem waiting_loops_stay:
  assumes r: "reaches P s" and k: "knot s B" and w: "waiting_for s t b" "b \<in> B"
    and later: "mstep\<^sup>*\<^sup>* s s'"
  shows "waiting_for s' t b \<and> place s' t \<noteq> Answered"
proof -
  have "minv s" using r minv_launch
    by (induction rule: rtranclp_induct) (auto intro: minv_step)
  then have "place s' t = place s t" using knot_steps [OF later _ k] w by blast
  then show ?thesis using w(1) by (auto simp: waiting_for_def)
qed

section \<open>Concrete runs\<close>

lemma runs_to:
  "(case runs ms s of None \<Rightarrow> False | Some s' \<Rightarrow> Q s') \<Longrightarrow> \<exists>s'. mstep\<^sup>*\<^sup>* s s' \<and> Q s'"
  using runs_reaches by (fastforce split: option.splits)

lemma independent_endpoints_race_witness:
  "\<exists>s. reaches (\<lambda>n. [Make_endpoint_new n, Connect n True]) s \<and> data_race (events s) Loop_once \<and>
     data_race (events s) Next_client_id \<and> data_race (events s) Url_parser"
  by (rule independent_endpoints_race [of 0 1 0 1 "\<lambda>n. [Make_endpoint_new n, Connect n True]" True "[]" True "[]"])
    simp_all

text \<open>Two threads in \<open>call_every\<close> of one loop, before the first of them has changed the tickers.\<close>

lemma ticker_race:
  "\<exists>s. reaches (\<lambda>n. if n = 0 then [Make_loop 0] else [Call_every 0 (Fn [])]) s \<and>
     prog s (User 1) = [Write (Tickers 0), Arm 0 (Fn [])] \<and>
     prog s (User 2) = [Write (Tickers 0), Arm 0 (Fn [])]"
  by (rule runs_to [where ms = "replicate 4 (Run (User 0)) @ replicate 2 (Run (User 1)) @
      replicate 2 (Run (User 2))"])
    (simp add: numeral_eq_Suc launch_def emit_def continue_def acts_defs)

lemma only_unguarded_data_races_witness:
  "\<exists>s. reaches (\<lambda>n. if n = 0 then [Make_loop 0] else [Call_every 0 (Fn [])]) s \<and>
     data_race (events s) (Tickers 0) \<and>
     (data_race (events s) Loop_once \<or> Tickers 0 = Url_parser \<or> Tickers 0 = Next_client_id \<or>
      (\<exists>b n o1. Tickers 0 = Tickers b \<and>
         o1 \<in> set (if n = 0 then [Make_loop 0] else [Call_every 0 (Fn [])]) \<and> off_loop b (User n) o1))"
proof -
  let ?P = "\<lambda>n. if n = (0::nat) then [Make_loop 0] else [Call_every 0 (Fn [])]"
  obtain s0 where s0: "reaches ?P s0" "prog s0 (User 1) = [Write (Tickers 0), Arm 0 (Fn [])]"
    "prog s0 (User 2) = [Write (Tickers 0), Arm 0 (Fn [])]"
    using ticker_race by blast
  obtain s where s: "reaches ?P s" "data_race (events s) (Tickers 0)"
    using unguarded_data_races [OF s0(1) _ s0(2,3)] by auto
  then show ?thesis using only_unguarded_data_races [OF s] by blast
qed

text \<open>A job of each loop that calls the other: up to the moment when both are queued.\<close>

definition cross_moves :: "nat \<Rightarrow> move list" where
  "cross_moves b = Dispatch b # replicate 4 (Run (Looper b)) @ Begin b # replicate 6 (Run (Looper b))"

lemma crossed_run:
  "\<exists>s. reaches (\<lambda>n. if n = 0 then [Make_loop 0, Make_loop 1, Call_soon 0 (Fn [Call_get 1 (Fn [])]),
        Call_soon 1 (Fn [Call_get 0 (Fn [])])] else []) s \<and>
     knot s {0, 1} \<and> waiting_for s (Looper 0) 1"
  by (rule runs_to [where ms = "replicate 18 (Run (User 0)) @ cross_moves 0 @ cross_moves 1"])
    (simp add: cross_moves_def numeral_eq_Suc launch_def emit_def continue_def idle_def acts_defs
      process_job_queue_acts_def knot_def waiting_for_def take_calls_def)

lemma waiting_loops_stay_witness:
  "\<exists>s. reaches (\<lambda>n. if n = 0 then [Make_loop 0, Make_loop 1, Call_soon 0 (Fn [Call_get 1 (Fn [])]),
        Call_soon 1 (Fn [Call_get 0 (Fn [])])] else []) s \<and>
     (\<forall>s'. mstep\<^sup>*\<^sup>* s s' \<longrightarrow> waiting_for s' (Looper 0) 1 \<and> place s' (Looper 0) \<noteq> Answered)"
proof -
  obtain s where s: "reaches (\<lambda>n. if n = 0 then [Make_loop 0, Make_loop 1, Call_soon 0 (Fn [Call_get 1 (Fn [])]),
        Call_soon 1 (Fn [Call_get 0 (Fn [])])] else []) s"
    and k: "knot s {0, 1}" and w: "waiting_for s (Looper 0) 1"
    using crossed_run by blast
  show ?thesis using s waiting_loops_stay [OF s k w] by blast
qed

end
