(* ===== verification/Watcher_Threads.thy ===== *)
theory Watcher_Threads
  imports Ticker
begin

text \<open>
  \<open>ev_watcher::start\<close> and \<open>ev_watcher::stop\<close> when several threads call them on one
  watcher (\<open>call_every\<close> gives it to its caller, so any thread may). Each is three atomic
  actions: the load of \<open>_is_running\<close>, the call of libevent, which locks, and the store. An
  interrupted operation has the effect of \<open>watcher_start\<close> or \<open>watcher_stop\<close>; between the
  actions others may run, and the event may fire.
\<close>

section \<open>States and actions\<close>

datatype wpc = Outside | Start_loaded | Start_added | Stop_loaded | Stop_deleted

record 't shared_watcher =
  watcher :: "'t ev_watcher"
  pending :: bool \<comment> \<open>the event is added in libevent\<close>
  wpc_of :: "nat \<Rightarrow> wpc"

definition put_pc :: "nat \<Rightarrow> wpc \<Rightarrow> 't shared_watcher \<Rightarrow> 't shared_watcher" where
  "put_pc t p s = s\<lparr>wpc_of := (wpc_of s)(t := p)\<rparr>"

text \<open>\<open>A t\<close>: the thread \<open>t\<close> calls \<open>start\<close>; \<open>Z t\<close>: it calls \<open>stop\<close>.\<close>

inductive wstep :: "(nat \<Rightarrow> bool) \<Rightarrow> (nat \<Rightarrow> bool) \<Rightarrow> 't shared_watcher \<Rightarrow> 't shared_watcher \<Rightarrow> bool"
  for A Z where
  start_load: "A t \<Longrightarrow> wpc_of s t = Outside \<Longrightarrow>
    wstep A Z s (put_pc t (if is_running (watcher s) then Outside else Start_loaded) s)"
| start_add: "wpc_of s t = Start_loaded \<Longrightarrow>
    wstep A Z s (put_pc t (if rc \<noteq> 0 then Outside else Start_added)
      (s\<lparr>watcher := log_call (Ev_add (w_interval (watcher s))) (watcher s),
         pending := pending s \<or> rc = (0 :: int)\<rparr>))"
| start_store: "wpc_of s t = Start_added \<Longrightarrow>
    wstep A Z s (put_pc t Outside (s\<lparr>watcher := (watcher s)\<lparr>is_running := True\<rparr>\<rparr>))"
| stop_load: "Z t \<Longrightarrow> wpc_of s t = Outside \<Longrightarrow>
    wstep A Z s (put_pc t (if is_running (watcher s) then Stop_loaded else Outside) s)"
| stop_del: "wpc_of s t = Stop_loaded \<Longrightarrow>
    wstep A Z s (put_pc t (if rc \<noteq> 0 then Outside else Stop_deleted)
      (s\<lparr>watcher := log_call Ev_del (watcher s), pending := pending s \<and> rc \<noteq> (0 :: int)\<rparr>))"
| stop_store: "wpc_of s t = Stop_deleted \<Longrightarrow>
    wstep A Z s (put_pc t Outside (s\<lparr>watcher := (watcher s)\<lparr>is_running := False\<rparr>\<rparr>))"
| fire: "pending s \<Longrightarrow> wstep A Z s (s\<lparr>pending := False\<rparr>)"

definition made :: "'t ev_watcher \<Rightarrow> 't shared_watcher" where
  "made w = \<lparr>watcher = w, pending = False, wpc_of = (\<lambda>_. Outside)\<rparr>"

abbreviation wreach where "wreach A Z w \<equiv> (wstep A Z)\<^sup>*\<^sup>* (made w)"

lemma put_pc_simps [simp]:
  "watcher (put_pc t p s) = watcher s" "pending (put_pc t p s) = pending s"
  "wpc_of (put_pc t p s) = (wpc_of s)(t := p)"
  by (simp_all add: put_pc_def)

section \<open>Alone, the operations are those of \<open>Ticker\<close>\<close>

lemma start_alone:
  assumes "A t" and o: "wpc_of s t = Outside"
  shows "\<exists>s'. (wstep A Z)\<^sup>*\<^sup>* s s' \<and> watcher s' = snd (watcher_start rc (watcher s)) \<and>
    wpc_of s' = wpc_of s \<and>
    pending s' = (pending s \<or> \<not> is_running (watcher s) \<and> rc = 0)"
proof (cases "is_running (watcher s)")
  case True
  then show ?thesis by (auto simp: watcher_start_def)
next
  case False
  let ?s1 = "put_pc t Start_loaded s"
  have 1: "wstep A Z s ?s1" using start_load [of A t s Z] assms False by simp
  let ?s2 = "put_pc t (if rc \<noteq> 0 then Outside else Start_added)
    (?s1\<lparr>watcher := log_call (Ev_add (w_interval (watcher s))) (watcher s), pending := pending s \<or> rc = 0\<rparr>)"
  have 2: "wstep A Z ?s1 ?s2" using start_add [of ?s1 t A Z rc] by simp
  show ?thesis
  proof (cases "rc = 0")
    case True
    let ?s3 = "put_pc t Outside (?s2\<lparr>watcher := (watcher ?s2)\<lparr>is_running := True\<rparr>\<rparr>)"
    have 3: "wstep A Z ?s2 ?s3" using start_store [of ?s2 t A Z] True by simp
    have "(wstep A Z)\<^sup>*\<^sup>* s ?s3" 
      by (rule converse_rtranclp_into_rtranclp [OF 1 converse_rtranclp_into_rtranclp
        [OF 2 r_into_rtranclp [of "wstep A Z", OF 3]]])
    then show ?thesis using False True o
      by (intro exI [of _ ?s3]) (auto simp: watcher_start_def Let_def)
  next
    case False
    have "(wstep A Z)\<^sup>*\<^sup>* s ?s2" 
      by (rule converse_rtranclp_into_rtranclp [OF 1 r_into_rtranclp [of "wstep A Z", OF 2]])
    then show ?thesis using False \<open>\<not> is_running (watcher s)\<close> o
      by (intro exI [of _ ?s2]) (auto simp: watcher_start_def Let_def)
  qed
qed

section \<open>One starter and one stopper\<close>

definition wt_inv :: "(nat \<Rightarrow> bool) \<Rightarrow> (nat \<Rightarrow> bool) \<Rightarrow> 't shared_watcher \<Rightarrow> bool" where
  "wt_inv A Z s \<longleftrightarrow>
     (\<forall>t. wpc_of s t \<in> {Start_loaded, Start_added} \<longrightarrow> A t \<and> \<not> is_running (watcher s)) \<and>
     (\<forall>t. wpc_of s t \<in> {Stop_loaded, Stop_deleted} \<longrightarrow> Z t \<and> is_running (watcher s)) \<and>
     (\<forall>t. wpc_of s t = Stop_deleted \<longrightarrow> \<not> pending s) \<and>
     (pending s \<longrightarrow> is_running (watcher s) \<or> (\<exists>t. wpc_of s t = Start_added))"

lemma added_other:
  "wt_inv A Z s \<Longrightarrow> pending s \<Longrightarrow> \<not> is_running (watcher s) \<Longrightarrow> wpc_of s t \<noteq> Start_added \<Longrightarrow>
   \<exists>u. u \<noteq> t \<and> wpc_of s u = Start_added"
  unfolding wt_inv_def by metis

lemma wt_inv_step:
  assumes "wstep A Z s s'" and i: "wt_inv A Z s"
    and A: "\<And>t u. A t \<Longrightarrow> A u \<Longrightarrow> t = u" and Z: "\<And>t u. Z t \<Longrightarrow> Z u \<Longrightarrow> t = u"
  shows "wt_inv A Z s'"
  using assms(1) i
proof cases
  case (start_load t)
  then show ?thesis using i added_other [OF i, of t] start_load by (auto simp: wt_inv_def split: if_splits)
next
  case (start_add t rc)
  then have "A t" "\<not> is_running (watcher s)" using i by (auto simp: wt_inv_def)
  then show ?thesis using i added_other [OF i, of t] start_add by (auto simp: wt_inv_def split: if_splits)
next
  case (start_store t)
  then have "A t" using i by (auto simp: wt_inv_def)
  then have "wpc_of s u \<notin> {Start_loaded, Start_added}" if "u \<noteq> t" for u
    using i A that by (auto simp: wt_inv_def)
  then show ?thesis using i start_store by (auto simp: wt_inv_def split: if_splits)
next
  case (stop_load t)
  then show ?thesis using i added_other [OF i, of t] stop_load by (auto simp: wt_inv_def split: if_splits)
next
  case (stop_del t rc)
  then show ?thesis using i added_other [OF i, of t] stop_del by (auto simp: wt_inv_def split: if_splits)
next
  case (stop_store t)
  then have "Z t" "\<not> pending s" using i by (auto simp: wt_inv_def)
  then have "wpc_of s u \<notin> {Stop_loaded, Stop_deleted}" if "u \<noteq> t" for u
    using i Z that by (auto simp: wt_inv_def)
  then show ?thesis using i stop_store \<open>\<not> pending s\<close> by (auto simp: wt_inv_def split: if_splits)
next
  case fire
  then show ?thesis using i by (auto simp: wt_inv_def)
qed

lemma wreach_inv:
  assumes "wreach A Z w s" and w: "\<not> is_running w"
    and A: "\<And>t u. A t \<Longrightarrow> A u \<Longrightarrow> t = u" and Z: "\<And>t u. Z t \<Longrightarrow> Z u \<Longrightarrow> t = u"
  shows "wt_inv A Z s"
  using assms(1)
proof (induction rule: rtranclp_induct)
  case base show ?case by (simp add: wt_inv_def made_def)
next
  case (step s s') then show ?case using wt_inv_step A Z by blast
qed

text \<open>
  An event is lost when everybody has returned, the watcher says it is stopped, and the
  event is still added: nobody can stop it any more.
\<close>

definition lost_event :: "'t shared_watcher \<Rightarrow> bool" where
  "lost_event s \<longleftrightarrow> (\<forall>t. wpc_of s t = Outside) \<and> pending s \<and> \<not> is_running (watcher s)"

text \<open>
  C9. \<open>start\<close> and \<open>stop\<close> check a flag and act later, which is safe up to one thread that
  starts a watcher and one that stops it (they may be the same): however their actions and
  the firing of the event interleave, whenever no call is under way an event that is added
  belongs to a watcher that says it runs.
\<close>

theorem one_starter_keeps_event:
  assumes "wreach A Z w s" and "\<not> is_running w"
    and "\<And>t u. A t \<Longrightarrow> A u \<Longrightarrow> t = u" and "\<And>t u. Z t \<Longrightarrow> Z u \<Longrightarrow> t = u"
  shows "\<not> lost_event s"
  using wreach_inv [OF assms] by (auto simp: wt_inv_def lost_event_def)

lemma wsteps_Cons: "(wstep A Z)\<^sup>*\<^sup>* s1 s2 \<Longrightarrow> wstep A Z s2 s3 \<Longrightarrow> (wstep A Z)\<^sup>*\<^sup>* s1 s3"
  by (rule rtranclp.rtrancl_into_rtrancl)

text \<open>The states of the run by which \<open>t\<close> and \<open>u\<close> lose it, at \<open>pt\<close> and \<open>pu\<close> of their calls.\<close>

definition two_at ::
  "nat \<Rightarrow> nat \<Rightarrow> 't ev_watcher \<Rightarrow> bool \<Rightarrow> wpc \<Rightarrow> wpc \<Rightarrow> 't shared_watcher" where
  "two_at t u w p pt pu = \<lparr>watcher = w, pending = p,
     wpc_of = (\<lambda>x. if x = t then pt else if x = u then pu else Outside)\<rparr>"

lemma two_at_simps:
  assumes "t \<noteq> u"
  shows "put_pc t q (two_at t u v p pt pu) = two_at t u v p q pu"
    and "put_pc u q (two_at t u v p pt pu) = two_at t u v p pt q"
    and "(two_at t u v p pt pu)\<lparr>watcher := v'\<rparr> = two_at t u v' p pt pu"
    and "(two_at t u v p pt pu)\<lparr>pending := p'\<rparr> = two_at t u v p' pt pu"
    and "watcher (two_at t u v p pt pu) = v" and "pending (two_at t u v p pt pu) = p"
    and "wpc_of (two_at t u v p pt pu) t = pt" and "wpc_of (two_at t u v p pt pu) u = pu"
  using assms by (auto simp: two_at_def put_pc_def fun_eq_iff)

text \<open>Both find the watcher stopped; \<open>u\<close> starts it and is about to have stopped it again.\<close>

lemma losing_first:
  assumes w: "\<not> is_running w" and tu: "t \<noteq> u" and A: "A t" "A u" and Z: "Z u"
  shows "wreach A Z w (two_at t u (log_call Ev_del ((log_call (Ev_add (w_interval w)) w)\<lparr>is_running := True\<rparr>))
    False Start_loaded Stop_deleted)"
proof -
  let ?r = "wreach A Z w"
  let ?w1 = "log_call (Ev_add (w_interval w)) w"
  note s = two_at_simps [OF tu]
  have "made w = two_at t u w False Outside Outside" by (simp add: made_def two_at_def fun_eq_iff)
  then have "?r (two_at t u w False Outside Outside)" by simp
  then have "?r (two_at t u w False Start_loaded Outside)"
    using start_load [of A t "two_at t u w False Outside Outside" Z] A(1) w
    by (auto simp: s intro: wsteps_Cons)
  then have "?r (two_at t u w False Start_loaded Start_loaded)"
    using start_load [of A u "two_at t u w False Start_loaded Outside" Z] A(2) w
    by (auto simp: s intro: wsteps_Cons)
  then have "?r (two_at t u ?w1 True Start_loaded Start_added)"
    using start_add [of "two_at t u w False Start_loaded Start_loaded" u A Z 0]
    by (auto simp: s intro: wsteps_Cons)
  then have "?r (two_at t u (?w1\<lparr>is_running := True\<rparr>) True Start_loaded Outside)"
    using start_store [of "two_at t u ?w1 True Start_loaded Start_added" u A Z]
    by (auto simp: s intro: wsteps_Cons)
  then have "?r (two_at t u (?w1\<lparr>is_running := True\<rparr>) True Start_loaded Stop_loaded)"
    using stop_load [of Z u "two_at t u (?w1\<lparr>is_running := True\<rparr>) True Start_loaded Outside" A] Z
    by (auto simp: s intro: wsteps_Cons)
  then show ?thesis
    using stop_del [of "two_at t u (?w1\<lparr>is_running := True\<rparr>) True Start_loaded Stop_loaded" u A Z 0]
    by (auto simp: s intro: wsteps_Cons)
qed

text \<open>Then \<open>t\<close> adds the event and says so, before \<open>u\<close> says that it is stopped.\<close>

lemma losing_second:
  assumes tu: "t \<noteq> u" and r: "wreach A Z w0 (two_at t u w False Start_loaded Stop_deleted)"
  shows "wreach A Z w0 (two_at t u ((log_call (Ev_add (w_interval w)) w)\<lparr>is_running := False\<rparr>)
    True Outside Outside)"
proof -
  let ?r = "wreach A Z w0"
  let ?w1 = "log_call (Ev_add (w_interval w)) w"
  note s = two_at_simps [OF tu]
  have "?r (two_at t u ?w1 True Start_added Stop_deleted)"
    using r start_add [of "two_at t u w False Start_loaded Stop_deleted" t A Z 0]
    by (auto simp: s intro: wsteps_Cons)
  then have "?r (two_at t u (?w1\<lparr>is_running := True\<rparr>) True Outside Stop_deleted)"
    using start_store [of "two_at t u ?w1 True Start_added Stop_deleted" t A Z]
    by (auto simp: s intro: wsteps_Cons)
  then show ?thesis
    using stop_store [of "two_at t u (?w1\<lparr>is_running := True\<rparr>) True Outside Stop_deleted" u A Z]
    by (auto simp: s intro: wsteps_Cons)
qed

text \<open>
  A second thread that starts is too many: then there is a run that loses the event, after
  which every \<open>stop\<close> answers false without touching it.
\<close>

theorem two_starters_lose_event:
  assumes "\<not> is_running w" and "t \<noteq> u" and "A t" "A u" and "Z u"
  shows "\<exists>s. wreach A Z w s \<and> lost_event s \<and>
    (\<forall>rc. watcher_stop rc (watcher s) = (False, watcher s))"
  using losing_second [OF assms(2) losing_first [where A = A and Z = Z, OF assms]]
  by (intro exI conjI, assumption) (auto simp: lost_event_def two_at_def watcher_stop_def)

lemma one_starter_keeps_event_witness:
  "\<exists>s. wreach (\<lambda>t. t = 0) (\<lambda>t. t = 1) (watcher_new :: unit ev_watcher) s \<and> pending s \<and> \<not> lost_event s"
proof -
  obtain s :: "unit shared_watcher"
    where s: "wreach (\<lambda>t. t = 0) (\<lambda>t. t = 1) watcher_new s" "pending s"
    using start_alone [of "\<lambda>t. t = 0" 0 "made watcher_new" "\<lambda>t. t = 1" 0]
    by (auto simp: made_def watcher_new_def)
  have "\<not> lost_event s" by (rule one_starter_keeps_event [OF s(1)]) (simp_all add: watcher_new_def)
  then show ?thesis using s by blast
qed

end
