(* ===== verification/Feeding.thy ===== *)
theory Feeding
  imports Wire
begin

text \<open>
  What nghttp2 is fed over the life of a connection: \<open>read_session_data\<close> hands it the
  input buffer of the bufferevent, and nothing takes bytes out of that buffer.
\<close>

section \<open>A run of a connection\<close>

text \<open>One callback of libevent after the other, each with its own answers of the libraries.\<close>

fun session_run :: "tid \<Rightarrow> (('u, 'z) session_lib \<times> wire) list \<Rightarrow> session \<times> ('u, 'z) env \<Rightarrow> session \<times> ('u, 'z) env" where
  "session_run t [] se = se"
| "session_run t ((lib, io) # ios) se = session_run t ios (snd (session_io lib t io se))"

fun arrivals :: "('l \<times> wire) list \<Rightarrow> byte list list" where
  "arrivals [] = []"
| "arrivals ((lib, Arrived d) # ios) = d # arrivals ios"
| "arrivals (_ # ios) = arrivals ios"

text \<open>The inputs of the calls of \<open>nghttp2_session_mem_recv2\<close>, in order.\<close>

fun fed :: "lib_call list \<Rightarrow> byte list list" where
  "fed [] = []"
| "fed (Session_mem_recv bs # cs) = bs # fed cs"
| "fed (_ # cs) = fed cs"

lemma fed_append [simp]: "fed (cs @ ds) = fed cs @ fed ds"
  by (induction cs rule: fed.induct) simp_all

section \<open>What feeding does not depend on\<close>

definition fed_inv :: "tid \<Rightarrow> byte list \<Rightarrow> byte list list \<Rightarrow> session \<times> ('u, 'z) env \<Rightarrow> bool" where
  "fed_inv t I F se \<longleftrightarrow>
     loop_thread_id (snd se) = t \<and> sess_input (fst se) = I \<and> fed (lib_calls (snd se)) = F"

definition same_feed :: "('u, 'z) env \<Rightarrow> ('u, 'z) env \<Rightarrow> bool" where
  "same_feed e e' \<longleftrightarrow> loop_thread_id e' = loop_thread_id e \<and> fed (lib_calls e') = fed (lib_calls e)"

lemma keeps_fed_basic [keeps_intros]:
  "keeps (fed_inv t I F) this_session" "keeps (fed_inv t I F) (of_result r)"
  "keeps (fed_inv t I F) m \<Longrightarrow> keeps (fed_inv t I F) (in_loop t' m)"
  "keeps (fed_inv t I F) (throw_about lib a err)"
  "keeps (fed_inv t I F) (upd_session (\<lambda>s. s\<lparr>sess_output := f1 s\<rparr>))"
  "keeps (fed_inv t I F) (upd_session (\<lambda>s. s\<lparr>sess_nghttp2 := f2 s\<rparr>))"
  "keeps (fed_inv t I F) (upd_session (\<lambda>s. s\<lparr>sess_path := f3 s\<rparr>))"
  "keeps (fed_inv t I F) (upd_session (\<lambda>s. s\<lparr>sess_streams := f4 s\<rparr>))"
  "keeps (fed_inv t I F) (upd_session (\<lambda>s. s\<lparr>sess_user_data := f5 s\<rparr>))"
  by (auto simp: keeps_def this_session_def of_result_def in_loop_def upd_session_def fed_inv_def)

lemma keeps_fed_env [keeps_intros]:
  "keeps (fed_inv t I F) (upd_env (note_call Session_send))"
  "keeps (fed_inv t I F) (upd_env (note_call (Submit_settings ss)))"
  "keeps (fed_inv t I F) (upd_env (note_call Terminate_session))"
  "keeps (fed_inv t I F) (upd_env (call_soon j))"
  by (auto simp: keeps_def upd_env_def fed_inv_def note_call_def call_soon_def)

lemma keeps_fed_close [keeps_intros]: "keeps (fed_inv t I F) (close_session t')"
  unfolding close_session_def inbound_close_session_def outbound_close_session_def by (intro keeps_intros)

lemma keeps_fed_on_stream:
  fixes f :: "stream \<Rightarrow> ('u, 'z) env \<Rightarrow> int result \<times> stream \<times> ('u, 'z) env"
  assumes "keeps (fed_inv t I F) absent" and "\<And>st e rv st' e'. f st e = (rv, st', e') \<Longrightarrow> same_feed e e'"
  shows "keeps (fed_inv t I F) (on_stream k absent f)"
proof (rule keepsI)
  fix se :: "session \<times> ('u, 'z) env"
  assume h: "fed_inv t I F se"
  show "fed_inv t I F (snd (on_stream k absent f se))"
  proof (cases "sess_streams (fst se) k")
    case None
    then show ?thesis using assms(1) h by (cases se) (simp add: on_stream_def keeps_def)
  next
    case (Some st)
    obtain rv st' e' where r: "f st (snd se) = (rv, st', e')" by (metis surj_pair)
    then show ?thesis
      using Some h assms(2) [OF r] by (simp add: on_stream_def fed_inv_def same_feed_def)
  qed
qed

lemma keeps_fed_erase [keeps_intros]: "keeps (fed_inv t I F) (erase_stream k)"
  by (auto simp: keeps_def erase_stream_def fed_inv_def stream_d_def frame_simps split: option.split)

lemma recv_frame_feed: "recv_frame be html lib st e = (rv, st', e') \<Longrightarrow> same_feed e e'"
  by (auto simp: recv_frame_eq send_error_eq Let_def same_feed_def frame_simps
      split: option.splits if_splits)

lemma total_recv_feed: "total_op (recv_frame be html lib) st e = (rv, st', e') \<Longrightarrow> same_feed e e'"
  by (auto simp: total_op_def split: prod.splits intro: recv_frame_feed)

lemma total_quiet_feed:
  "total_op (recv_header h) st e = (rv, st', e') \<Longrightarrow> same_feed e e'"
  "total_op (recv_data d) st e = (rv, st', e') \<Longrightarrow> same_feed e e'"
  by (auto simp: total_op_def recv_header_def recv_data_def same_feed_def)

lemma recv_path_feed: "recv_path_header ada path st e = (rv, st', e') \<Longrightarrow> same_feed e e'"
  by (auto simp: recv_path_header_def same_feed_def split: prod.splits sum.splits)

section \<open>Every callback leaves it alone\<close>

lemma keeps_fed_inbound: "keeps (fed_inv t I F) (on_event (inbound_hooks lib t') ev)"
  by (cases ev)
    (simp_all only: inbound_hooks_def on_event.simps hooks.select_convs inbound_begin_headers_hook_def
      inbound_recv_header_hook_def inbound_frame_recv_hook_def inbound_stream_close_hook_def Let_def,
     (intro keeps_intros keeps_fed_on_stream; (assumption | erule recv_path_feed total_recv_feed))+)

lemma keeps_fed_outbound: "keeps (fed_inv t I F) (on_event (outbound_hooks lib t') ev)"
  by (cases ev)
    (simp_all only: outbound_hooks_def on_event.simps hooks.select_convs outbound_begin_headers_hook_def
      outbound_recv_header_hook_def outbound_frame_recv_hook_def outbound_stream_close_hook_def
      outbound_close_session_def Let_def,
     (intro keeps_intros keeps_fed_on_stream; (assumption | erule total_quiet_feed))+)

lemma keeps_fed_callback: "keeps (fed_inv t I F) (on_callback lib t' c)"
proof (cases c)
  case (Cb_event ev)
  have "keeps (fed_inv t I F) (on_event (virtual_hooks lib t' s) ev)" for s
    by (cases "sess_is_outbound s") (simp_all add: virtual_hooks_def keeps_fed_inbound keeps_fed_outbound)
  then show ?thesis unfolding Cb_event on_callback.simps by (intro keeps_intros)
next
  case (Cb_send d)
  then show ?thesis unfolding Cb_send on_callback.simps send_callback_def send_hook_def by (intro keeps_intros)
next
  case (Cb_chunk i d)
  then show ?thesis
    unfolding Cb_chunk on_callback.simps on_data_chunk_recv_callback_def
    by (intro keeps_intros keeps_fed_on_stream) (rule total_quiet_feed)
qed

lemma keeps_fed_driven:
  assumes "driven lib t' m"
  shows "keeps (fed_inv t I F) m"
proof (rule keeps_live_driven [OF assms])
  show "keeps (fed_inv t I F) (run_callbacks lib t' cs)" for cs
    by (induction cs) (simp_all only: run_callbacks.simps, (intro keeps_intros keeps_fed_callback; assumption)+)
qed

lemma keeps_fed_send:
  assumes "wired lib t'"
  shows "keeps (fed_inv t I F) (send_session_data lib t')"
  using keeps_fed_driven assms unfolding wired_def send_session_data_def by (blast intro: keeps_intros)

lemma keeps_fed_other:
  assumes "wired lib t'" and "\<And>d. io \<noteq> Arrived d"
  shows "keeps (fed_inv t I F) (session_io lib t' io)"
proof (cases io)
  case (Arrived d)
  then show ?thesis using assms(2) by blast
next
  case (Written n)
  then show ?thesis
    unfolding Written session_io.simps write_cb_def write_session_data_def
    by (intro keeps_intros keeps_fed_send [OF assms(1)])
next
  case (Happened evs)
  then show ?thesis
    unfolding Happened session_io.simps event_cb_def config_send_initial_def outbound_initialize_session_def
      outbound_send_initial_def inbound_initialize_session_def inbound_send_initial_def submit_initial_def
      learn_local_def
    by (intro keeps_intros keeps_fed_send [OF assms(1)])
qed

text \<open>A delivery is fed with all that is in the buffer, and leaves it there.\<close>

lemma fed_delivery:
  assumes w: "wired lib t" and i: "fed_inv t I F se"
  shows "fed_inv t (I @ d) (F @ [I @ d]) (snd (session_io lib t (Arrived d) se))"
proof -
  obtain s e where se: "se = (s, e)" by fastforce
  let ?e = "note_call (Session_mem_recv (I @ d)) e" and ?s = "s\<lparr>sess_input := I @ d\<rparr>"
  let ?rest = "bindc (mem_recv lib (I @ d)) (\<lambda>recv_len.
      if recv_len < 0 then close_session t else send_session_data lib t)"
  have "loop_thread_id e = t" "sess_input s = I" "fed (lib_calls e) = F"
    using i by (simp_all add: se fed_inv_def)
  then have "session_io lib t (Arrived d) se = ?rest (?s, ?e)" and j: "fed_inv t (I @ d) (F @ [I @ d]) (?s, ?e)"
    by (simp_all add: se deliver_def read_cb_def read_session_data_def thenc_def bindc_def upd_session_def
        upd_env_def this_session_def in_loop_def in_event_loop_def fed_inv_def frame_simps Let_def)
  moreover have "driven lib t (mem_recv lib (I @ d))" using w by (simp add: wired_def)
  then have "keeps (fed_inv t (I @ d) (F @ [I @ d])) ?rest"
    by (intro keeps_intros keeps_fed_send [OF w] keeps_fed_driven)
  ultimately show ?thesis unfolding keeps_def by metis
qed

section \<open>Properties\<close>

text \<open>
  C26. Input that was consumed is fed again: whatever nghttp2 answers and whichever callbacks
  it makes, and whatever else happens to the connection, each arrival of bytes hands nghttp2
  everything that has arrived since the connection began, as if all of it were new; the
  buffer is never drained and holds all of it in the end.
\<close>

theorem input_fed_again:
  assumes "\<forall>(lib, io) \<in> set ios. wired lib t" and "in_event_loop t e"
  shows "case session_run t ios (s, e) of (s', e') \<Rightarrow>
     sess_input s' = sess_input s @ concat (arrivals ios) \<and>
     fed (lib_calls e') = fed (lib_calls e) @
       map (\<lambda>k. sess_input s @ concat (take (Suc k) (arrivals ios))) [0..<length (arrivals ios)]"
proof -
  have "fed_inv t I F se \<Longrightarrow> \<forall>(lib, io) \<in> set ios. wired lib t \<Longrightarrow>
      fed_inv t (I @ concat (arrivals ios))
        (F @ map (\<lambda>k. I @ concat (take (Suc k) (arrivals ios))) [0..<length (arrivals ios)])
        (session_run t ios se)" for I F and se :: "session \<times> ('a, 'b) env"
  proof (induction ios arbitrary: I F se)
    case (Cons a ios)
    obtain lib io where a: "a = (lib, io)" by fastforce
    have w: "wired lib t" using Cons.prems(2) by (simp add: a)
    show ?case
    proof (cases io)
      case (Arrived d)
      have "fed_inv t ((I @ d) @ concat (arrivals ios))
          ((F @ [I @ d]) @ map (\<lambda>k. (I @ d) @ concat (take (Suc k) (arrivals ios))) [0..<length (arrivals ios)])
          (session_run t ios (snd (session_io lib t io se)))"
        unfolding Arrived using Cons.prems(2) by (intro Cons.IH fed_delivery [OF w Cons.prems(1)]) simp
      then show ?thesis
        by (simp add: a Arrived upt_conv_Cons map_Suc_upt [symmetric] comp_def del: session_io.simps upt_Suc)
    next
      case (Written n)
      have "fed_inv t I F (snd (session_io lib t io se))"
        using keeps_fed_other [OF w, of io t I F] Cons.prems(1) Written unfolding keeps_def by blast
      from Cons.IH [OF this] show ?thesis using Cons.prems(2) by (simp add: a Written del: session_io.simps)
    next
      case (Happened n)
      have "fed_inv t I F (snd (session_io lib t io se))"
        using keeps_fed_other [OF w, of io t I F] Cons.prems(1) Happened unfolding keeps_def by blast
      from Cons.IH [OF this] show ?thesis using Cons.prems(2) by (simp add: a Happened del: session_io.simps)
    qed
  qed simp
  from this [OF _ assms(1), of "sess_input s" "fed (lib_calls e)" "(s, e)"] assms(2) show ?thesis
    by (auto simp: fed_inv_def in_event_loop_def split: prod.split)
qed

text \<open>nghttp2 takes the first bytes, and the second time it finds that they make no sense there.\<close>

theorem input_fed_again_witness:
  "\<exists>lib lib' s' e'. wired lib 1 \<and> wired lib' 1 \<and>
     session_run 1 [(lib, Arrived [1, 2]), (lib', Arrived [3])] toy_state = (s', e') \<and>
     sess_input s' = [1, 2, 3] \<and> fed (lib_calls e') = [[1, 2], [1, 2, 3]]"
proof -
  let ?lib = "toy_session_lib [] :: (string \<times> string, unit) session_lib"
  let ?lib' = "?lib\<lparr>mem_recv := (\<lambda>bs se. (Inr (- 1), se))\<rparr>"
  let ?ios = "[(?lib, Arrived [1, 2]), (?lib', Arrived [3])]"
  have r: "driven l t (\<lambda>se. (Inr rv, se))" for l :: "(string \<times> string, unit) session_lib" and t rv
    unfolding driven_def by (intro allI exI [of _ "[]"] exI [of _ rv]) (simp add: bindc_def)
  have "mem_recv ?lib bs = (\<lambda>se. (Inr (int (length bs)), se))" "session_send ?lib = (\<lambda>se. (Inr 0, se))" for bs
    by (simp_all add: toy_session_lib_def)
  then have w: "wired ?lib 1" "wired ?lib' 1" by (simp_all add: wired_def r)
  obtain s' e' where run: "session_run 1 ?ios toy_state = (s', e')" by fastforce
  have t: "in_event_loop 1 (toy_env :: (string \<times> string, unit) env)"
    using toy_unpathed by (simp add: unpathed_inv_def inbound_inv_def)
  have "lib_calls (toy_env :: (string \<times> string, unit) env) = []" "sess_input toy_session = []"
    by (simp_all add: toy_env_def event_loop.defs io_env.defs toy_session_def session_new_def)
  then have "sess_input s' = [1, 2, 3] \<and> fed (lib_calls e') = [[1, 2], [1, 2, 3]]"
    using input_fed_again [of ?ios 1 toy_env toy_session] run t w by simp
  then show ?thesis using run w by blast
qed

end
