(* ===== verification/Spec2Isabelle.thy ===== *)
theory Spec2Isabelle
  imports Teardown Handles Reports Replies Connections Timers Failures Socket_Names Log_Registry Printer_Views Accessors
    Race_Props Watcher_Threads Feeding
begin

text \<open>
  wshttp: an HTTP/2 server and client over TLS on libevent, OpenSSL, nghttp2, ada and
  spdlog. This development models the library under \<open>include/wshttp\<close> and \<open>src\<close>;
  the five packages are parameters of the model (records of functions and return
  codes), with what a theorem relies on as a hypothesis that its witness instantiates.

  How the program works. An \<open>endpoint\<close> owns an event loop thread (or shares it). All
  work on network objects happens on that thread: other threads queue a job and, with
  \<open>call_get\<close>, block until it has run. \<open>listen\<close> makes a \<open>listener\<close> for a port;
  a connection it accepts becomes an \<open>inbound_session\<close>, kept in the listener's map
  under the remote address. \<open>connect\<close> parses a url, makes a \<open>node\<close> for its host and
  one \<open>outbound_session\<close>. A session feeds the bytes libevent delivers to nghttp2, which
  calls back into its hooks; an inbound session makes a \<open>stream\<close> per request and the
  stream answers with a file, or with an error page, or resets. Sessions and
  listeners are closed by jobs, queued for the loop.

  \<^bold>\<open>Theories, from the bottom up.\<close>

  \<^item> Prelude: machine integers (\<open>byte\<close>, \<open>u16\<close>, \<open>u32\<close>, \<open>u64\<close>), exceptions as the datatype \<open>exn\<close>,
    results as sums, the small state-and-exception combinators (\<open>bindc\<close>, \<open>thenc\<close>,
    \<open>guardc\<close>) that the code's sequences of checks are written in, what it means that a
    computation keeps an invariant (\<open>keeps\<close>, with the collection \<open>keeps_intros\<close>).
  \<^item> Encoding (\<open>encoding.hpp\<close>): byte order at three widths; the locale
    \<open>network_order\<close> says what a conversion promises and is interpreted for each width.
  \<^item> Concepts (\<open>concepts.hpp\<close>): the constraints on template arguments as predicates.
  \<^item> Spans (\<open>types.hpp\<close>): span comparison and the string literals, whose array keeps
    the terminating NUL of the C string. Much of what follows depends on that byte.
  \<^item> Utils (\<open>utils.hpp\<close>, \<open>utils.cpp\<close>, parts of \<open>internal.hpp\<close>), Buffer_Printer
    with Printer_Views, its constructors (\<open>internal.hpp\<close>), Logger, Log_Calls and
    Log_Registry, the life of loggers (\<open>format.hpp\<close>, \<open>format.cpp\<close>).
  \<^item> Address (\<open>address.hpp\<close>, \<open>address.cpp\<close>): IPv4, IPv6, the variant with its cached
    flag, orders and hashes; Socket_Names: the bytes the system writes for a socket's
    name and how they are read. Parser (\<open>parser.cpp\<close>, the struct \<open>uri\<close>): the shared
    parser as a state, every read passing through its three outcomes.
  \<^item> Request (\<open>request.hpp\<close>, \<open>request.cpp\<close>): header lists with their cyclic index.
  \<^item> Ticker and Loop (\<open>loop.hpp\<close>, \<open>loop.cpp\<close>): event watchers with a log of the calls
    made to libevent; the loop's state as the record \<open>event_loop\<close>, which later records
    extend; its jobs are a type parameter. The locale \<open>queued_jobs\<close> states what jobs
    must keep for the processing to be first in, first out. Timers runs both on a clock,
    with libevent's timers as documented (\<open>timed_step\<close>).
  \<^item> Loop_Setup (\<open>loop.cpp\<close>): construction of a loop, the part done once per process,
    libevent's log callback. Owners (\<open>loop.hpp\<close>): the shared pointers whose last owner
    leaves the destruction to the loop (\<open>make_shared\<close>, \<open>loop_deleter\<close>), with the
    transition system \<open>own_step\<close>.
  \<^item> Loop_Threads: \<open>call_get\<close> among any number of threads, one rule per atomic action.
    Watcher_Threads: a ticker that several threads start and stop.
  \<^item> Happens_Before: executions, happens-before and data races as C++ defines them, an exact
    scan for races, and the locale \<open>guarded\<close>, which says what a discipline must keep for a
    location never to race. Data_Races: the public interface, with the construction of loops
    and endpoints, as accesses to shared memory and synchronisation, and the machine that
    runs it on any number of threads and loops (\<open>loop.hpp\<close>, \<open>loop.cpp\<close>, \<open>endpoint.hpp\<close>,
    \<open>endpoint.cpp\<close>, \<open>parser.cpp\<close>). Race_Freedom: one interpretation of
    \<open>guarded\<close> for each discipline the code follows. Race_Props: what follows.
  \<^item> Context (\<open>context.hpp\<close>, \<open>context.cpp\<close>): TLS contexts, built by a sequence of checks.
  \<^item> Stream (\<open>stream.hpp\<close>, \<open>stream.cpp\<close>): the reply to a request. \<open>io_env\<close> extends the
    loop with open descriptors, the calls made to nghttp2 and the url parser.
  \<^item> Session (\<open>session.hpp\<close>, \<open>session.cpp\<close>): sessions of both kinds, from construction to
    destruction. Session_Hooks: the locale \<open>session_hooks\<close>, the contract of the four
    hooks nghttp2 calls, with three interpretations (inbound sessions, inbound
    sessions fed from the wire, outbound sessions). Session_Data: the bytes in and out.
    Handles (\<open>types.hpp\<close>, \<open>session.hpp\<close>): the C objects a session holds, their deleters.
    Wire: the callbacks nghttp2 makes while it is driven, the traffic of a connection
    (\<open>session_io\<close>), and the invariant \<open>live_inv\<close> that all of it keeps. Feeding: what
    nghttp2 is fed over the life of a connection (\<open>session_run\<close>).
  \<^item> Registry: the maps of shared pointers, an association list whose entries may be null;
    the locale \<open>keyed_owner\<close> and its interpretation.
  \<^item> World (\<open>listener.cpp\<close>, \<open>node.cpp\<close>): all objects of a running program, named by
    numbers, owned through registries; destroying an owner destroys what it owns.
    Endpoint (\<open>endpoint.hpp\<close>, \<open>endpoint.cpp\<close>): its operations and what each job does
    (\<open>run_job\<close>): the closes and the shutdown of the library, and closures of the program that
    uses it, which may queue further ones and throw.
    Failures (\<open>internal.hpp\<close> and the files that throw): what is reported when a call fails.
  \<^item> Ownership (interpretation of \<open>queued_jobs\<close> on \<open>run_job\<close>; the invariant
    \<open>wf_world\<close>), Lifetimes (every operation keeps it) and Endpoint_Props (the transition
    system \<open>ep_step\<close> of all that can happen, and the properties of reachable states).
  \<^item> System puts them together: \<open>sys_step\<close> has the endpoint's operations, accepted and
    failing connections, the traffic of every live session of both kinds with whatever
    nghttp2 calls back, the closures that users queue, the processing of the queue and the
    shutdown; \<open>sys_inv\<close> holds in
    all of its reachable states. System_Props has their properties, Api the endpoint used
    from several threads (\<open>Loop_Threads\<close> with the operations of \<open>Endpoint\<close> as its
    jobs), Teardown the end of an endpoint and its members. Two abstract specifications
    are refined by it: Replies has the server a client of one inbound session sees (a
    request is a stream, and gets one of three replies), Connections the table of the
    endpoint's connections.
  \<^item> Dns (\<open>dns.hpp\<close>, \<open>dns.cpp\<close>): the DNS server. Reports: what the program prints of
    its urls, parser and headers, line by line. Accessors: the small members through
    which the parts reach each other.

  \<^bold>\<open>What is shown.\<close> For the loop: calls from other threads are linearizable in push
  order, all of them are answered within a bounded number of steps while the loop runs,
  and are stranded when it stops (C1, C12, C40) or when loops call each other (C13); jobs
  run in order, and a round leaves in the queue what they have queued themselves (C14, C16); every timer runs at most once and not before
  it is due, a stopped ticker is silent, a delayed call is early by less than a microsecond
  (C8, C23, C28); objects with a deferred deletion are destroyed once, after their last owner
  (C21). For threads: which data can be in a data race at all (C4), that two threads with
  nothing in common race (C11), and how many threads may start and stop a ticker (C9). For the program as a whole,
  in every state it reaches: it refines a table of connections in which no connection ever
  changes its peer (C2, C17); who owns what (C3), which streams sessions have (C7), what every
  queued job does (C15), how threads that ask for one port are answered (C20), that
  nothing outlives an endpoint but its queued jobs (C22), and how a peer gets a destroyed
  session dereferenced (C10). For its objects: the exact effect of duplicate connections,
  failed listens, the last owner's destruction and listener errors (C25, C30 to C32). For
  HTTP/2: what a client of the server gets from its first header to the end of its stream
  (C5), the hooks refine a set of open streams over any sequence of events (C6, C29), the
  reply to a request and the reading of its file (C19, C34, C35), what a peer's choice of ALPN
  does (C18), what is fed and sent (C26, C27), failing construction (C33). For errors: the local
  address read by chance (C24), what a failure reports (C37). For the data: urls, dumps,
  addresses (C36, C38, C39). Further theorems, not numbered, are in the theories: byte order,
  IPv4, round trips of addresses, timeval, tickers, the set-up of loops, TLS contexts, the
  life of the \<open>SSL\<close> object, descriptors of a reply, header walking, log levels, the life of
  loggers, log prefixes, printer views, DNS answers, printed reports, constraints. Where the
  code does not do what it means to, the theorem states what it does: C5, C7, C10, C11, C13,
  C15, C18, C19, C22, C24 to C26, C28 to C34, C37, C39, C40, and C8 for repeating calls, which run
  once.

  \<^bold>\<open>Loops and bounds.\<close> Loops over containers are structural recursions. The rows of the
  hex dump recurse by 32 bytes with a measure. The \<open>errno\<close> loop of the file read
  callback may run for ever, so \<open>read_loop\<close> is a partial function whose value \<open>None\<close> is
  not returning; C35 says exactly when it returns, C34 with what. No definition uses fuel. The
  bound on steps in C12 is a measure (\<open>weight\<close>) that every step of \<open>tstep\<close> decreases and
  that starts at 7 per caller and 1.

  \<^bold>\<open>Conventions.\<close> \<open>assert\<close> is on: a failed assertion is the exception \<open>assert_failed\<close>.
  Undefined behaviour that the code reaches is an exception of its own (\<open>null_deref\<close>,
  \<open>use_after_free\<close>, \<open>out_of_bounds\<close>, \<open>div_by_zero\<close>). Iteration orders of unordered
  maps are parameters. The thread that runs is an argument \<open>t\<close>; the loop's own is
  \<open>loop_thread_id\<close>. Operations of listeners, nodes, sessions and the endpoint are
  modelled on the loop's thread, where the code asserts or brings them; the way there
  from another thread is Loop_Threads. Return codes of libraries are arguments, so every
  theorem holds for all of them.

  \<^bold>\<open>Assumptions on the packages.\<close> Two are hypotheses that a witness instantiates:
  nghttp2 touches a session only through the callbacks registered with it, any number of
  them in any order (\<open>wired\<close>), and the system hands out descriptors that are not open
  (\<open>fresh_fds\<close>). Some are part of definitions: a bufferevent hands over the bytes in order
  (\<open>session_io\<close>), \<open>SSL_shutdown\<close> frees nothing (\<open>ssl_call\<close>), an added event fires once and
  not before its time (\<open>libevent\<close>, \<open>timed_step\<close>), spdlog registers a logger's name when it
  makes the logger (\<open>spd_register\<close>), OpenSSL gives its oldest error first
  (\<open>ERR_get_error\<close>), a call of libevent locks its base once \<open>evthread_use_pthreads\<close> has been
  called (\<open>Sync\<close> in \<open>Data_Races\<close>), nghttp2 passes on no header name with a NUL in it
  (\<open>Network\<close> there, \<open>wire_event\<close>). The sessions take the socket's name from a parameter, which by C24 is
  its true name for IPv4 when the uninitialised length is at least 8 and below 2^31.

  \<^bold>\<open>Not modelled.\<close> The log lines outside Loop_Setup, Dns and Reports, what spdlog does with
  a line, the branches for Windows, and what the packages do inside. \<open>headers::make_request\<close> is declared
  and never defined; \<open>endpoint::call_every\<close> does not compile when it is used. In
  the theories on whole objects each operation is one step; what happens when operations of
  several threads overlap is the subject of \<open>Loop_Threads\<close>, \<open>Data_Races\<close> and
  \<open>Watcher_Threads\<close>. \<open>Data_Races\<close> leaves out what the operations compute, jobs that throw, and
  loops that stop while others use them; a thread is taken to get its pointer to a loop by a
  synchronisation with the thread that made it. In System a user's closure queues and
  throws, and what else it asks of the endpoint is a step of its own; the closures that
  delete objects are in Owners.
\<close>

end
